(* ===== verification/Prelude.thy ===== *)
theory Prelude
  imports Main "HOL-Library.Word"
begin

section \<open>Shared vocabulary of the development\<close>

text \<open>
  What every component theory uses: the names of the machine types, the result type of a
  fallible Go function, the collections of simplification facts, and the generic lemmas on
  lists, maps and big-endian byte encodings.

  \<^item> A Go \<open>string\<close> or \<open>[]byte\<close> is a sequence of bytes. Identifiers, keys and other text are
    HOL's \<open>string\<close> (a list of 8-bit characters); media payloads are lists of \<open>8 word\<close>.
  \<^item> \<open>time.Time\<close> and \<open>time.Duration\<close> are integers counting nanoseconds; the zero time
    \<open>time.Time{}\<close> is 0. The clock is never read inside a definition: the instant that
    \<open>time.Now()\<close> returns is an argument.
  \<^item> A function returning \<open>(T, error)\<close> has the result type \<open>'e + 'a\<close>, with \<open>Inl\<close> for the error.
  \<^item> A map guarded by a mutex is part of an explicit state; one critical section is one
    function on that state.
\<close>

type_synonym byte = "8 word"
type_synonym bytes = "8 word list"
type_synonym u32 = "32 word"
type_synonym u64 = "64 word"
type_synonym time = int
type_synonym duration = int

named_theorems model_defs "definitions of the operations of a component"
named_theorems frame_simps "what an operation leaves unchanged"
named_theorems inv_intros "operations preserve the invariants"

abbreviation millisecond :: duration where "millisecond \<equiv> 1000000"
abbreviation second :: duration where "second \<equiv> 1000000000"
abbreviation hour :: duration where "hour \<equiv> 3600000000000"

text \<open>\<open>time.Time.Unix\<close>: whole seconds, truncated. The model's instants are not negative, so
  flooring division is truncation.\<close>

definition unix :: "time \<Rightarrow> int" where
  "unix t = t div second"

lemma unix_bounds: "unix t * second \<le> t" "t < unix t * second + second"
  by (simp_all add: unix_def minus_mod_eq_div_mult [symmetric])

subsection \<open>Go maps\<close>

text \<open>\<open>delete(m, k)\<close> and the maps that the code ranges over. A range over a Go map visits the
  entries in an unspecified order; where the order matters the enumeration is an argument of the
  definition, and \<open>enumerates\<close> says that it lists each key once.\<close>

definition map_delete :: "'k \<Rightarrow> ('k \<rightharpoonup> 'v) \<Rightarrow> ('k \<rightharpoonup> 'v)" where
  "map_delete k m = m(k := None)"

definition enumerates :: "'k list \<Rightarrow> ('k \<rightharpoonup> 'v) \<Rightarrow> bool" where
  "enumerates ks m \<longleftrightarrow> distinct ks \<and> set ks = dom m"

lemma map_delete_same [simp]: "map_delete k m k = None"
  by (simp add: map_delete_def)

lemma map_delete_other [simp]: "j \<noteq> k \<Longrightarrow> map_delete k m j = m j"
  by (simp add: map_delete_def)

lemma map_delete_apply: "map_delete k m j = (if j = k then None else m j)"
  by (simp add: map_delete_def)

lemma dom_map_delete [simp]: "dom (map_delete k m) = dom m - {k}"
  by (auto simp: map_delete_def)

lemma map_delete_empty [simp]: "map_delete k Map.empty = Map.empty"
  by (simp add: map_delete_def)

lemma map_delete_idle: "m k = None \<Longrightarrow> map_delete k m = m"
  by (auto simp: map_delete_def)

lemma map_delete_insert [simp]: "map_delete k (m(k \<mapsto> v)) = map_delete k m"
  by (simp add: map_delete_def)

lemma map_delete_comm: "map_delete j (map_delete k m) = map_delete k (map_delete j m)"
  by (auto simp: map_delete_def)

lemma map_delete_SomeD: "map_delete k m j = Some v \<Longrightarrow> j \<noteq> k \<and> m j = Some v"
  by (auto simp: map_delete_def split: if_splits)

lemma enumerates_finite: "enumerates ks m \<Longrightarrow> finite (dom m)"
  unfolding enumerates_def by (metis List.finite_set)

lemma enumerates_length: "enumerates ks m \<Longrightarrow> length ks = card (dom m)"
  unfolding enumerates_def by (metis distinct_card)

lemma enumerates_empty [simp]: "enumerates ks Map.empty \<longleftrightarrow> ks = []"
  by (auto simp: enumerates_def)

lemma enumerates_mem: "enumerates ks m \<Longrightarrow> k \<in> set ks \<longleftrightarrow> m k \<noteq> None"
  by (auto simp: enumerates_def)

subsection \<open>Counting occurrences\<close>

text \<open>\<open>count_list\<close> of HOL counts an element of a list; these facts move it through the queue
  operations.\<close>

lemma count_list_snoc [simp]: "count_list (xs @ [y]) x = count_list xs x + (if y = x then 1 else 0)"
  by simp

lemma count_list_pos: "x \<in> set xs \<Longrightarrow> 0 < count_list xs x"
  by (induction xs) auto

lemma count_list_zero_iff: "count_list xs x = 0 \<longleftrightarrow> x \<notin> set xs"
  by (induction xs) auto

lemma count_list_take_drop: "count_list (take n xs) x + count_list (drop n xs) x = count_list xs x"
  by (metis append_take_drop_id count_list_append)

subsection \<open>Big-endian bytes\<close>

text \<open>\<open>binary.BigEndian.PutUint32\<close> and \<open>binary.BigEndian.Uint32\<close>; \<open>byte(n >> k)\<close> on a
  non-negative \<open>int\<close> keeps the low 8 bits.\<close>

definition byte_of_nat :: "nat \<Rightarrow> byte" where
  "byte_of_nat n = word_of_nat n"

definition shr :: "nat \<Rightarrow> nat \<Rightarrow> nat" where
  "shr n k = n div 2 ^ k"

definition put_uint32 :: "nat \<Rightarrow> bytes" where
  "put_uint32 n = [byte_of_nat (shr n 24), byte_of_nat (shr n 16), byte_of_nat (shr n 8), byte_of_nat n]"

definition be24 :: "byte \<Rightarrow> byte \<Rightarrow> byte \<Rightarrow> nat" where
  "be24 a b c = unat a * 65536 + unat b * 256 + unat c"

lemma unat_byte_of_nat [simp]: "unat (byte_of_nat n) = n mod 256"
  by (simp add: byte_of_nat_def unat_of_nat)

lemma length_put_uint32 [simp]: "length (put_uint32 n) = 4"
  by (simp add: put_uint32_def)

lemma nat_mod_2_24: "n mod 16777216 = (n div 65536 mod 256) * 65536 + (n div 256 mod 256) * 256 + n mod 256"
  for n :: nat
proof -
  have a: "n mod (65536 * 256) = 65536 * (n div 65536 mod 256) + n mod 65536"
    by (rule mod_mult2_eq)
  have b: "n mod (256 * 256) = 256 * (n div 256 mod 256) + n mod 256"
    by (rule mod_mult2_eq)
  from a b show ?thesis by simp
qed

lemma be24_byte_of_nat:
  "be24 (byte_of_nat (shr n 16)) (byte_of_nat (shr n 8)) (byte_of_nat n) = n mod 2 ^ 24"
  by (simp add: be24_def shr_def nat_mod_2_24)

end
