(* ===== verification/Packet_Pool.thy ===== *)
theory Packet_Pool
  imports Prelude
begin

section \<open>Reference-counted media packets\<close>

text \<open>
  \<open>internal/stream/types.go\<close>: the \<open>AVPacket\<close> cells, the \<open>sync.Pool\<close> they are recycled through
  and the \<open>Retain\<close>/\<open>Release\<close> reference counting.

  Packets are shared by pointer between the pump, every subscriber channel and every GOP cache,
  so the model has an explicit store: an address maps to a cell. A Go slice is a backing array
  together with a length; \<open>buf\<close> is the whole backing array (its length is the capacity) and
  \<open>dlen\<close> the slice's length, so that \<open>pkt.Data\<close> is \<open>data pkt\<close>.

  \<open>accounts h f\<close> says that \<open>f\<close> counts the outstanding references: the counter of every cell equals
  the number of references to it, and the pool holds exactly the cells nobody refers to, each once.
  The three laws at the end (one per operation) are what every component above relies on.
\<close>

type_synonym addr = nat

text \<open>\<open>PacketType\<close> is a \<open>uint8\<close> whose values are FLV tag types.\<close>

definition PacketAudio :: byte where "PacketAudio = 8"
definition PacketVideo :: byte where "PacketVideo = 9"
definition PacketMeta :: byte where "PacketMeta = 18"

record avpacket =
  ptype :: byte
  timestamp :: u32
  is_keyframe :: bool
  buf :: bytes
  dlen :: nat
  refs :: int

definition data :: "avpacket \<Rightarrow> bytes" where
  "data p = take (dlen p) (buf p)"

text \<open>The store: cells, the next unused address, and the contents of \<open>packetPool\<close>.\<close>

record packet_heap =
  cells :: "addr \<Rightarrow> avpacket"
  next_addr :: addr
  packetPool :: "addr list"

definition blank_packet :: avpacket where
  "blank_packet = \<lparr>ptype = 0, timestamp = 0, is_keyframe = False, buf = [], dlen = 0, refs = 0\<rparr>"

definition empty_heap :: packet_heap where
  "empty_heap = \<lparr>cells = (\<lambda>_. blank_packet), next_addr = 0, packetPool = []\<rparr>"

text \<open>\<open>packetPool.Get()\<close>: \<open>sync.Pool\<close> may hand out any cell it holds or call \<open>New\<close>. The choice is
  the argument: a pooled address, or anything else for a new cell.\<close>

definition pool_get :: "addr option \<Rightarrow> packet_heap \<Rightarrow> addr \<times> packet_heap" where
  "pool_get choice h =
     (case choice of
        Some p \<Rightarrow>
          if p \<in> set (packetPool h) then (p, h\<lparr>packetPool := remove1 p (packetPool h)\<rparr>)
          else (next_addr h, h\<lparr>cells := (cells h)(next_addr h := blank_packet), next_addr := Suc (next_addr h)\<rparr>)
      | None \<Rightarrow> (next_addr h, h\<lparr>cells := (cells h)(next_addr h := blank_packet), next_addr := Suc (next_addr h)\<rparr>))"

definition pool_put :: "addr \<Rightarrow> packet_heap \<Rightarrow> packet_heap" where
  "pool_put p h = h\<lparr>packetPool := p # packetPool h\<rparr>"

definition upd_cell :: "addr \<Rightarrow> (avpacket \<Rightarrow> avpacket) \<Rightarrow> packet_heap \<Rightarrow> packet_heap" where
  "upd_cell p f h = h\<lparr>cells := (cells h)(p := f (cells h p))\<rparr>"

text \<open>\<open>NewAVPacket(size)\<close>. A backing array that is large enough is resliced and keeps its old
  contents; otherwise a zeroed array of exactly \<open>size\<close> bytes is made. The header fields are reset.\<close>

definition reslice :: "nat \<Rightarrow> avpacket \<Rightarrow> avpacket" where
  "reslice n p =
     (if length (buf p) < n then p\<lparr>buf := replicate n 0, dlen := n\<rparr>
      else p\<lparr>dlen := n\<rparr>)"

definition NewAVPacket :: "addr option \<Rightarrow> nat \<Rightarrow> packet_heap \<Rightarrow> addr \<times> packet_heap" where
  "NewAVPacket choice n h =
     (let (p, h1) = pool_get choice h in
      (p, upd_cell p (\<lambda>c. (reslice n (c\<lparr>refs := 1\<rparr>))
            \<lparr>ptype := 0, timestamp := 0, is_keyframe := False\<rparr>) h1))"

definition Retain :: "addr \<Rightarrow> packet_heap \<Rightarrow> packet_heap" where
  "Retain p h = upd_cell p (\<lambda>c. c\<lparr>refs := refs c + 1\<rparr>) h"

definition Release :: "addr \<Rightarrow> packet_heap \<Rightarrow> packet_heap" where
  "Release p h =
     (let h1 = upd_cell p (\<lambda>c. c\<lparr>refs := refs c - 1\<rparr>) h in
      if refs (cells h1 p) = 0 then pool_put p h1 else h1)"

text \<open>Releasing a whole list, as the drain loops and the GOP cache do.\<close>

fun Release_all :: "addr list \<Rightarrow> packet_heap \<Rightarrow> packet_heap" where
  "Release_all [] h = h"
| "Release_all (p # ps) h = Release_all ps (Release p h)"

subsection \<open>Accounting of references\<close>

definition accounts :: "packet_heap \<Rightarrow> (addr \<Rightarrow> nat) \<Rightarrow> bool" where
  "accounts h f \<longleftrightarrow>
     (\<forall>p < next_addr h. refs (cells h p) = int (f p)) \<and>
     (\<forall>p \<ge> next_addr h. f p = 0) \<and>
     distinct (packetPool h) \<and>
     set (packetPool h) = {p. p < next_addr h \<and> f p = 0}"

lemma accounts_empty: "accounts empty_heap (\<lambda>_. 0)"
  by (simp add: accounts_def empty_heap_def)

lemma accounts_cong:
  assumes "accounts h f" "\<And>p. f p = g p"
  shows "accounts h g"
proof -
  have "f = g" by (rule ext) (rule assms(2))
  with assms(1) show ?thesis by simp
qed

lemma accounts_live:
  assumes "accounts h f" "0 < f p"
  shows "p < next_addr h \<and> p \<notin> set (packetPool h)"
  using assms by (cases "p < next_addr h") (auto simp: accounts_def)

lemma accounts_pooled: "accounts h f \<Longrightarrow> p \<in> set (packetPool h) \<Longrightarrow> f p = 0"
  by (simp add: accounts_def)

lemma accounts_refs:
  assumes "accounts h f" "0 < f p"
  shows "refs (cells h p) = int (f p)"
  using assms(1) accounts_live [OF assms] by (simp add: accounts_def)

lemma reslice_refs [simp]: "refs (reslice n p) = refs p"
  by (simp add: reslice_def)

lemma data_reslice: "length (buf p) < n \<Longrightarrow> data (reslice n p) = replicate n 0"
  by (simp add: reslice_def data_def)

lemma length_data_reslice [simp]: "length (data (reslice n p)) = n"
  by (simp add: reslice_def data_def)

text \<open>Writing a cell's fields other than the counter is invisible to the accounting.\<close>

lemma accounts_upd_cell:
  "accounts h f \<Longrightarrow> (\<And>c. refs (g c) = refs c) \<Longrightarrow> accounts (upd_cell p g h) f"
  by (auto simp: accounts_def upd_cell_def)

lemma accounts_NewAVPacket:
  assumes "accounts h f" "NewAVPacket choice n h = (p, h')"
  shows "f p = 0" "accounts h' (f(p := 1))" "dlen (cells h' p) = n" "n \<le> length (buf (cells h' p))"
proof -
  obtain q h1 where g: "pool_get choice h = (q, h1)" by fastforce
  with assms(2) have p: "p = q" and h': "h' = upd_cell p (\<lambda>c. (reslice n (c\<lparr>refs := 1\<rparr>))
            \<lparr>ptype := 0, timestamp := 0, is_keyframe := False\<rparr>) h1"
    by (auto simp: NewAVPacket_def)
  show "f p = 0"
    using g assms(1) unfolding p
    by (auto simp: pool_get_def accounts_def split: option.splits if_splits)
  show "accounts h' (f(p := 1))"
    using g assms(1) unfolding h' p
    by (auto simp: pool_get_def accounts_def upd_cell_def less_Suc_eq split: option.splits if_splits)
  show "dlen (cells h' p) = n" "n \<le> length (buf (cells h' p))"
    by (simp_all add: h' upd_cell_def reslice_def)
qed

lemma accounts_Retain:
  assumes "accounts h f" "0 < f p"
  shows "accounts (Retain p h) (f(p := Suc (f p)))"
  using assms accounts_live [OF assms] by (auto simp: accounts_def Retain_def upd_cell_def)

lemma accounts_Release:
  assumes "accounts h f" "0 < f p"
  shows "accounts (Release p h) (f(p := f p - 1))"
  using assms accounts_live [OF assms]
  by (auto simp: accounts_def Release_def Let_def upd_cell_def pool_put_def of_nat_diff)

lemma accounts_Release_all:
  "accounts h (\<lambda>q. count_list ps q + r q) \<Longrightarrow> accounts (Release_all ps h) r"
proof (induction ps arbitrary: h)
  case Nil
  then show ?case by simp
next
  case (Cons p ps)
  let ?f = "\<lambda>q. count_list (p # ps) q + r q"
  have "accounts (Release p h) (?f(p := ?f p - 1))"
    by (rule accounts_Release [OF Cons.prems]) simp
  moreover have "?f(p := ?f p - 1) = (\<lambda>q. count_list ps q + r q)"
    by auto
  ultimately show ?case using Cons.IH by simp
qed

text \<open>A counter operation touches no payload.\<close>

definition same_payload :: "avpacket \<Rightarrow> avpacket \<Rightarrow> bool" where
  "same_payload a b \<longleftrightarrow> ptype a = ptype b \<and> timestamp a = timestamp b \<and>
     is_keyframe a = is_keyframe b \<and> data a = data b"

lemma same_payload_refl [simp]: "same_payload a a"
  by (simp add: same_payload_def)

lemma same_payload_trans: "same_payload a b \<Longrightarrow> same_payload b c \<Longrightarrow> same_payload a c"
  by (simp add: same_payload_def)

lemma payload_Retain [frame_simps]: "same_payload (cells (Retain p h) q) (cells h q)"
  by (simp add: Retain_def upd_cell_def same_payload_def data_def)

lemma payload_Release [frame_simps]: "same_payload (cells (Release p h) q) (cells h q)"
  by (simp add: Release_def upd_cell_def same_payload_def data_def pool_put_def Let_def)

lemma next_addr_Retain [simp]: "next_addr (Retain p h) = next_addr h"
  by (simp add: Retain_def upd_cell_def)

lemma next_addr_Release [simp]: "next_addr (Release p h) = next_addr h"
  by (simp add: Release_def upd_cell_def pool_put_def Let_def)

lemma next_addr_Release_all [simp]: "next_addr (Release_all ps h) = next_addr h"
  by (induction ps arbitrary: h) auto

text \<open>Release never gives back a cell that somebody still refers to, and gives the last one back.\<close>

lemma Release_pool:
  assumes "accounts h f" "0 < f p"
  shows "packetPool (Release p h) = (if f p = 1 then p # packetPool h else packetPool h)"
  using assms accounts_refs [OF assms]
  by (auto simp: Release_def Let_def upd_cell_def pool_put_def)

text \<open>Neither does a recycled buffer start out zeroed: the bytes of the previous user remain.\<close>

lemma NewAVPacket_recycled:
  assumes "p \<in> set (packetPool h)" "n \<le> length (buf (cells h p))"
  shows "\<exists>h'. NewAVPacket (Some p) n h = (p, h') \<and> buf (cells h' p) = buf (cells h p)"
  using assms by (auto simp: NewAVPacket_def pool_get_def upd_cell_def reslice_def)

end
