(* ===== verification/Flv.thy ===== *)
theory Flv
  imports Packet_Pool
begin

unbundle bit_operations_syntax

section \<open>The FLV container\<close>

text \<open>
  \<open>internal/flv/writer.go\<close> and \<open>internal/flv/reader.go\<close>.

  An \<open>io.Writer\<close> is a function from a writer state and a chunk to a success flag and the next
  state; the locale \<open>io_writer\<close> states what \<open>WriteTag\<close> relies on. An \<open>io.Reader\<close> is the list of
  bytes still to come. The main results are the round trips: what \<open>WriteTag\<close> writes is what
  \<open>Reader.Next\<close> reads, for single tags and for whole streams, as long as a payload is shorter
  than \<open>2^24\<close> bytes; and what happens when it is not.
\<close>

subsection \<open>Writer\<close>

definition fileHeader :: bytes where
  "fileHeader = [70, 76, 86, 1, 5, 0, 0, 0, 9, 0, 0, 0, 0]"

type_synonym 'w writer = "'w \<Rightarrow> bytes \<Rightarrow> bool \<times> 'w"

definition WriteFileHeader :: "'w writer \<Rightarrow> 'w \<Rightarrow> bool \<times> 'w" where
  "WriteFileHeader wr w = wr w fileHeader"

text \<open>The 11-byte tag header; \<open>byte(x >> k)\<close> truncates.\<close>

definition tag_header :: "byte \<Rightarrow> nat \<Rightarrow> u32 \<Rightarrow> bytes" where
  "tag_header ty n ts =
     [ty,
      byte_of_nat (shr n 16), byte_of_nat (shr n 8), byte_of_nat n,
      ucast (drop_bit 16 ts), ucast (drop_bit 8 ts), ucast ts, ucast (drop_bit 24 ts),
      0, 0, 0]"

definition WriteTag :: "'w writer \<Rightarrow> 'w \<Rightarrow> avpacket \<Rightarrow> bool \<times> 'w" where
  "WriteTag wr w pkt =
     (let n = length (data pkt);
          (ok1, w1) = wr w (tag_header (ptype pkt) n (timestamp pkt)) in
      if \<not> ok1 then (False, w1) else
      let (ok2, w2) = wr w1 (data pkt) in
      if \<not> ok2 then (False, w2) else
      wr w2 (put_uint32 (11 + n)))"

text \<open>Two writers of the standard library: \<open>bytes.Buffer\<close>, which never fails, and a sink that
  accepts a limited number of bytes (a full disk, a closed connection).\<close>

definition buffer_write :: "bytes writer" where
  "buffer_write w bs = (True, w @ bs)"

fun limited_write :: "(bytes \<times> nat) writer" where
  "limited_write (w, room) bs =
     (if length bs \<le> room then (True, (w @ bs, room - length bs))
      else (False, (w @ take room bs, 0)))"

text \<open>The wire image of one tag.\<close>

definition tag_bytes :: "avpacket \<Rightarrow> bytes" where
  "tag_bytes pkt =
     tag_header (ptype pkt) (length (data pkt)) (timestamp pkt) @ data pkt @
     put_uint32 (11 + length (data pkt))"

subsection \<open>Reader\<close>

datatype io_err = EOF | ErrUnexpectedEOF

datatype flv_err =
  ReadHeaderErr io_err | InvalidMagic | TagHeaderErr io_err | TagDataErr io_err | PrevTagSizeErr io_err

text \<open>\<open>io.ReadFull\<close>: all \<open>n\<close> bytes, or what is left with the error that tells nothing from some.\<close>

definition ReadFull :: "nat \<Rightarrow> bytes \<Rightarrow> io_err option \<times> bytes \<times> bytes" where
  "ReadFull n s =
     (if n \<le> length s then (None, take n s, drop n s)
      else if s = [] then (Some EOF, [], [])
      else (Some ErrUnexpectedEOF, s, []))"

definition NewReader :: "bytes \<Rightarrow> flv_err option \<times> bytes" where
  "NewReader s =
     (let (e, hdr, rest) = ReadFull 13 s in
      case e of
        Some err \<Rightarrow> (Some (ReadHeaderErr err), rest)
      | None \<Rightarrow>
          if hdr ! 0 \<noteq> 70 \<or> hdr ! 1 \<noteq> 76 \<or> hdr ! 2 \<noteq> 86 then (Some InvalidMagic, rest)
          else (None, rest))"

definition header_len :: "bytes \<Rightarrow> nat" where
  "header_len hdr = be24 (hdr ! 1) (hdr ! 2) (hdr ! 3)"

definition header_ts :: "bytes \<Rightarrow> u32" where
  "header_ts hdr =
     push_bit 16 (ucast (hdr ! 4)) OR push_bit 8 (ucast (hdr ! 5)) OR ucast (hdr ! 6) OR
     push_bit 24 (ucast (hdr ! 7))"

text \<open>Reading into \<open>pkt.Data\<close> overwrites the front of the backing array.\<close>

definition fill_data :: "bytes \<Rightarrow> avpacket \<Rightarrow> avpacket" where
  "fill_data bs p = p\<lparr>buf := bs @ drop (length bs) (buf p)\<rparr>"

definition keyframe_flag :: "byte \<Rightarrow> bytes \<Rightarrow> bool" where
  "keyframe_flag ty d \<longleftrightarrow> ty = PacketVideo \<and> (case d of [] \<Rightarrow> False | b # _ \<Rightarrow> drop_bit 4 b = 1)"

definition Next :: "addr option \<Rightarrow> bytes \<Rightarrow> packet_heap \<Rightarrow> (flv_err + addr) \<times> bytes \<times> packet_heap" where
  "Next choice s h =
     (let (e1, hdr, s1) = ReadFull 11 s in
      case e1 of Some err \<Rightarrow> (Inl (TagHeaderErr err), s1, h) | None \<Rightarrow>
      let (p, h1) = NewAVPacket choice (header_len hdr) h;
          (e2, body, s2) = ReadFull (header_len hdr) s1;
          h2 = upd_cell p (fill_data body) h1 in
      case e2 of Some err \<Rightarrow> (Inl (TagDataErr err), s2, Release p h2) | None \<Rightarrow>
      let (e3, _, s3) = ReadFull 4 s2 in
      case e3 of Some err \<Rightarrow> (Inl (PrevTagSizeErr err), s3, Release p h2) | None \<Rightarrow>
      (Inr p, s3,
       upd_cell p (\<lambda>c. c\<lparr>ptype := hdr ! 0, timestamp := header_ts hdr,
                          is_keyframe := keyframe_flag (hdr ! 0) (data c)\<rparr>) h2))"

text \<open>\<open>readPrevTagSize\<close>.\<close>

definition readPrevTagSize :: "bytes \<Rightarrow> (io_err + nat) \<times> bytes" where
  "readPrevTagSize s =
     (let (e, b, rest) = ReadFull 4 s in
      case e of
        Some err \<Rightarrow> (Inl err, rest)
      | None \<Rightarrow> (Inr (unat (b ! 0) * 2 ^ 24 + be24 (b ! 1) (b ! 2) (b ! 3)), rest))"

subsection \<open>The writer contract\<close>

text \<open>What the FLV code relies on from an \<open>io.Writer\<close>: a write that reports success has appended
  the whole chunk; one that fails has appended a prefix of it.\<close>

locale io_writer =
  fixes put :: "'w writer"
    and contents :: "'w \<Rightarrow> bytes"
  assumes write_ok: "put w bs = (True, w') \<Longrightarrow> contents w' = contents w @ bs"
    and write_err: "put w bs = (False, w') \<Longrightarrow> \<exists>n. contents w' = contents w @ take n bs"
begin

lemma header_ok: "WriteFileHeader put w = (True, w') \<Longrightarrow> contents w' = contents w @ fileHeader"
  by (simp add: WriteFileHeader_def write_ok)

lemma tag_ok: "WriteTag put w pkt = (True, w') \<Longrightarrow> contents w' = contents w @ tag_bytes pkt"
  by (auto simp: WriteTag_def Let_def tag_bytes_def split: prod.splits if_splits dest!: write_ok)

lemma tag_err:
  assumes "WriteTag put w pkt = (False, w')"
  shows "\<exists>n. contents w' = contents w @ take n (tag_bytes pkt)"
proof -
  let ?hd = "tag_header (ptype pkt) (length (data pkt)) (timestamp pkt)"
  let ?pv = "put_uint32 (11 + length (data pkt))"
  obtain ok1 w1 where r1: "put w ?hd = (ok1, w1)" by fastforce
  obtain ok2 w2 where r2: "put w1 (data pkt) = (ok2, w2)" by fastforce
  consider "\<not> ok1" "w' = w1" | "ok1" "\<not> ok2" "w' = w2" | "ok1" "ok2" "put w2 ?pv = (False, w')"
    using assms r1 r2 by (auto simp: WriteTag_def Let_def split: if_splits)
  then show ?thesis
  proof cases
    case 1
    with r1 obtain n where n: "contents w' = contents w @ take n ?hd" using write_err by fastforce
    have "take (min n (length ?hd)) (tag_bytes pkt) = take n ?hd"
      by (simp add: tag_bytes_def min_def)
    with n show ?thesis by metis
  next
    case 2
    with r1 r2 obtain n where n: "contents w' = contents w @ ?hd @ take n (data pkt)"
      using write_err write_ok by fastforce
    have "take (length ?hd + min n (length (data pkt))) (tag_bytes pkt) = ?hd @ take n (data pkt)"
      by (simp add: tag_bytes_def min_def)
    with n show ?thesis by metis
  next
    case 3
    with r1 r2 obtain n where n: "contents w' = contents w @ ?hd @ data pkt @ take n ?pv"
      using write_err write_ok by fastforce
    have "take (length ?hd + length (data pkt) + n) (tag_bytes pkt) = ?hd @ data pkt @ take n ?pv"
      by (simp add: tag_bytes_def)
    with n show ?thesis by metis
  qed
qed

end

interpretation bytes_buffer: io_writer buffer_write "\<lambda>w. w"
  by unfold_locales (auto simp: buffer_write_def)

interpretation limited_sink: io_writer limited_write fst
proof
  fix w w' :: "bytes \<times> nat" and bs
  show "limited_write w bs = (True, w') \<Longrightarrow> fst w' = fst w @ bs"
    by (cases w) (auto split: if_splits)
  show "limited_write w bs = (False, w') \<Longrightarrow> \<exists>n. fst w' = fst w @ take n bs"
    by (cases w) (auto split: if_splits)
qed

lemma WriteTag_buffer [simp]: "WriteTag buffer_write w pkt = (True, w @ tag_bytes pkt)"
  by (simp add: WriteTag_def buffer_write_def tag_bytes_def Let_def)

lemma WriteFileHeader_buffer [simp]: "WriteFileHeader buffer_write w = (True, w @ fileHeader)"
  by (simp add: WriteFileHeader_def buffer_write_def)

subsection \<open>Lemmas on the wire format\<close>

lemma mod_plus_le: "m \<le> n \<Longrightarrow> n mod m + m \<le> n" for m n :: nat
  by (metis le_add_diff_inverse2 le_mod_geq mod_less_eq_dividend add_le_mono1)

lemma take_take_drop_append: "take m xs @ take k (drop m xs) @ drop (m + k) xs @ ys = xs @ ys"
  by (metis add.commute append.assoc append_take_drop_id drop_drop)

lemma replicate_two: "replicate 2 x = [x, x]"
  by (simp add: numeral_2_eq_2)

lemma length_tag_header [simp]: "length (tag_header ty n ts) = 11"
  by (simp add: tag_header_def)

lemma length_fileHeader [simp]: "length fileHeader = 13"
  by (simp add: fileHeader_def)

lemma length_tag_bytes: "length (tag_bytes p) = 15 + length (data p)"
  by (simp add: tag_bytes_def)

lemma tag_header_type [simp]: "tag_header ty n ts ! 0 = ty"
  by (simp add: tag_header_def)

lemma header_len_tag_header [simp]: "header_len (tag_header ty n ts) = n mod 2 ^ 24"
  unfolding header_len_def be24_byte_of_nat [symmetric] by (simp add: tag_header_def)

lemma ts_bytes_join:
  "push_bit 16 (ucast (ucast (drop_bit 16 ts) :: byte)) OR push_bit 8 (ucast (ucast (drop_bit 8 ts) :: byte)) OR
   ucast (ucast ts :: byte) OR push_bit 24 (ucast (ucast (drop_bit 24 ts) :: byte)) = ts" (is "?l = ts")
  for ts :: u32
proof (rule bit_word_eqI)
  fix n assume "n < LENGTH(32)"
  then consider "n < 8" | "8 \<le> n" "n < 16" | "16 \<le> n" "n < 24" | "24 \<le> n" "n < 32"
    by fastforce
  then show "bit ?l n = bit ts n"
    by cases (auto simp: bit_simps)
qed

lemma header_ts_tag_header [simp]: "header_ts (tag_header ty n ts) = ts"
  unfolding header_ts_def by (simp add: tag_header_def ts_bytes_join)

lemma ReadFull_append [simp]: "length a = n \<Longrightarrow> ReadFull n (a @ b) = (None, a, b)"
  by (simp add: ReadFull_def)

lemma ReadFull_empty: "0 < n \<Longrightarrow> ReadFull n [] = (Some EOF, [], [])"
  by (simp add: ReadFull_def)

lemma ReadFull_length: "ReadFull n s = (e, b, r) \<Longrightarrow> s = b @ r"
  by (auto simp: ReadFull_def split: if_splits)

lemma data_fill_data: "length bs = dlen p \<Longrightarrow> data (fill_data bs p) = bs"
  by (simp add: data_def fill_data_def)

lemma NewAVPacket_dlen: "NewAVPacket choice n h = (p, h') \<Longrightarrow> dlen (cells h' p) = n"
  by (auto simp: NewAVPacket_def upd_cell_def reslice_def split: prod.splits)

text \<open>One successful read: the packet's fields, the rest of the input and the accounting.\<close>

lemma Next_ok:
  assumes "length hdr = 11" "length body = header_len hdr" "length pv = 4"
  shows "\<exists>p h'. Next choice (hdr @ body @ pv @ rest) h = (Inr p, rest, h') \<and>
           ptype (cells h' p) = hdr ! 0 \<and> timestamp (cells h' p) = header_ts hdr \<and>
           data (cells h' p) = body \<and> is_keyframe (cells h' p) = keyframe_flag (hdr ! 0) body"
proof -
  obtain p h1 where n: "NewAVPacket choice (header_len hdr) h = (p, h1)" by fastforce
  have d: "data (fill_data body (cells h1 p)) = body"
    using NewAVPacket_dlen [OF n] assms(2) by (simp add: data_fill_data)
  show ?thesis
    using assms d by (simp add: Next_def n upd_cell_def data_def)
qed

lemma Next_accounts:
  assumes "accounts h f" "Next choice s h = (r, s', h')"
  shows "case r of Inl e \<Rightarrow> accounts h' f | Inr p \<Rightarrow> f p = 0 \<and> accounts h' (f(p := 1))"
proof -
  obtain e1 hdr s1 where r1: "ReadFull 11 s = (e1, hdr, s1)" by (metis prod_cases3)
  obtain p h1 where n: "NewAVPacket choice (header_len hdr) h = (p, h1)" by fastforce
  obtain e2 body s2 where r2: "ReadFull (header_len hdr) s1 = (e2, body, s2)" by (metis prod_cases3)
  obtain e3 pv s3 where r3: "ReadFull 4 s2 = (e3, pv, s3)" by (metis prod_cases3)
  let ?h2 = "upd_cell p (fill_data body) h1"
  note new = accounts_NewAVPacket [OF assms(1) n]
  have a2: "accounts ?h2 (f(p := 1))"
    by (rule accounts_upd_cell [OF new(2)]) (simp add: fill_data_def)
  have "accounts (Release p ?h2) ((f(p := 1))(p := (f(p := 1)) p - 1))"
    by (rule accounts_Release [OF a2]) simp
  moreover have "(f(p := 1))(p := (f(p := 1)) p - 1) = f"
    using new(1) by auto
  ultimately have rel: "accounts (Release p ?h2) f" by simp
  have fin: "accounts (upd_cell p (\<lambda>c. c\<lparr>ptype := hdr ! 0, timestamp := header_ts hdr,
       is_keyframe := keyframe_flag (hdr ! 0) (data c)\<rparr>) ?h2) (f(p := 1))"
    by (rule accounts_upd_cell [OF a2]) simp
  show ?thesis
    using assms rel fin new(1) by (auto simp: Next_def r1 n r2 r3 Let_def split: option.splits)
qed

subsection \<open>Reading a whole stream\<close>

text \<open>The loop of \<open>RelayManager.pull\<close> over \<open>reader.Next\<close>: packets until the first error. Every
  success consumes at least 15 bytes, so the loop ends. \<open>pick\<close> is the pool's choice.\<close>

lemma Next_shrinks: "Next choice s h = (Inr p, s', h') \<Longrightarrow> length s' < length s"
  by (auto simp: Next_def ReadFull_def Let_def split: prod.splits if_splits option.splits)

function read_packets ::
  "(packet_heap \<Rightarrow> addr option) \<Rightarrow> bytes \<Rightarrow> packet_heap \<Rightarrow> avpacket list \<times> flv_err" where
  "read_packets pick s h =
     (case Next (pick h) s h of
        (Inl e, _, _) \<Rightarrow> ([], e)
      | (Inr p, s', h') \<Rightarrow>
          (let (ps, e) = read_packets pick s' h' in (cells h' p # ps, e)))"
  by pat_completeness auto
termination
  by (relation "measure (\<lambda>(_, s, _). length s)") (auto dest: Next_shrinks [OF sym])

declare read_packets.simps [simp del]

text \<open>What a reader can recover from a packet: everything but the counter and the buffer's
  capacity, with the keyframe flag recomputed from the payload.\<close>

definition wire_view :: "avpacket \<Rightarrow> byte \<times> u32 \<times> bytes \<times> bool" where
  "wire_view p = (ptype p, timestamp p, data p, keyframe_flag (ptype p) (data p))"

definition packet_view :: "avpacket \<Rightarrow> byte \<times> u32 \<times> bytes \<times> bool" where
  "packet_view p = (ptype p, timestamp p, data p, is_keyframe p)"

lemma Next_tag_bytes:
  assumes "length (data pkt) < 2 ^ 24"
  shows "\<exists>p h'. Next choice (tag_bytes pkt @ rest) h = (Inr p, rest, h') \<and>
           packet_view (cells h' p) = wire_view pkt"
proof -
  let ?hdr = "tag_header (ptype pkt) (length (data pkt)) (timestamp pkt)"
  have "length (data pkt) = header_len ?hdr" using assms by simp
  from Next_ok [OF length_tag_header this length_put_uint32, of choice "11 + length (data pkt)" rest h]
  show ?thesis by (auto simp: tag_bytes_def packet_view_def wire_view_def)
qed

lemma read_packets_tags:
  "list_all (\<lambda>p. length (data p) < 2 ^ 24) ps \<Longrightarrow>
   \<exists>qs. read_packets pick (concat (map tag_bytes ps)) h = (qs, TagHeaderErr EOF) \<and>
        map packet_view qs = map wire_view ps"
proof (induction ps arbitrary: h)
  case Nil
  then show ?case
    by (subst read_packets.simps) (simp add: Next_def ReadFull_empty)
next
  case (Cons p ps)
  from Cons.prems have "length (data p) < 2 ^ 24" by simp
  from Next_tag_bytes [OF this, of "pick h" "concat (map tag_bytes ps)" h]
  obtain a h' where n: "Next (pick h) (tag_bytes p @ concat (map tag_bytes ps)) h =
      (Inr a, concat (map tag_bytes ps), h')" and v: "packet_view (cells h' a) = wire_view p"
    by blast
  from Cons.IH [of h'] Cons.prems obtain qs where
    "read_packets pick (concat (map tag_bytes ps)) h' = (qs, TagHeaderErr EOF)"
    "map packet_view qs = map wire_view ps" by auto
  then show ?case
    using n v by (subst read_packets.simps) simp
qed

lemma NewReader_fileHeader: "NewReader (fileHeader @ s) = (None, s)"
  by (simp add: NewReader_def ReadFull_def) (simp add: fileHeader_def)

subsection \<open>Properties\<close>

text \<open>The bytes a recorder or a relay peer receives: the file header, then the tags in order.\<close>

definition flv_file :: "avpacket list \<Rightarrow> bytes" where
  "flv_file ps = fold (\<lambda>p w. snd (WriteTag buffer_write w p)) ps (snd (WriteFileHeader buffer_write []))"

lemma flv_file_bytes: "flv_file ps = fileHeader @ concat (map tag_bytes ps)"
proof -
  have "fold (\<lambda>p w. snd (WriteTag buffer_write w p)) ps w = w @ concat (map tag_bytes ps)" for w
    by (induction ps arbitrary: w) auto
  then show ?thesis by (simp add: flv_file_def)
qed

text \<open>Property C4: writing the file header and any sequence of packets (payloads below 16 MiB) with
  \<open>WriteFileHeader\<close>/\<open>WriteTag\<close> and reading it with \<open>NewReader\<close> and repeated \<open>Next\<close> gives back the
  same packets in the same order, with type, timestamp and payload intact and the keyframe flag
  recomputed from the payload, and then a clean end of file.\<close>

theorem flv_stream_roundtrip:
  assumes "list_all (\<lambda>p. length (data p) < 2 ^ 24) ps"
  shows "\<exists>s qs. NewReader (flv_file ps) = (None, s) \<and>
           read_packets pick s h = (qs, TagHeaderErr EOF) \<and>
           map packet_view qs = map wire_view ps"
  using read_packets_tags [OF assms] by (auto simp: flv_file_bytes NewReader_fileHeader)

definition sample_packet :: avpacket where
  "sample_packet = \<lparr>ptype = 9, timestamp = 40, is_keyframe = True, buf = [23, 1, 0, 0, 0], dlen = 5, refs = 1\<rparr>"

theorem flv_stream_roundtrip_witness:
  "list_all (\<lambda>p. length (data p) < 2 ^ 24) [sample_packet, sample_packet\<lparr>timestamp := 80\<rparr>] \<and>
   (\<exists>s qs. NewReader (flv_file [sample_packet, sample_packet\<lparr>timestamp := 80\<rparr>]) = (None, s) \<and>
      read_packets (\<lambda>_. None) s empty_heap = (qs, TagHeaderErr EOF) \<and>
      map packet_view qs = [(9, 40, [23, 1, 0, 0, 0], True), (9, 80, [23, 1, 0, 0, 0], True)])"
proof -
  have h: "list_all (\<lambda>p. length (data p) < 2 ^ 24) [sample_packet, sample_packet\<lparr>timestamp := 80\<rparr>]"
    by (simp add: sample_packet_def data_def)
  have v: "map wire_view [sample_packet, sample_packet\<lparr>timestamp := 80\<rparr>] =
     [(9, 40, [23, 1, 0, 0, 0], True), (9, 80, [23, 1, 0, 0, 0], True)]"
    by (simp add: sample_packet_def wire_view_def data_def keyframe_flag_def PacketVideo_def)
  show ?thesis using h flv_stream_roundtrip [OF h, of "\<lambda>_. None" empty_heap] unfolding v by blast
qed

text \<open>A payload of \<open>2^24\<close> bytes or more is written with a length field that wrapped
  around, so \<open>Next\<close> returns a packet with only the first \<open>len mod 2^24\<close> bytes and leaves the reader in
  the middle of the payload.\<close>

theorem flv_oversize_desync:
  assumes "2 ^ 24 \<le> length (data pkt)"
  shows "\<exists>p h'. Next choice (tag_bytes pkt @ rest) h =
             (Inr p, drop (length (data pkt) mod 2 ^ 24 + 4) (data pkt) @
                put_uint32 (11 + length (data pkt)) @ rest, h') \<and>
           data (cells h' p) = take (length (data pkt) mod 2 ^ 24) (data pkt)"
proof -
  let ?m = "length (data pkt) mod 2 ^ 24"
  let ?hdr = "tag_header (ptype pkt) (length (data pkt)) (timestamp pkt)"
  let ?body = "take ?m (data pkt)" and ?pv = "take 4 (drop ?m (data pkt))"
  let ?rest = "drop (?m + 4) (data pkt) @ put_uint32 (11 + length (data pkt)) @ rest"
  have "?m + 2 ^ 24 \<le> length (data pkt)"
    by (rule mod_plus_le [OF assms])
  then have l: "length ?body = header_len ?hdr" "length ?pv = 4"
    by simp_all
  have "tag_bytes pkt @ rest = ?hdr @ ?body @ ?pv @ ?rest"
    unfolding tag_bytes_def by (simp add: take_take_drop_append)
  with Next_ok [OF length_tag_header l, of choice ?rest h] show ?thesis by auto
qed

theorem flv_oversize_desync_witness:
  "\<exists>p h'. Next None (tag_bytes (sample_packet\<lparr>buf := replicate (2 ^ 24 + 2) 7, dlen := 2 ^ 24 + 2\<rparr>)) empty_heap =
       (Inr p, replicate (2 ^ 24 - 4) 7 @ put_uint32 (11 + (2 ^ 24 + 2)), h') \<and> data (cells h' p) = [7, 7]"
proof -
  let ?p = "sample_packet\<lparr>buf := replicate (2 ^ 24 + 2) 7, dlen := 2 ^ 24 + 2\<rparr>"
  have d: "data ?p = replicate (2 ^ 24 + 2) 7" by (simp add: data_def)
  then have "2 ^ 24 \<le> length (data ?p)" by simp
  from flv_oversize_desync [OF this, of None "[]" empty_heap] show ?thesis
    unfolding d by (simp add: replicate_two)
qed

end
