(* ===== verification/Frame_Builders.thy ===== *)
theory Frame_Builders
  imports Flv
begin

unbundle bit_operations_syntax

section \<open>From RTP access units to FLV tag bodies\<close>

text \<open>
  The last part of \<open>internal/rtsp/ingester.go\<close>: the builders that turn H264 NAL units and AAC
  frames into FLV tag bodies, and the two RTP callbacks of \<open>ingest\<close> that use them. The RTP
  depacketisers are a third-party library: a callback receives the access unit that the decoder
  returned (or nothing when it returned an error).

  A builder allocates from the packet pool, so it threads the heap; \<open>pick\<close> is the pool's choice.
  The builders write the fields they know and leave the three composition-time bytes alone. The
  results say exactly which bytes the body has; whether the composition time is zero depends on
  where the buffer came from.
\<close>

type_synonym pool_choice = "packet_heap \<Rightarrow> addr option"

text \<open>\<open>pkt.Data[i] = b\<close> and \<open>copy(pkt.Data[i:], bs)\<close>, in range.\<close>

definition write_at :: "nat \<Rightarrow> bytes \<Rightarrow> avpacket \<Rightarrow> avpacket" where
  "write_at i bs p = p\<lparr>buf := take i (buf p) @ bs @ drop (i + length bs) (buf p)\<rparr>"

definition nal_type :: "bytes \<Rightarrow> byte" where
  "nal_type nalu = hd nalu AND 31"

text \<open>\<open>buildAVCConfigRecord\<close>; reading \<open>sps[3]\<close> of a shorter slice panics (\<open>None\<close>).\<close>

definition buildAVCConfigRecord :: "bytes \<Rightarrow> bytes \<Rightarrow> bytes option" where
  "buildAVCConfigRecord sps pps =
     (if length sps < 4 then None
      else Some ([1] @ [sps ! 1, sps ! 2, sps ! 3] @ [255] @ [225] @
             [byte_of_nat (shr (length sps) 8), byte_of_nat (length sps)] @ sps @ [1] @
             [byte_of_nat (shr (length pps) 8), byte_of_nat (length pps)] @ pps))"

definition buildVideoSeqHeader :: "pool_choice \<Rightarrow> bytes \<Rightarrow> bytes \<Rightarrow> packet_heap \<Rightarrow> (addr \<times> packet_heap) option" where
  "buildVideoSeqHeader pick sps pps h =
     (case buildAVCConfigRecord sps pps of
        None \<Rightarrow> None
      | Some record \<Rightarrow>
          let (p, h1) = NewAVPacket (pick h) (5 + length record) h in
          Some (p, upd_cell p (\<lambda>c. write_at 5 record (write_at 1 [0] (write_at 0 [23]
                     (c\<lparr>ptype := PacketVideo, timestamp := 0, is_keyframe := True\<rparr>)))) h1))"

text \<open>The NAL units that go into a frame: not empty, and not SPS, PPS or AUD.\<close>

definition keep_nalu :: "bytes \<Rightarrow> bool" where
  "keep_nalu nalu \<longleftrightarrow> nalu \<noteq> [] \<and> nal_type nalu \<notin> {7, 8, 9}"

definition idr_nalu :: "bytes \<Rightarrow> bool" where
  "idr_nalu nalu \<longleftrightarrow> nalu \<noteq> [] \<and> nal_type nalu = 5"

definition length_prefixed :: "bytes list \<Rightarrow> bytes" where
  "length_prefixed nalus = concat (map (\<lambda>n. put_uint32 (length n) @ n) nalus)"

definition buildVideoFrame :: "pool_choice \<Rightarrow> bytes list \<Rightarrow> packet_heap \<Rightarrow> addr option \<times> packet_heap" where
  "buildVideoFrame pick nalus h =
     (let filtered = filter keep_nalu nalus;
          isKeyframe = list_ex idr_nalu nalus in
      if filtered = [] then (None, h)
      else
        let total = 5 + sum_list (map (\<lambda>n. 4 + length n) filtered);
            (p, h1) = NewAVPacket (pick h) total h in
        (Some p, upd_cell p (\<lambda>c. write_at 5 (length_prefixed filtered)
            (write_at 1 [1] (write_at 0 [if isKeyframe then 23 else 39]
              (c\<lparr>ptype := PacketVideo, is_keyframe := isKeyframe\<rparr>)))) h1))"

definition buildAudioSeqHeader :: "pool_choice \<Rightarrow> bytes \<Rightarrow> packet_heap \<Rightarrow> addr \<times> packet_heap" where
  "buildAudioSeqHeader pick configBytes h =
     (let (p, h1) = NewAVPacket (pick h) (2 + length configBytes) h in
      (p, upd_cell p (\<lambda>c. write_at 2 configBytes (write_at 1 [0] (write_at 0 [175]
            (c\<lparr>ptype := PacketAudio, timestamp := 0\<rparr>)))) h1))"

definition buildAudioFrame :: "pool_choice \<Rightarrow> bytes \<Rightarrow> packet_heap \<Rightarrow> addr \<times> packet_heap" where
  "buildAudioFrame pick bs h =
     (let (p, h1) = NewAVPacket (pick h) (2 + length bs) h in
      (p, upd_cell p (\<lambda>c. write_at 2 bs (write_at 1 [1] (write_at 0 [175]
            (c\<lparr>ptype := PacketAudio\<rparr>)))) h1))"

text \<open>\<open>extractSPSPPS\<close>: the last SPS and the last PPS of the access unit (\<open>None\<close> is nil).\<close>

fun extractSPSPPS_from :: "bytes option \<times> bytes option \<Rightarrow> bytes list \<Rightarrow> bytes option \<times> bytes option" where
  "extractSPSPPS_from acc [] = acc"
| "extractSPSPPS_from (sps, pps) (nalu # rest) =
     extractSPSPPS_from
       (if nalu = [] then (sps, pps)
        else if nal_type nalu = 7 then (Some nalu, pps)
        else if nal_type nalu = 8 then (sps, Some nalu)
        else (sps, pps)) rest"

definition extractSPSPPS :: "bytes list \<Rightarrow> bytes option \<times> bytes option" where
  "extractSPSPPS nalus = extractSPSPPS_from (None, None) nalus"

subsection \<open>The RTP callbacks\<close>

text \<open>The variables the video callback closes over.\<close>

record video_state =
  v_firstTS :: u32
  v_gotFirstTS :: bool
  currentSPS :: bytes
  currentPPS :: bytes

record audio_state =
  a_firstTS :: u32
  a_gotFirstTS :: bool

definition set_timestamp :: "u32 \<Rightarrow> addr \<Rightarrow> packet_heap \<Rightarrow> packet_heap" where
  "set_timestamp ts p = upd_cell p (\<lambda>c. c\<lparr>timestamp := ts\<rparr>)"

text \<open>The in-stream parameter-set update: the new sequence header, if one is emitted.\<close>

definition update_params :: "bytes list \<Rightarrow> video_state \<Rightarrow> video_state" where
  "update_params nalus v =
     (let (newSPS, newPPS) = extractSPSPPS nalus in
      v\<lparr>currentSPS := (case newSPS of Some s \<Rightarrow> s | None \<Rightarrow> currentSPS v),
        currentPPS := (case newPPS of Some s \<Rightarrow> s | None \<Rightarrow> currentPPS v)\<rparr>)"

definition emit_seq_header ::
  "pool_choice \<Rightarrow> bytes list \<Rightarrow> video_state \<Rightarrow> packet_heap \<Rightarrow> addr list \<times> packet_heap" where
  "emit_seq_header pick nalus v h =
     (if extractSPSPPS nalus \<noteq> (None, None) \<and> 4 \<le> length (currentSPS v) \<and> 0 < length (currentPPS v)
      then case buildVideoSeqHeader pick (currentSPS v) (currentPPS v) h of
             None \<Rightarrow> ([], h) | Some (p, h1) \<Rightarrow> ([p], h1)
      else ([], h))"

text \<open>The video callback: the packets it hands to \<open>liveStream.Ingest\<close>, in order. \<open>dec\<close> is what
  \<open>dec.Decode\<close> returned, \<open>ts\<close> the RTP timestamp (a \<open>uint32\<close>: the difference wraps).\<close>

definition on_video_rtp ::
  "pool_choice \<Rightarrow> u32 \<Rightarrow> bytes list option \<Rightarrow> video_state \<Rightarrow> packet_heap \<Rightarrow>
   video_state \<times> addr list \<times> packet_heap" where
  "on_video_rtp pick ts dec v h =
     (case dec of
        None \<Rightarrow> (v, [], h)
      | Some nalus \<Rightarrow>
          if nalus = [] then (v, [], h)
          else
            let v1 = update_params nalus v;
                (hdrs, h1) = emit_seq_header pick nalus v1 h;
                (out, h2) = buildVideoFrame pick nalus h1 in
            case out of
              None \<Rightarrow> (v1, hdrs, h2)
            | Some p \<Rightarrow>
                let v2 = (if v_gotFirstTS v1 then v1 else v1\<lparr>v_firstTS := ts, v_gotFirstTS := True\<rparr>) in
                (v2, hdrs @ [p], set_timestamp ((ts - v_firstTS v2) div 90) p h2))"

text \<open>The audio callback; the product is taken in 64 bits and truncated to 32.\<close>

fun build_audio_frames :: "pool_choice \<Rightarrow> u32 \<Rightarrow> bytes list \<Rightarrow> packet_heap \<Rightarrow> addr list \<times> packet_heap" where
  "build_audio_frames pick ts [] h = ([], h)"
| "build_audio_frames pick ts (au # aus) h =
     (let (p, h1) = buildAudioFrame pick au h;
          (ps, h2) = build_audio_frames pick ts aus (set_timestamp ts p h1) in
      (p # ps, h2))"

definition audio_ts :: "nat \<Rightarrow> u32 \<Rightarrow> u32" where
  "audio_ts sampleRate d = ucast ((ucast d :: u64) * 1000 div of_nat sampleRate)"

definition on_audio_rtp ::
  "pool_choice \<Rightarrow> nat \<Rightarrow> u32 \<Rightarrow> bytes list option \<Rightarrow> audio_state \<Rightarrow> packet_heap \<Rightarrow>
   audio_state \<times> addr list \<times> packet_heap" where
  "on_audio_rtp pick sampleRate ts dec a h =
     (case dec of
        None \<Rightarrow> (a, [], h)
      | Some aus \<Rightarrow>
          if aus = [] then (a, [], h)
          else
            let a1 = (if a_gotFirstTS a then a else a\<lparr>a_firstTS := ts, a_gotFirstTS := True\<rparr>);
                (ps, h1) = build_audio_frames pick (audio_ts sampleRate (ts - a_firstTS a1)) aus h in
            (a1, ps, h1))"

subsection \<open>Bodies\<close>

lemma buf_write_at: "buf (write_at i bs p) = take i (buf p) @ bs @ drop (i + length bs) (buf p)"
  by (simp add: write_at_def)

lemma write_at_frame [simp]:
  "dlen (write_at i bs p) = dlen p" "refs (write_at i bs p) = refs p" "ptype (write_at i bs p) = ptype p"
  "is_keyframe (write_at i bs p) = is_keyframe p" "timestamp (write_at i bs p) = timestamp p"
  by (simp_all add: write_at_def)

lemma length_length_prefixed: "length (length_prefixed ns) = sum_list (map (\<lambda>n. 4 + length n) ns)"
  by (induction ns) (auto simp: length_prefixed_def)

text \<open>The common shape of the builders: two tag bytes, a gap of \<open>k - 2\<close> old bytes, the payload.\<close>

lemma data_built:
  assumes "dlen c = k + length bs" "k + length bs \<le> length (buf c)" "2 \<le> k"
  shows "data (write_at k bs (write_at 1 [y] (write_at 0 [x] c))) =
           x # y # drop 2 (take k (buf c)) @ bs"
proof -
  from assms obtain b0 b1 rest where b: "buf c = b0 # b1 # rest"
    by (cases "buf c"; cases "tl (buf c)") auto
  obtain j where k: "k = Suc (Suc j)" using assms(3) by (metis add_2_eq_Suc le_Suc_ex)
  show ?thesis
    using assms b by (cases bs) (simp_all add: data_def buf_write_at write_at_def k min_def)
qed

text \<open>The old contents of the buffer that the pool handed out.\<close>

definition recycled :: "pool_choice \<Rightarrow> packet_heap \<Rightarrow> nat \<Rightarrow> bytes" where
  "recycled pick h n = (let (p, h1) = NewAVPacket (pick h) n h in buf (cells h1 p))"

lemma NewAVPacket_cell:
  assumes "NewAVPacket choice n h = (p, h1)"
  shows "dlen (cells h1 p) = n" "n \<le> length (buf (cells h1 p))"
    "timestamp (cells h1 p) = 0" "is_keyframe (cells h1 p) = False"
  using assms by (auto simp: NewAVPacket_def upd_cell_def reslice_def split: prod.splits if_splits)

lemma buildVideoFrame_body:
  assumes "buildVideoFrame pick nalus h = (Some p, h')"
  defines "kept \<equiv> filter keep_nalu nalus"
  shows "kept \<noteq> []"
    and "data (cells h' p) = (if list_ex idr_nalu nalus then 23 else 39) # 1 #
           drop 2 (take 5 (recycled pick h (5 + length (length_prefixed kept)))) @ length_prefixed kept"
    and "ptype (cells h' p) = PacketVideo"
    and "is_keyframe (cells h' p) = list_ex idr_nalu nalus"
    and "timestamp (cells h' p) = 0"
proof -
  show ne: "kept \<noteq> []"
    using assms by (auto simp: buildVideoFrame_def Let_def split: if_splits)
  let ?n = "5 + length (length_prefixed kept)"
  obtain q h1 where n: "NewAVPacket (pick h) ?n h = (q, h1)" by fastforce
  note cell = NewAVPacket_cell [OF n]
  let ?c = "(cells h1 q)\<lparr>ptype := PacketVideo, is_keyframe := list_ex idr_nalu nalus\<rparr>"
  have h': "p = q" "cells h' p = write_at 5 (length_prefixed kept) (write_at 1 [1]
      (write_at 0 [if list_ex idr_nalu nalus then 23 else 39] ?c))"
    using assms ne n
    by (auto simp: buildVideoFrame_def Let_def length_length_prefixed upd_cell_def)
  have "recycled pick h ?n = buf (cells h1 q)"
    by (simp add: recycled_def n)
  then show "data (cells h' p) = (if list_ex idr_nalu nalus then 23 else 39) # 1 #
           drop 2 (take 5 (recycled pick h ?n)) @ length_prefixed kept"
    unfolding h'(2) by (subst data_built) (simp_all add: cell)
  show "ptype (cells h' p) = PacketVideo" "is_keyframe (cells h' p) = list_ex idr_nalu nalus"
    "timestamp (cells h' p) = 0"
    by (simp_all add: h'(2) cell)
qed

subsection \<open>Reading a frame body back\<close>

text \<open>The inverse of the length-prefixed layout, as a player demuxes it. A prefix that promises more
  bytes than there are makes the parse fail.\<close>

definition uint32_of :: "bytes \<Rightarrow> nat" where
  "uint32_of b = unat (b ! 0) * 2 ^ 24 + be24 (b ! 1) (b ! 2) (b ! 3)"

function split_nalus :: "bytes \<Rightarrow> bytes list option" where
  "split_nalus bs =
     (if bs = [] then Some []
      else if length bs < 4 then None
      else
        let n = uint32_of (take 4 bs); rest = drop 4 bs in
        if length rest < n then None
        else map_option (\<lambda>ns. take n rest # ns) (split_nalus (drop n rest)))"
  by pat_completeness auto
termination
  by (relation "measure length") auto

declare split_nalus.simps [simp del]

lemma uint32_of_put: "n < 2 ^ 32 \<Longrightarrow> uint32_of (put_uint32 n) = n"
proof -
  assume n: "n < 2 ^ 32"
  have "n = (n div 16777216) * 16777216 + n mod 16777216" by simp
  moreover from n have "n div 16777216 mod 256 = n div 16777216" by simp
  ultimately show ?thesis
    using nat_mod_2_24 [of n] by (simp add: uint32_of_def put_uint32_def be24_def shr_def)
qed

lemma split_length_prefixed:
  "list_all (\<lambda>n. length n < 2 ^ 32) ns \<Longrightarrow> split_nalus (length_prefixed ns) = Some ns"
proof (induction ns)
  case Nil
  then show ?case by (subst split_nalus.simps) (simp add: length_prefixed_def)
next
  case (Cons n ns)
  then have IH: "split_nalus (length_prefixed ns) = Some ns" and n: "length n < 2 ^ 32" by auto
  have e: "length_prefixed (n # ns) = put_uint32 (length n) @ n @ length_prefixed ns"
    by (simp add: length_prefixed_def)
  have ne: "put_uint32 (length n) @ n @ length_prefixed ns \<noteq> []"
    by (metis append_is_Nil_conv length_0_conv length_put_uint32 zero_neq_numeral)
  show ?case
    unfolding e using IH uint32_of_put [OF n] ne by (subst split_nalus.simps) (simp add: Let_def)
qed

subsection \<open>Accounting\<close>

lemma accounts_build:
  assumes "accounts h f" "NewAVPacket choice n h = (p, h1)" "\<And>c. refs (g c) = refs c"
  shows "f p = 0 \<and> accounts (upd_cell p g h1) (f(p := 1))"
  using accounts_NewAVPacket [OF assms(1,2)] accounts_upd_cell [OF _ assms(3)] by blast

lemma buildVideoFrame_accounts:
  assumes "accounts h f" "buildVideoFrame pick nalus h = (out, h')"
  shows "case out of None \<Rightarrow> h' = h | Some p \<Rightarrow> f p = 0 \<and> accounts h' (f(p := 1))"
proof (cases "filter keep_nalu nalus = []")
  case True
  with assms(2) show ?thesis by (auto simp: buildVideoFrame_def)
next
  case False
  let ?n = "5 + sum_list (map (\<lambda>n. 4 + length n) (filter keep_nalu nalus))"
  obtain q h1 where n: "NewAVPacket (pick h) ?n h = (q, h1)" by fastforce
  from accounts_build [OF assms(1) n] False assms(2) n show ?thesis
    by (auto simp: buildVideoFrame_def Let_def)
qed

subsection \<open>Properties\<close>

text \<open>Property C21: for an access unit whose NAL units are shorter than \<open>2^32\<close> bytes, \<open>buildVideoFrame\<close>
  emits a packet exactly when some unit is neither empty nor SPS, PPS or AUD. The packet is flagged
  keyframe (and starts with \<open>0x17\<close>) exactly when the unit contains an IDR, and the body after the
  5-byte header splits back into exactly the kept units, in order.\<close>

theorem buildVideoFrame_roundtrip:
  assumes "list_all (\<lambda>n. length n < 2 ^ 32) nalus"
  shows "case buildVideoFrame pick nalus h of
           (None, h') \<Rightarrow> h' = h \<and> \<not> list_ex keep_nalu nalus
         | (Some p, h') \<Rightarrow>
             list_ex keep_nalu nalus \<and> ptype (cells h' p) = PacketVideo \<and>
             is_keyframe (cells h' p) = list_ex idr_nalu nalus \<and>
             hd (data (cells h' p)) = (if list_ex idr_nalu nalus then 23 else 39) \<and>
             split_nalus (drop 5 (data (cells h' p))) = Some (filter keep_nalu nalus)"
proof (cases "buildVideoFrame pick nalus h")
  case (Pair out h')
  show ?thesis
  proof (cases out)
    case None
    with Pair show ?thesis
      by (auto simp: buildVideoFrame_def Let_def filter_empty_conv list_ex_iff split: if_splits prod.splits)
  next
    case (Some p)
    with Pair have b: "buildVideoFrame pick nalus h = (Some p, h')" by simp
    let ?kept = "filter keep_nalu nalus"
    let ?old = "recycled pick h (5 + length (length_prefixed ?kept))"
    note body = buildVideoFrame_body [OF b]
    have "5 \<le> length ?old"
      using NewAVPacket_cell(2) by (fastforce simp: recycled_def split: prod.splits)
    then have "drop 5 (data (cells h' p)) = length_prefixed ?kept"
      unfolding body(2) by (simp add: numeral_eq_Suc)
    moreover have "list_all (\<lambda>n. length n < 2 ^ 32) ?kept"
      using assms by (auto simp: list_all_iff)
    ultimately show ?thesis
      using body Some Pair
      by (auto simp: split_length_prefixed list_ex_iff filter_empty_conv)
  qed
qed

theorem buildVideoFrame_roundtrip_witness:
  "list_all (\<lambda>n. length n < 2 ^ 32) [[103, 66], [101, 9], []] \<and>
   (case buildVideoFrame (\<lambda>_. None) [[103, 66], [101, 9], []] empty_heap of
      (None, h') \<Rightarrow> False
    | (Some p, h') \<Rightarrow> is_keyframe (cells h' p) \<and> split_nalus (drop 5 (data (cells h' p))) = Some [[101, 9]])"
proof -
  have l: "list_all (\<lambda>n. length n < 2 ^ 32) [[103, 66], [101, 9], []]" by simp
  have f: "keep_nalu [103, 66] = False" "keep_nalu [101, 9] = True" "keep_nalu [] = False"
    "idr_nalu [103, 66] = False" "idr_nalu [101, 9] = True" "idr_nalu [] = False"
    by (simp_all add: keep_nalu_def idr_nalu_def nal_type_def)
  show ?thesis
    using l buildVideoFrame_roundtrip [OF l, where pick = "\<lambda>_. None" and h = empty_heap]
    by (auto simp: f split: prod.splits option.splits)
qed

text \<open>The composition time is not always zero. When the pool recycles a large enough
  buffer, bytes 2 to 4 of the frame body are the previous user's bytes 2 to 4, although the builder's
  comment says they are already zero.\<close>

theorem buildVideoFrame_stale_composition_time:
  assumes "pick h = Some q" "q \<in> set (packetPool h)" "list_ex keep_nalu nalus"
    and "5 + length (length_prefixed (filter keep_nalu nalus)) \<le> length (buf (cells h q))"
  shows "\<exists>h'. buildVideoFrame pick nalus h = (Some q, h') \<and>
           take 3 (drop 2 (data (cells h' q))) = take 3 (drop 2 (buf (cells h q)))"
proof -
  let ?kept = "filter keep_nalu nalus" let ?n = "5 + length (length_prefixed ?kept)"
  have ne: "?kept \<noteq> []" using assms(3) by (auto simp: list_ex_iff filter_empty_conv)
  obtain h1 where n: "NewAVPacket (pick h) ?n h = (q, h1)" and q: "buf (cells h1 q) = buf (cells h q)"
    using NewAVPacket_recycled [OF assms(2,4)] assms(1) by auto
  obtain h' where b: "buildVideoFrame pick nalus h = (Some q, h')"
    using n ne by (auto simp: buildVideoFrame_def Let_def length_length_prefixed)
  have "recycled pick h ?n = buf (cells h q)" by (simp add: recycled_def n q)
  moreover have "5 \<le> length (buf (cells h q))" using assms(4) by simp
  ultimately show ?thesis
    using buildVideoFrame_body(2) [OF b] b by (simp add: numeral_eq_Suc take_Suc drop_Suc tl_take)
qed

definition dirty_heap :: packet_heap where
  "dirty_heap = \<lparr>cells = (\<lambda>_. blank_packet)(0 := blank_packet\<lparr>buf := replicate 16 170, dlen := 16\<rparr>),
                 next_addr = 1, packetPool = [0]\<rparr>"

theorem buildVideoFrame_stale_composition_time_witness:
  "\<exists>h'. buildVideoFrame (\<lambda>_. Some 0) [[101, 9]] dirty_heap = (Some 0, h') \<and>
     take 3 (drop 2 (data (cells h' 0))) = [170, 170, 170]"
proof -
  have k: "filter keep_nalu [[101, 9]] = [[101, 9]]" by (simp add: keep_nalu_def nal_type_def)
  have "(0::nat) \<in> set (packetPool dirty_heap)" "list_ex keep_nalu [[101, 9]]"
    "5 + length (length_prefixed (filter keep_nalu [[101, 9]])) \<le> length (buf (cells dirty_heap 0))"
    by (simp_all add: dirty_heap_def keep_nalu_def nal_type_def length_prefixed_def)
  from buildVideoFrame_stale_composition_time [of "\<lambda>_. Some 0", OF refl this] show ?thesis
    by (simp add: dirty_heap_def numeral_eq_Suc)
qed

end
