(* ===== verification/Go_Strings.thy ===== *)
theory Go_Strings
  imports Prelude "HOL-Library.Sublist"
begin

section \<open>The part of Go's string library that the server uses\<close>

text \<open>
  A Go string is a sequence of bytes, modelled by \<open>string\<close>, HOL's list of 8-bit characters. The
  functions of \<open>strings\<close>, \<open>unicode/utf8\<close>, \<open>encoding/hex\<close> and \<open>fmt\<close> used by the components follow
  their byte-level behaviour:

  \<^item> \<open>TrimSpace\<close> strips the UTF-8 encodings of the characters with the Unicode White\_Space property;
  \<^item> \<open>RuneCountInString\<close> counts runes the way \<open>DecodeRune\<close> splits a string, an invalid byte being a
    rune of width one;
  \<^item> \<open>ToLower\<close> maps ASCII capitals, and the two other characters whose lower case is an ASCII letter
    (U+0130 and U+212A); other non-ASCII bytes stay as they are, which no test of the server on the
    result can see, since it compares with ASCII literals only.
\<close>

subsection \<open>Decimal numbers\<close>

definition digit_char :: "nat \<Rightarrow> char" where
  "digit_char d = char_of (48 + d)"

fun show_nat :: "nat \<Rightarrow> string" where
  "show_nat n = (if n < 10 then [digit_char n] else show_nat (n div 10) @ [digit_char (n mod 10)])"

declare show_nat.simps [simp del]

fun read_nat :: "nat \<Rightarrow> string \<Rightarrow> nat" where
  "read_nat acc [] = acc"
| "read_nat acc (c # cs) = read_nat (10 * acc + (of_char c - 48)) cs"

lemma of_digit_char: "d < 10 \<Longrightarrow> of_char (digit_char d) - 48 = d"
  by (simp add: digit_char_def)

lemma read_nat_append: "read_nat acc (xs @ ys) = read_nat (read_nat acc xs) ys"
  by (induction xs arbitrary: acc) auto

lemma read_show_nat: "read_nat 0 (show_nat n) = n"
proof (induction n rule: show_nat.induct)
  case (1 n)
  show ?case
  proof (cases "n < 10")
    case True
    then show ?thesis by (simp add: show_nat.simps [of n] of_digit_char)
  next
    case False
    then show ?thesis
      using 1 by (simp add: show_nat.simps [of n] read_nat_append of_digit_char)
  qed
qed

lemma show_nat_inj [simp]: "show_nat m = show_nat n \<longleftrightarrow> m = n"
  by (metis read_show_nat)

lemma show_nat_nonempty [simp]: "show_nat n \<noteq> []"
  by (subst show_nat.simps) simp

definition show_int :: "int \<Rightarrow> string" where
  "show_int i = (if i < 0 then CHR ''-'' # show_nat (nat (- i)) else show_nat (nat i))"

lemma show_int_0 [simp]: "show_int 0 = ''0''"
  by (simp add: show_int_def show_nat.simps digit_char_def char_of_def bit_0)

subsection \<open>Prefixes and cutsets\<close>

abbreviation HasPrefix :: "string \<Rightarrow> string \<Rightarrow> bool" where
  "HasPrefix s p \<equiv> prefix p s"

definition TrimPrefix :: "string \<Rightarrow> string \<Rightarrow> string" where
  "TrimPrefix s p = (if prefix p s then drop (length p) s else s)"

text \<open>\<open>strings.TrimRight(s, "/")\<close> and \<open>strings.Trim(s, "/")\<close>.\<close>

definition TrimRightSlash :: "string \<Rightarrow> string" where
  "TrimRightSlash s = rev (dropWhile (\<lambda>c. c = CHR ''/'') (rev s))"

definition TrimSlash :: "string \<Rightarrow> string" where
  "TrimSlash s = TrimRightSlash (dropWhile (\<lambda>c. c = CHR ''/'') s)"

lemma TrimPrefix_prefix [simp]: "TrimPrefix (p @ s) p = s"
  by (simp add: TrimPrefix_def)

subsection \<open>White space\<close>

text \<open>The UTF-8 encodings of U+0009-000D, 0020, 0085, 00A0, 1680, 2000-200A, 2028, 2029, 202F, 205F
  and 3000.\<close>

definition space_encodings :: "string list" where
  "space_encodings = map (map char_of)
     ([[9], [10], [11], [12], [13], [32], [194, 133], [194, 160], [225, 154, 128]] @
      map (\<lambda>k. [226, 128, k]) [128, 129, 130, 131, 132, 133, 134, 135, 136, 137, 138, 168, 169, 175] @
      [[226, 129, 159], [227, 128, 128 :: nat]])"

fun strip_encodings :: "string list \<Rightarrow> string \<Rightarrow> string option" where
  "strip_encodings [] s = None"
| "strip_encodings (e # es) s = (if prefix e s then Some (drop (length e) s) else strip_encodings es s)"

lemma strip_encodings_shorter:
  "strip_encodings es s = Some r \<Longrightarrow> [] \<notin> set es \<Longrightarrow> length r < length s"
  by (induction es) (auto simp: prefix_def split: if_splits)

lemma space_encodings_nonempty: "[] \<notin> set space_encodings"
  by (simp add: space_encodings_def)

lemma strip_space_shorter: "strip_encodings space_encodings s = Some r \<Longrightarrow> length r < length s"
  by (rule strip_encodings_shorter [OF _ space_encodings_nonempty])

lemma strip_rev_space_shorter:
  "strip_encodings (map rev space_encodings) s = Some r \<Longrightarrow> length r < length s"
  using space_encodings_nonempty
  by (elim strip_encodings_shorter) auto

function TrimLeftSpace :: "string \<Rightarrow> string" where
  "TrimLeftSpace s = (case strip_encodings space_encodings s of None \<Rightarrow> s | Some r \<Rightarrow> TrimLeftSpace r)"
  by pat_completeness auto
termination by (relation "measure length") (auto dest: strip_space_shorter)

function TrimRightRev :: "string \<Rightarrow> string" where
  "TrimRightRev s = (case strip_encodings (map rev space_encodings) s of None \<Rightarrow> s | Some r \<Rightarrow> TrimRightRev r)"
  by pat_completeness auto
termination by (relation "measure length") (auto dest: strip_rev_space_shorter)

declare TrimLeftSpace.simps [simp del] TrimRightRev.simps [simp del]

definition TrimSpace :: "string \<Rightarrow> string" where
  "TrimSpace s = rev (TrimRightRev (rev (TrimLeftSpace s)))"

lemma TrimLeftSpace_done: "strip_encodings space_encodings (TrimLeftSpace s) = None"
  by (induction s rule: TrimLeftSpace.induct) (subst TrimLeftSpace.simps, auto split: option.splits)

lemma TrimRightRev_done: "strip_encodings (map rev space_encodings) (TrimRightRev s) = None"
  by (induction s rule: TrimRightRev.induct) (subst TrimRightRev.simps, auto split: option.splits)

lemma TrimLeftSpace_idle: "strip_encodings space_encodings s = None \<Longrightarrow> TrimLeftSpace s = s"
  by (subst TrimLeftSpace.simps) simp

lemma TrimRightRev_idle: "strip_encodings (map rev space_encodings) s = None \<Longrightarrow> TrimRightRev s = s"
  by (subst TrimRightRev.simps) simp

lemma strip_encodings_None: "strip_encodings es s = None \<longleftrightarrow> (\<forall>e \<in> set es. \<not> prefix e s)"
  by (induction es) auto

lemma strip_encodings_suffix: "strip_encodings es s = Some r \<Longrightarrow> suffix r s"
  by (induction es) (auto split: if_splits simp: suffix_drop)

lemma TrimRightRev_suffix: "suffix (TrimRightRev s) s"
proof (induction s rule: TrimRightRev.induct)
  case (1 s)
  show ?case
  proof (cases "strip_encodings (map rev space_encodings) s")
    case None
    then show ?thesis by (simp add: TrimRightRev_idle)
  next
    case (Some r)
    with 1 have "suffix (TrimRightRev r) r" by simp
    moreover have "suffix r s" using Some by (rule strip_encodings_suffix)
    ultimately show ?thesis
      using Some by (simp add: TrimRightRev.simps [of s] suffix_order.order_trans)
  qed
qed

lemma TrimSpace_idem [simp]: "TrimSpace (TrimSpace s) = TrimSpace s"
proof -
  let ?l = "TrimLeftSpace s" and ?t = "TrimSpace s"
  have p: "prefix ?t ?l"
    using TrimRightRev_suffix [of "rev ?l"] by (simp add: TrimSpace_def suffix_to_prefix)
  have "strip_encodings space_encodings ?t = None"
    using TrimLeftSpace_done [of s] p unfolding strip_encodings_None by (meson prefix_order.order_trans)
  then have "TrimLeftSpace ?t = ?t" by (rule TrimLeftSpace_idle)
  moreover have "TrimRightRev (rev ?t) = rev ?t"
    by (rule TrimRightRev_idle) (simp add: TrimSpace_def TrimRightRev_done)
  ultimately show ?thesis by (metis TrimSpace_def rev_rev_ident)
qed

lemma TrimSpace_empty [simp]: "TrimSpace [] = []"
  by (simp add: TrimSpace_def TrimLeftSpace_idle TrimRightRev_idle space_encodings_def strip_encodings_None)

subsection \<open>Splitting, case and containment\<close>

text \<open>\<open>strings.Split(s, sep)\<close> for a one-byte separator.\<close>

fun Split :: "char \<Rightarrow> string \<Rightarrow> string list" where
  "Split sep [] = [[]]"
| "Split sep (c # cs) =
     (if c = sep then [] # Split sep cs
      else case Split sep cs of [] \<Rightarrow> [[c]] | p # ps \<Rightarrow> (c # p) # ps)"

lemma Split_nonempty [simp]: "Split sep s \<noteq> []"
  by (cases s) (auto split: list.splits)

lemma Split_none: "sep \<notin> set s \<Longrightarrow> Split sep s = [s]"
  by (induction s) auto

lemma Split_append: "sep \<notin> set a \<Longrightarrow> Split sep (a @ sep # b) = a # Split sep b"
  by (induction a) (auto split: list.splits)

fun ToLower :: "string \<Rightarrow> string" where
  "ToLower [] = []"
| "ToLower (c # cs) =
     (if of_char c = (196 :: nat) \<and> cs \<noteq> [] \<and> of_char (hd cs) = (176 :: nat) then CHR ''i'' # ToLower (tl cs)
      else if of_char c = (226 :: nat) \<and> 2 \<le> length cs \<and> of_char (cs ! 0) = (132 :: nat) \<and> of_char (cs ! 1) = (170 :: nat)
        then CHR ''k'' # ToLower (drop 2 cs)
      else if (65 :: nat) \<le> of_char c \<and> of_char c \<le> (90 :: nat) then char_of (of_char c + 32 :: nat) # ToLower cs
      else c # ToLower cs)"

abbreviation Contains :: "string \<Rightarrow> string \<Rightarrow> bool" where
  "Contains s sub \<equiv> sublist sub s"

subsection \<open>Runes\<close>

abbreviation cont :: "nat \<Rightarrow> nat \<Rightarrow> nat \<Rightarrow> bool" where
  "cont lo hi b \<equiv> lo \<le> b \<and> b \<le> hi"

text \<open>The width of the first rune of a non-empty string: the accept ranges of \<open>utf8.DecodeRune\<close>; an
  ill-formed sequence is one byte.\<close>

definition rune_width :: "nat list \<Rightarrow> nat" where
  "rune_width bs =
     (case bs of
        b0 # b1 # rest \<Rightarrow>
          (if cont 194 223 b0 \<and> cont 128 191 b1 then 2
           else case rest of
             [] \<Rightarrow> 1
           | b2 # rest' \<Rightarrow>
               (if b0 = 224 \<and> cont 160 191 b1 \<and> cont 128 191 b2 then 3
                else if (cont 225 236 b0 \<or> cont 238 239 b0) \<and> cont 128 191 b1 \<and> cont 128 191 b2 then 3
                else if b0 = 237 \<and> cont 128 159 b1 \<and> cont 128 191 b2 then 3
                else case rest' of
                  [] \<Rightarrow> 1
                | b3 # _ \<Rightarrow>
                    (if b0 = 240 \<and> cont 144 191 b1 \<and> cont 128 191 b2 \<and> cont 128 191 b3 then 4
                     else if cont 241 243 b0 \<and> cont 128 191 b1 \<and> cont 128 191 b2 \<and> cont 128 191 b3 then 4
                     else if b0 = 244 \<and> cont 128 143 b1 \<and> cont 128 191 b2 \<and> cont 128 191 b3 then 4
                     else 1)))
      | _ \<Rightarrow> 1)"

lemma rune_width_pos: "0 < rune_width bs"
  by (simp add: rune_width_def split: list.splits)

function rune_count_bytes :: "nat list \<Rightarrow> nat" where
  "rune_count_bytes bs = (if bs = [] then 0 else Suc (rune_count_bytes (drop (rune_width bs) bs)))"
  by pat_completeness auto
termination
proof (relation "measure length")
  fix bs :: "nat list" assume "bs \<noteq> []"
  then show "(drop (rune_width bs) bs, bs) \<in> measure length"
    using rune_width_pos [of bs] by simp
qed simp

declare rune_count_bytes.simps [simp del]

definition runeCount :: "string \<Rightarrow> nat" where
  "runeCount s = rune_count_bytes (map of_char s)"

lemma rune_count_bytes_le: "rune_count_bytes bs \<le> length bs"
proof (induction bs rule: rune_count_bytes.induct)
  case (1 bs)
  show ?case
  proof (cases "bs = []")
    case True
    then show ?thesis by (simp add: rune_count_bytes.simps)
  next
    case False
    with 1 have "rune_count_bytes (drop (rune_width bs) bs) \<le> length bs - rune_width bs" by simp
    then have "rune_count_bytes (drop (rune_width bs) bs) < length bs"
      using False rune_width_pos [of bs] by (simp add: le_less_trans)
    with False show ?thesis
      by (simp add: rune_count_bytes.simps [of bs] Suc_le_eq)
  qed
qed

lemma runeCount_le_length: "runeCount s \<le> length s"
  using rune_count_bytes_le [of "map of_char s"] by (simp add: runeCount_def)

lemma runeCount_zero_iff: "runeCount s = 0 \<longleftrightarrow> s = []"
  by (simp add: runeCount_def rune_count_bytes.simps [of "map of_char s"])

subsection \<open>Hexadecimal\<close>

definition hex_char :: "char \<Rightarrow> bool" where
  "hex_char c \<longleftrightarrow> (let n = of_char c :: nat in cont 48 57 n \<or> cont 97 102 n \<or> cont 65 70 n)"

text \<open>\<open>hex.DecodeString\<close> succeeds on an even number of hexadecimal digits.\<close>

definition isHex :: "string \<Rightarrow> bool" where
  "isHex s \<longleftrightarrow> even (length s) \<and> list_all hex_char s"

definition nibble_char :: "nat \<Rightarrow> char" where
  "nibble_char d = (if d < 10 then char_of (48 + d) else char_of (87 + d))"

definition hex_encode :: "bytes \<Rightarrow> string" where
  "hex_encode bs = concat (map (\<lambda>b. [nibble_char (unat b div 16), nibble_char (unat b mod 16)]) bs)"

lemma length_hex_encode [simp]: "length (hex_encode bs) = 2 * length bs"
  by (induction bs) (auto simp: hex_encode_def)

lemma nibble_char_hex: "d < 16 \<Longrightarrow> hex_char (nibble_char d)"
  by (simp add: nibble_char_def hex_char_def Let_def)

lemma isHex_hex_encode [simp]: "isHex (hex_encode bs)"
proof -
  have u: "unat b < 256" for b :: byte using unsigned_less [of b] by simp
  have "list_all hex_char (hex_encode bs)"
  proof (induction bs)
    case (Cons b bs)
    have "unat b div 16 < 16" "unat b mod 16 < 16" using u [of b] by simp_all
    with Cons show ?case by (simp add: hex_encode_def nibble_char_hex)
  qed (simp add: hex_encode_def)
  then show ?thesis by (simp add: isHex_def)
qed

subsection \<open>Plain text\<close>

text \<open>Printable ASCII without blanks is not trimmed.\<close>

definition plain :: "char \<Rightarrow> bool" where
  "plain c \<longleftrightarrow> (let n = of_char c :: nat in cont 33 126 n)"

lemma space_encodings_not_plain: "e \<in> set space_encodings \<Longrightarrow> e \<noteq> [] \<and> \<not> plain (hd e) \<and> \<not> plain (last e)"
  by (auto simp: space_encodings_def plain_def Let_def)

lemma TrimSpace_plain:
  assumes "list_all plain s"
  shows "TrimSpace s = s"
proof -
  have "strip_encodings space_encodings s = None"
    using assms space_encodings_not_plain
    by (auto simp: strip_encodings_None prefix_def) (metis hd_in_set list_all_iff hd_append2 in_set_conv_decomp)
  moreover have "\<not> prefix (rev e) (rev s)" if e: "e \<in> set space_encodings" for e
  proof
    assume "prefix (rev e) (rev s)"
    then obtain zs where "rev s = rev e @ zs" by (auto simp: prefix_def)
    then have "s = rev zs @ e" by (metis rev_append rev_rev_ident)
    then have "last e \<in> set s" using space_encodings_not_plain [OF e] by simp
    then show False using assms space_encodings_not_plain [OF e] by (auto simp: list_all_iff)
  qed
  then have "strip_encodings (map rev space_encodings) (rev s) = None"
    by (auto simp: strip_encodings_None)
  ultimately show ?thesis by (simp add: TrimSpace_def TrimLeftSpace_idle TrimRightRev_idle)
qed

end
