(* ===== verification/Hls_Sink.thy ===== *)
theory Hls_Sink
  imports Flv Go_Strings
begin

section \<open>The HLS segmenter\<close>

text \<open>
  \<open>internal/subscriber/hls.go\<close>: the goroutine of \<open>HLSSubscriber\<close>, which cuts the stream into
  rolling FLV segment files and rewrites the playlist. The local variables of \<open>run\<close> and the files of
  the stream's directory are the state; what the file system answers (whether a file can be created,
  how many bytes still fit, whether a removal works) and the clock are arguments. \<open>fmt3\<close> stands for
  the library's \<open>%.3f\<close> rendering of a duration.

  The abstract view of the segmenter is \<open>segment_packets\<close>: the packets cut at every tick. The main
  results: the window lists the last segments in order, every listed file is a complete FLV file
  with exactly the packets of its segment, older files are gone, and the playlist always declares
  media sequence 0.
\<close>

record segment =
  seg_filename :: string
  seg_duration :: duration

record hls =
  segmentDuration :: int
  maxSegments :: int
  fmt3 :: "duration \<Rightarrow> string"
  segs :: "segment list"
  segIdx :: nat
  segFile :: "string option"
  segStart :: time
  files :: "string \<rightharpoonup> bytes"
  playlist :: "string option"

definition new_hls :: "int \<Rightarrow> int \<Rightarrow> (duration \<Rightarrow> string) \<Rightarrow> (string \<rightharpoonup> bytes) \<Rightarrow> string option \<Rightarrow> hls" where
  "new_hls dur mx fmt d pl = \<lparr>segmentDuration = dur, maxSegments = mx, fmt3 = fmt, segs = [], segIdx = 0,
     segFile = None, segStart = 0, files = d, playlist = pl\<rparr>"

text \<open>The answer of \<open>os.Create\<close>: an error, or a file that has room for some number of bytes.\<close>

datatype create_result = CreateFails | Created nat

definition seg_name :: "nat \<Rightarrow> string" where
  "seg_name i = ''seg_'' @ show_nat i @ ''.flv''"

definition openSegment :: "create_result \<Rightarrow> time \<Rightarrow> hls \<Rightarrow> bool \<times> hls" where
  "openSegment r now s =
     (case r of
        CreateFails \<Rightarrow> (False, s)
      | Created room \<Rightarrow>
          (let name = seg_name (segIdx s);
               (ok, w, _) = WriteFileHeader limited_write ([], room);
               s1 = s\<lparr>files := (files s)(name \<mapsto> w)\<rparr> in
           if \<not> ok then (False, s1)
           else (True, s1\<lparr>segFile := Some name, segStart := now\<rparr>)))"

definition closeSegment :: "time \<Rightarrow> hls \<Rightarrow> segment \<times> hls" where
  "closeSegment now s =
     (\<lparr>seg_filename = seg_name (segIdx s), seg_duration = now - segStart s\<rparr>, s\<lparr>segFile := None\<rparr>)"

text \<open>The template \<open>playlistTmpl\<close> and \<open>writePlaylist\<close>. The file is recreated; \<open>None\<close> is a failing
  \<open>os.Create\<close>, \<open>Some n\<close> room for \<open>n\<close> bytes.\<close>

record playlistData =
  TargetDuration :: int
  MediaSeq :: int
  Segments :: "(duration \<times> string) list"

definition nl :: string where "nl = [CHR 0x0A]"

definition playlistTmpl :: "(duration \<Rightarrow> string) \<Rightarrow> playlistData \<Rightarrow> string" where
  "playlistTmpl fmt d =
     ''#EXTM3U'' @ nl @ ''#EXT-X-VERSION:3'' @ nl @
     ''#EXT-X-TARGETDURATION:'' @ show_int (TargetDuration d) @ nl @
     ''#EXT-X-MEDIA-SEQUENCE:'' @ show_int (MediaSeq d) @
     concat (map (\<lambda>(t, f). nl @ ''#EXTINF:'' @ fmt t @ '','' @ nl @ f) (Segments d)) @ nl"

definition playlist_data :: "hls \<Rightarrow> playlistData" where
  "playlist_data s = \<lparr>TargetDuration = segmentDuration s + 1, MediaSeq = 0,
     Segments = map (\<lambda>g. (seg_duration g, seg_filename g)) (segs s)\<rparr>"

definition writePlaylist :: "nat option \<Rightarrow> hls \<Rightarrow> hls" where
  "writePlaylist room s =
     (case room of
        None \<Rightarrow> s
      | Some n \<Rightarrow> s\<lparr>playlist := Some (take n (playlistTmpl (fmt3 s) (playlist_data s)))\<rparr>)"

text \<open>The cases of the goroutine's \<open>select\<close>: a packet, a tick of the segment timer, the done signal.
  \<open>hls_tick\<close> returns \<open>False\<close> where the goroutine returns.\<close>

definition hls_start :: "bool \<Rightarrow> create_result \<Rightarrow> time \<Rightarrow> hls \<Rightarrow> bool \<times> hls" where
  "hls_start mkdir_ok r now s = (if \<not> mkdir_ok then (False, s) else openSegment r now s)"

definition hls_recv :: "nat \<Rightarrow> avpacket \<Rightarrow> hls \<Rightarrow> hls" where
  "hls_recv room pkt s =
     (case segFile s of
        None \<Rightarrow> s
      | Some f \<Rightarrow>
          (case files s f of
             None \<Rightarrow> s
           | Some w \<Rightarrow> s\<lparr>files := (files s)(f \<mapsto> fst (snd (WriteTag limited_write (w, room) pkt)))\<rparr>))"

record tick_env =
  t_now :: time
  t_create :: create_result
  t_remove_ok :: bool
  t_playlist :: "nat option"

definition drop_oldest :: "bool \<Rightarrow> hls \<Rightarrow> hls" where
  "drop_oldest remove_ok s =
     (if int (length (segs s)) > maxSegments s then
        s\<lparr>files := (if remove_ok then map_delete (seg_filename (hd (segs s))) (files s) else files s),
          segs := tl (segs s)\<rparr>
      else s)"

definition hls_tick :: "tick_env \<Rightarrow> hls \<Rightarrow> bool \<times> hls" where
  "hls_tick e s =
     (let (seg, s1) = closeSegment (t_now e) s;
          s2 = drop_oldest (t_remove_ok e) (s1\<lparr>segs := segs s1 @ [seg]\<rparr>);
          (ok, s3) = openSegment (t_create e) (t_now e) (s2\<lparr>segIdx := Suc (segIdx s2)\<rparr>) in
      if \<not> ok then (False, s3) else (True, writePlaylist (t_playlist e) s3))"

definition hls_done :: "time \<Rightarrow> nat option \<Rightarrow> hls \<Rightarrow> hls" where
  "hls_done now room s =
     (let (seg, s1) = closeSegment now s in writePlaylist room (s1\<lparr>segs := segs s1 @ [seg]\<rparr>))"

text \<open>The goroutine's loop over the events it is woken by.\<close>

datatype hls_event = Recv nat avpacket | Tick tick_env

fun hls_run :: "hls_event list \<Rightarrow> hls \<Rightarrow> hls" where
  "hls_run [] s = s"
| "hls_run (Recv room p # es) s = hls_run es (hls_recv room p s)"
| "hls_run (Tick e # es) s = (let (ok, s1) = hls_tick e s in if ok then hls_run es s1 else s1)"

subsection \<open>The abstract segmentation\<close>

fun segment_packets :: "avpacket list \<Rightarrow> hls_event list \<Rightarrow> avpacket list list" where
  "segment_packets cur [] = [cur]"
| "segment_packets cur (Recv _ p # es) = segment_packets (cur @ [p]) es"
| "segment_packets cur (Tick _ # es) = cur # segment_packets [] es"

fun ticks :: "hls_event list \<Rightarrow> nat" where
  "ticks [] = 0"
| "ticks (Recv _ _ # es) = ticks es"
| "ticks (Tick _ # es) = Suc (ticks es)"

text \<open>The file system cooperates: every write fits, files can be created and removed.\<close>

fun fs_ok :: "hls_event \<Rightarrow> bool" where
  "fs_ok (Recv room p) \<longleftrightarrow> length (tag_bytes p) \<le> room"
| "fs_ok (Tick e) \<longleftrightarrow> t_remove_ok e \<and>
     (case t_create e of CreateFails \<Rightarrow> False | Created room \<Rightarrow> 13 \<le> room)"

lemma length_segment_packets: "length (segment_packets cur es) = Suc (ticks es)"
  by (induction cur es rule: segment_packets.induct) auto

lemma seg_name_inj [simp]: "seg_name i = seg_name j \<longleftrightarrow> i = j"
  by (simp add: seg_name_def)

lemma WriteTag_limited: "length (tag_bytes p) \<le> room \<Longrightarrow>
    fst (snd (WriteTag limited_write (w, room) p)) = w @ tag_bytes p"
  by (auto simp: WriteTag_def tag_bytes_def Let_def)

lemma WriteFileHeader_limited: "13 \<le> room \<Longrightarrow>
    WriteFileHeader limited_write ([], room) = (True, fileHeader, room - 13)"
  by (simp add: WriteFileHeader_def)

lemma flv_file_snoc: "flv_file (ps @ [p]) = flv_file ps @ tag_bytes p"
  by (simp add: flv_file_bytes)

lemma flv_file_Nil [simp]: "flv_file [] = fileHeader"
  by (simp add: flv_file_bytes)

text \<open>The invariant: \<open>pss\<close> are the finished segments, \<open>cur\<close> the packets of the open one.\<close>

definition window :: "hls \<Rightarrow> nat" where
  "window s = min (segIdx s) (nat (maxSegments s))"

definition hls_inv :: "avpacket list list \<Rightarrow> avpacket list \<Rightarrow> hls \<Rightarrow> bool" where
  "hls_inv pss cur s \<longleftrightarrow>
     segIdx s = length pss \<and>
     segFile s = Some (seg_name (segIdx s)) \<and>
     files s (seg_name (segIdx s)) = Some (flv_file cur) \<and>
     map seg_filename (segs s) = map seg_name [segIdx s - window s ..< segIdx s] \<and>
     (\<forall>i < segIdx s. files s (seg_name i) =
        (if segIdx s - window s \<le> i then Some (flv_file (pss ! i)) else None))"

lemma hls_inv_length: "hls_inv pss cur s \<Longrightarrow> length (segs s) = window s"
  unfolding hls_inv_def window_def
  by (metis diff_diff_cancel length_map length_upt min.cobounded1)

lemma hls_inv_start:
  assumes "hls_start True (Created room) now (new_hls dur mx fmt d pl) = (ok, s)" "13 \<le> room"
  shows "ok \<and> hls_inv [] [] s"
  using assms
  by (auto simp: hls_start_def openSegment_def new_hls_def WriteFileHeader_limited hls_inv_def window_def Let_def)

lemma hls_inv_recv:
  assumes "hls_inv pss cur s" "length (tag_bytes p) \<le> room"
  shows "hls_inv pss (cur @ [p]) (hls_recv room p s)"
  using assms by (auto simp: hls_inv_def hls_recv_def WriteTag_limited flv_file_snoc window_def)

text \<open>What the rotation does to the names of the window and to the files.\<close>

lemma drop_oldest_window:
  assumes names: "map seg_filename (segs s) = map seg_name [n - w ..< Suc n]"
    and w: "w = min n (nat (maxSegments s))" and w': "w' = min (Suc n) (nat (maxSegments s))"
  shows "map seg_filename (segs (drop_oldest True s)) = map seg_name [Suc n - w' ..< Suc n]"
    and "files (drop_oldest True s) = (if w' = Suc w then files s else map_delete (seg_name (n - w)) (files s))"
proof -
  have len: "length (segs s) = Suc w"
    using arg_cong [OF names, of length] w by simp
  then have "segs s \<noteq> []" by auto
  moreover have u: "[n - w ..< Suc n] = (n - w) # [Suc (n - w) ..< Suc n]"
    by (rule upt_conv_Cons) simp
  ultimately have hd: "seg_filename (hd (segs s)) = seg_name (n - w)"
    and tl: "map seg_filename (tl (segs s)) = map seg_name [Suc (n - w) ..< Suc n]"
    using names unfolding u by (cases "segs s"; simp del: upt_Suc)+
  have "int (Suc w) > maxSegments s \<longleftrightarrow> w' \<noteq> Suc w" and "w' \<noteq> Suc w \<Longrightarrow> w' = w" and "w \<le> n"
    using w w' by (auto simp: min_def split: if_splits)
  then show "map seg_filename (segs (drop_oldest True s)) = map seg_name [Suc n - w' ..< Suc n]"
    and "files (drop_oldest True s) = (if w' = Suc w then files s else map_delete (seg_name (n - w)) (files s))"
    using names len hd tl by (auto simp: drop_oldest_def Suc_diff_le simp del: upt_Suc)
qed

lemma drop_oldest_frame [simp]:
  "maxSegments (drop_oldest b s) = maxSegments s" "segIdx (drop_oldest b s) = segIdx s"
  "segmentDuration (drop_oldest b s) = segmentDuration s" "fmt3 (drop_oldest b s) = fmt3 s"
  by (simp_all add: drop_oldest_def)

lemma writePlaylist_frame [simp]:
  "files (writePlaylist r s) = files s" "segs (writePlaylist r s) = segs s"
  "segIdx (writePlaylist r s) = segIdx s" "segFile (writePlaylist r s) = segFile s"
  "maxSegments (writePlaylist r s) = maxSegments s"
  by (simp_all add: writePlaylist_def split: option.split)

lemma hls_inv_tick:
  assumes inv: "hls_inv pss cur s" and ok: "fs_ok (Tick e)"
  shows "\<exists>s'. hls_tick e s = (True, s') \<and> hls_inv (pss @ [cur]) [] s'"
proof -
  let ?n = "segIdx s" and ?w = "window s"
  let ?seg = "\<lparr>seg_filename = seg_name ?n, seg_duration = t_now e - segStart s\<rparr>"
  let ?s1 = "s\<lparr>segFile := None, segs := segs s @ [?seg]\<rparr>"
  let ?s2 = "(drop_oldest True ?s1)\<lparr>segIdx := Suc ?n\<rparr>"
  let ?s3 = "?s2\<lparr>files := (files ?s2)(seg_name (Suc ?n) \<mapsto> fileHeader), segFile := Some (seg_name (Suc ?n)),
       segStart := t_now e\<rparr>"
  define w' where w': "w' = min (Suc ?n) (nat (maxSegments s))"
  from ok obtain room where "t_create e = Created room" "13 \<le> room" "t_remove_ok e"
    by (auto split: create_result.splits)
  then have tick: "hls_tick e s = (True, writePlaylist (t_playlist e) ?s3)"
    by (simp add: hls_tick_def closeSegment_def openSegment_def WriteFileHeader_limited Let_def)
  have "map seg_filename (segs ?s1) = map seg_name [?n - ?w ..< Suc ?n]"
    using inv by (simp add: hls_inv_def)
  note rot = drop_oldest_window [OF this, of w', simplified]
  have win: "window (writePlaylist (t_playlist e) ?s3) = w'"
    by (simp add: window_def w')
  have "w' = Suc ?w \<or> w' = ?w" by (auto simp: w' window_def min_def)
  moreover have fin: "i < Suc ?n \<Longrightarrow> files s (seg_name i) =
      (if ?n - ?w \<le> i then Some (flv_file ((pss @ [cur]) ! i)) else None)" for i
    using inv by (cases "i = ?n") (auto simp: hls_inv_def nth_append)
  moreover have "?w \<le> ?n" by (simp add: window_def)
  ultimately have "\<forall>i < Suc ?n. files ?s3 (seg_name i) =
      (if Suc ?n - w' \<le> i then Some (flv_file ((pss @ [cur]) ! i)) else None)"
    using rot(2) by (auto simp: window_def w' map_delete_apply)
  then have "hls_inv (pss @ [cur]) [] (writePlaylist (t_playlist e) ?s3)"
    using inv rot(1) win by (simp add: hls_inv_def window_def w')
  with tick show ?thesis by blast
qed

lemma hls_inv_run:
  "hls_inv pss cur s \<Longrightarrow> list_all fs_ok es \<Longrightarrow>
   \<exists>fs last. segment_packets cur es = fs @ [last] \<and> hls_inv (pss @ fs) last (hls_run es s)"
proof (induction es arbitrary: pss cur s)
  case Nil
  then show ?case by simp
next
  case (Cons e es)
  show ?case
  proof (cases e)
    case (Recv room p)
    with Cons hls_inv_recv [OF Cons.prems(1)] show ?thesis by auto
  next
    case (Tick t)
    with Cons.prems obtain s' where s': "hls_tick t s = (True, s')" "hls_inv (pss @ [cur]) [] s'"
      using hls_inv_tick [OF Cons.prems(1), of t] by auto
    from Cons.IH [OF s'(2)] Cons.prems(2) obtain fs last where
      "segment_packets [] es = fs @ [last]" "hls_inv ((pss @ [cur]) @ fs) last (hls_run es s')"
      by auto
    then show ?thesis
      using Tick s'(1) by (intro exI [of _ "cur # fs"]) auto
  qed
qed

lemma hls_run_append:
  "hls_inv pss cur s \<Longrightarrow> list_all fs_ok es \<Longrightarrow> hls_run (es @ fs) s = hls_run fs (hls_run es s)"
proof (induction es arbitrary: pss cur s)
  case Nil
  then show ?case by simp
next
  case (Cons e es)
  show ?case
  proof (cases e)
    case (Recv room p)
    with Cons.prems Cons.IH [OF hls_inv_recv [OF Cons.prems(1)]] show ?thesis by simp
  next
    case (Tick t)
    with Cons.prems obtain s' where "hls_tick t s = (True, s')" "hls_inv (pss @ [cur]) [] s'"
      using hls_inv_tick [OF Cons.prems(1), of t] by auto
    with Tick Cons.IH Cons.prems(2) show ?thesis by auto
  qed
qed

lemma maxSegments_open: "openSegment r now s = (ok, s') \<Longrightarrow> maxSegments s' = maxSegments s"
  by (auto simp: openSegment_def Let_def split: create_result.splits prod.splits if_splits)

lemma maxSegments_recv [simp]: "maxSegments (hls_recv room p s) = maxSegments s"
  by (auto simp: hls_recv_def split: option.split)

lemma maxSegments_tick: "hls_tick e s = (ok, s') \<Longrightarrow> maxSegments s' = maxSegments s"
  by (auto simp: hls_tick_def closeSegment_def Let_def dest!: maxSegments_open split: prod.splits if_splits)

lemma maxSegments_run [simp]: "maxSegments (hls_run es s) = maxSegments s"
  by (induction es s rule: hls_run.induct)
    (auto simp: Let_def dest!: maxSegments_tick split: prod.split)

lemma hls_run_window:
  assumes start: "hls_start True (Created room) now (new_hls dur mx fmt d pl) = (ok, s0)" "13 \<le> room"
    and fs: "list_all fs_ok es"
  obtains ps cur where "segment_packets [] es = ps @ [cur]" "hls_inv ps cur (hls_run es s0)"
    "length ps = ticks es" "window (hls_run es s0) = min (ticks es) (nat mx)" "maxSegments s0 = mx"
proof -
  from hls_inv_start [OF start] have inv: "hls_inv [] [] s0" by simp
  from hls_inv_run [OF inv fs] obtain ps cur where
    1: "segment_packets [] es = ps @ [cur]" and 2: "hls_inv ps cur (hls_run es s0)" by auto
  have 3: "length ps = ticks es"
    using length_segment_packets [of "[]" es] 1 by simp
  have 5: "maxSegments s0 = mx"
    using start maxSegments_open by (fastforce simp: hls_start_def new_hls_def)
  then have 4: "window (hls_run es s0) = min (ticks es) (nat mx)"
    using 2 3 by (simp add: window_def hls_inv_def)
  from that 1 2 3 4 5 show thesis by blast
qed

subsection \<open>Properties\<close>

text \<open>Property C18: for any interleaving of packets and timer ticks on a file system with room, the
  rolling window lists the last \<open>min ticks maxSegments\<close> segments in order; every file of the window and
  the segment being written is a complete FLV file with exactly the packets received between the
  corresponding ticks; and the files of older segments have been removed.\<close>

theorem hls_window_files:
  assumes "hls_start True (Created room) now (new_hls dur mx fmt d pl) = (ok, s0)" "13 \<le> room"
    and "list_all fs_ok es"
  shows "let s = hls_run es s0; n = ticks es; w = min n (nat mx) in
     map seg_filename (segs s) = map seg_name [n - w ..< n] \<and>
     (\<forall>i \<le> n. files s (seg_name i) =
        (if n - w \<le> i then Some (flv_file (segment_packets [] es ! i)) else None))"
proof -
  from hls_run_window [OF assms] obtain ps cur where
    p: "segment_packets [] es = ps @ [cur]" "hls_inv ps cur (hls_run es s0)"
    "length ps = ticks es" "window (hls_run es s0) = min (ticks es) (nat mx)" by blast
  have "files (hls_run es s0) (seg_name i) =
      (if ticks es - min (ticks es) (nat mx) \<le> i then Some (flv_file (segment_packets [] es ! i)) else None)"
    if "i \<le> ticks es" for i
    using that p by (cases "i = ticks es") (auto simp: hls_inv_def nth_append)
  with p show ?thesis by (auto simp: hls_inv_def Let_def simp del: upt_Suc)
qed

definition sample_tick :: tick_env where
  "sample_tick = \<lparr>t_now = 0, t_create = Created 99, t_remove_ok = True, t_playlist = Some 500\<rparr>"

theorem hls_window_files_witness:
  "let s0 = snd (hls_start True (Created 99) 0 (new_hls 2 1 (\<lambda>_. ''2.000'') Map.empty None));
       es = [Recv 99 sample_packet, Tick sample_tick, Tick sample_tick] in
   map seg_filename (segs (hls_run es s0)) = [''seg_1.flv''] \<and>
   files (hls_run es s0) (seg_name 0) = None \<and> files (hls_run es s0) (seg_name 1) = Some fileHeader"
proof -
  let ?es = "[Recv 99 sample_packet, Tick sample_tick, Tick sample_tick]"
  let ?i = "new_hls 2 1 (\<lambda>_. ''2.000'') Map.empty None"
  have st: "hls_start True (Created 99) 0 ?i =
      (fst (hls_start True (Created 99) 0 ?i), snd (hls_start True (Created 99) 0 ?i))" by simp
  have ok: "list_all fs_ok ?es"
    by (simp add: sample_tick_def sample_packet_def tag_bytes_def data_def)
  have nm: "seg_name (Suc 0) = ''seg_1.flv''"
    by (simp add: seg_name_def show_nat.simps digit_char_def char_of_def bit_0)
  let ?s = "hls_run ?es (snd (hls_start True (Created 99) 0 ?i))"
  have w: "map seg_filename (segs ?s) = [seg_name 1]" and
    f: "\<forall>i \<le> 2. files ?s (seg_name i) = (if 1 \<le> i then Some (flv_file (segment_packets [] ?es ! i)) else None)"
    using hls_window_files [OF st _ ok] by (simp_all add: Let_def numeral_2_eq_2 del: hls_run.simps)
  from spec [OF f, of 0] spec [OF f, of 1] w nm show ?thesis
    by (simp add: Let_def del: hls_run.simps)
qed

text \<open>Once more segments have been cut than the window holds, the playlist written at a
  tick starts with a segment other than the first one and still declares media sequence number 0.\<close>

theorem hls_media_sequence_stuck:
  assumes "hls_start True (Created room) now (new_hls dur mx fmt d pl) = (ok, s0)" "13 \<le> room"
    and "list_all fs_ok (es @ [Tick e])" "t_playlist e = Some n"
    and "0 < mx" "mx \<le> int (ticks es)"
    and "s = hls_run (es @ [Tick e]) s0"
  shows "\<exists>t rest. playlist s = Some (take n (''#EXTM3U'' @ nl @ ''#EXT-X-VERSION:3'' @ nl @
       ''#EXT-X-TARGETDURATION:'' @ show_int (segmentDuration s + 1) @ nl @ ''#EXT-X-MEDIA-SEQUENCE:0'' @ nl @
       ''#EXTINF:'' @ fmt3 s t @ '','' @ nl @ seg_name (Suc (ticks es) - nat mx) @ rest))"
proof -
  from assms have fs: "list_all fs_ok es" and fe: "fs_ok (Tick e)" by auto
  from hls_run_window [OF assms(1,2) fs] obtain ps cur where
    p: "hls_inv ps cur (hls_run es s0)" "length ps = ticks es"
    "window (hls_run es s0) = min (ticks es) (nat mx)" "maxSegments s0 = mx" .
  from hls_inv_start [OF assms(1,2)] have inv0: "hls_inv [] [] s0" by simp
  from hls_inv_tick [OF p(1) fe] obtain s' where
    t: "hls_tick e (hls_run es s0) = (True, s')" "hls_inv (ps @ [cur]) [] s'" by blast
  have s: "s = s'"
    using assms(7) hls_run_append [OF inv0 fs, of "[Tick e]"] t(1) by simp
  obtain u where "s' = writePlaylist (t_playlist e) u"
    using t(1) by (auto simp: hls_tick_def Let_def split: prod.splits if_splits)
  then have pl: "playlist s = Some (take n (playlistTmpl (fmt3 s) (playlist_data s)))"
    using assms(4) s by (auto simp: writePlaylist_def playlist_data_def)
  have "maxSegments s = maxSegments (hls_run es s0)"
    using t(1) s by (simp add: maxSegments_tick)
  then have "window s = nat mx"
    using t(2) p assms(5,6) s by (auto simp: window_def hls_inv_def min_def split: if_splits)
  then have names: "map seg_filename (segs s) = map seg_name [Suc (ticks es) - nat mx ..< Suc (ticks es)]"
    using t(2) p(2) s by (simp add: hls_inv_def del: upt_Suc)
  moreover have "[Suc (ticks es) - nat mx ..< Suc (ticks es)] \<noteq> []"
    using assms(5) by simp
  ultimately obtain g gs where g: "segs s = g # gs" "seg_filename g = seg_name (Suc (ticks es) - nat mx)"
    using assms(5) by (cases "segs s") (auto simp: upt_conv_Cons simp del: upt_Suc)
  let ?ext = "\<lambda>g. nl @ ''#EXTINF:'' @ fmt3 s (seg_duration g) @ '','' @ nl @ seg_filename g"
  have tmpl: "playlistTmpl (fmt3 s) (playlist_data s) = ''#EXTM3U'' @ nl @ ''#EXT-X-VERSION:3'' @ nl @
       ''#EXT-X-TARGETDURATION:'' @ show_int (segmentDuration s + 1) @ nl @ ''#EXT-X-MEDIA-SEQUENCE:0'' @ nl @
       ''#EXTINF:'' @ fmt3 s (seg_duration g) @ '','' @ nl @ seg_name (Suc (ticks es) - nat mx) @
       concat (map ?ext gs) @ nl"
    by (simp add: playlistTmpl_def playlist_data_def g comp_def)
  show ?thesis unfolding pl tmpl by (intro exI) (rule refl)
qed

theorem hls_media_sequence_stuck_witness:
  "let s = hls_run [Tick sample_tick, Tick sample_tick]
     (snd (hls_start True (Created 99) 0 (new_hls 2 1 (\<lambda>_. ''2.000'') Map.empty None))) in
   \<exists>t rest. playlist s = Some (take 500 (''#EXTM3U'' @ nl @ ''#EXT-X-VERSION:3'' @ nl @
       ''#EXT-X-TARGETDURATION:'' @ show_int (segmentDuration s + 1) @ nl @ ''#EXT-X-MEDIA-SEQUENCE:0'' @ nl @
       ''#EXTINF:'' @ fmt3 s t @ '','' @ nl @ ''seg_1.flv'' @ rest))"
proof -
  let ?i = "new_hls 2 1 (\<lambda>_. ''2.000'') Map.empty None"
  let ?st = "snd (hls_start True (Created 99) 0 ?i)"
  let ?s = "hls_run ([Tick sample_tick] @ [Tick sample_tick]) ?st"
  have st: "hls_start True (Created 99) 0 ?i = (fst (hls_start True (Created 99) 0 ?i), ?st)" by simp
  have ok: "list_all fs_ok ([Tick sample_tick] @ [Tick sample_tick])"
    by (simp add: sample_tick_def)
  have nm: "seg_name (Suc 0) = ''seg_1.flv''"
    by (simp add: seg_name_def show_nat.simps digit_char_def char_of_def bit_0)
  have p: "t_playlist sample_tick = Some 500" by (simp add: sample_tick_def)
  from hls_media_sequence_stuck [OF st _ ok p _ _ refl] nm show ?thesis
    unfolding Let_def by (simp del: hls_run.simps take_append take_Cons_numeral)
qed

end
