(* ===== verification/Minio_Sink.thy ===== *)
theory Minio_Sink
  imports Flv Go_Strings "HOL-Library.Multiset" "HOL-Library.List_Lexorder" "HOL-Library.Char_ord"
begin

section \<open>The MinIO recorder\<close>

text \<open>
  \<open>internal/subscriber/minio.go\<close>, the goroutine of \<open>MinIOSubscriber\<close>, and the parts of
  \<open>internal/minio/client.go\<close> it and the recordings API use. The segment being collected, the uploads in
  flight (one goroutine each) and the accepted \<open>PutObject\<close> calls are the state. Whether the object
  store accepts an upload and the instant at which an upload starts are arguments; uploads in flight
  finish in any order.

  The main results: no packet is lost or duplicated between the buffer, the uploads in flight and the
  bucket, and the upload counters agree with the accepted uploads; but two uploads that start in the
  same millisecond share one object key, and the second replaces the first.
\<close>

record minio =
  m_streamKey :: string
  m_buf :: bytes
  m_pending :: "bytes list"
  m_puts :: "(string \<times> bytes) list"
  uploadCount :: int
  uploadBytes :: int

text \<open>What the bucket holds: the last accepted object of each key.\<close>

definition bucket :: "minio \<Rightarrow> string \<rightharpoonup> bytes" where
  "bucket s = map_of (rev (m_puts s))"

definition newBuffer :: bytes where
  "newBuffer = snd (WriteFileHeader buffer_write [])"

definition new_minio :: "string \<Rightarrow> minio" where
  "new_minio key = \<lparr>m_streamKey = key, m_buf = newBuffer, m_pending = [], m_puts = [],
     uploadCount = 0, uploadBytes = 0\<rparr>"

text \<open>\<open>Client.UploadSegment\<close>: the key carries the Unix time in milliseconds.\<close>

definition object_key :: "string \<Rightarrow> time \<Rightarrow> string" where
  "object_key key now = ''recordings/'' @ key @ ''/'' @ show_int (now div millisecond) @ ''.flv''"

definition UploadSegment ::
  "bool \<Rightarrow> time \<Rightarrow> string \<Rightarrow> bytes \<Rightarrow> (string \<times> bytes) list \<Rightarrow> bool \<times> (string \<times> bytes) list" where
  "UploadSegment ok now key d puts = (if ok then (True, puts @ [(object_key key now, d)]) else (False, puts))"

definition upload :: "bool \<Rightarrow> time \<Rightarrow> bytes \<Rightarrow> minio \<Rightarrow> minio" where
  "upload ok now d s =
     (let (stored, puts) = UploadSegment ok now (m_streamKey s) d (m_puts s) in
      if \<not> stored then s
      else s\<lparr>m_puts := puts, uploadCount := uploadCount s + 1, uploadBytes := uploadBytes s + int (length d)\<rparr>)"

text \<open>The cases of the goroutine's \<open>select\<close>, and the completion of one upload goroutine.\<close>

definition minio_recv :: "avpacket \<Rightarrow> minio \<Rightarrow> minio" where
  "minio_recv pkt s = s\<lparr>m_buf := snd (WriteTag buffer_write (m_buf s) pkt)\<rparr>"

definition minio_tick :: "minio \<Rightarrow> minio" where
  "minio_tick s =
     (let s1 = (if length (m_buf s) > 0 then s\<lparr>m_pending := m_pending s @ [m_buf s]\<rparr> else s) in
      s1\<lparr>m_buf := newBuffer\<rparr>)"

definition minio_done :: "bool \<Rightarrow> time \<Rightarrow> minio \<Rightarrow> minio" where
  "minio_done ok now s = (if length (m_buf s) > 0 then upload ok now (m_buf s) s else s)"

definition minio_uploaded :: "nat \<Rightarrow> bool \<Rightarrow> time \<Rightarrow> minio \<Rightarrow> minio" where
  "minio_uploaded i ok now s =
     (if i < length (m_pending s)
      then upload ok now (m_pending s ! i) (s\<lparr>m_pending := take i (m_pending s) @ drop (Suc i) (m_pending s)\<rparr>)
      else s)"

datatype minio_event = MRecv avpacket | MTick | MUploaded nat bool time

fun minio_step :: "minio_event \<Rightarrow> minio \<Rightarrow> minio" where
  "minio_step (MRecv p) s = minio_recv p s"
| "minio_step MTick s = minio_tick s"
| "minio_step (MUploaded i ok now) s = minio_uploaded i ok now s"

text \<open>\<open>Client.AllStreamKeys\<close> on the object keys of a listing; the set is sorted.\<close>

definition stream_key_of :: "string \<Rightarrow> string option" where
  "stream_key_of k =
     (let parts = Split CHR ''/'' (TrimPrefix k ''recordings/'') in
      if length parts \<ge> 2 \<and> parts ! 0 \<noteq> '''' then Some (parts ! 0) else None)"

definition AllStreamKeys :: "string list \<Rightarrow> string list" where
  "AllStreamKeys objs = sort (remdups (List.map_filter stream_key_of objs))"

subsection \<open>The abstract recording\<close>

fun recorded :: "avpacket list \<Rightarrow> minio_event list \<Rightarrow> avpacket list list" where
  "recorded cur [] = [cur]"
| "recorded cur (MRecv p # es) = recorded (cur @ [p]) es"
| "recorded cur (MTick # es) = cur # recorded [] es"
| "recorded cur (MUploaded _ _ _ # es) = recorded cur es"

fun accepted :: "minio_event \<Rightarrow> bool" where
  "accepted (MUploaded _ ok _) \<longleftrightarrow> ok"
| "accepted _ \<longleftrightarrow> True"

definition stored_segments :: "minio \<Rightarrow> bytes multiset" where
  "stored_segments s = mset (map snd (m_puts s)) + mset (m_pending s)"

definition counters_ok :: "minio \<Rightarrow> bool" where
  "counters_ok s \<longleftrightarrow> uploadCount s = int (length (m_puts s)) \<and>
     uploadBytes s = (\<Sum>kd\<leftarrow>m_puts s. int (length (snd kd)))"

lemma newBuffer_flv: "newBuffer = flv_file []"
  by (simp add: newBuffer_def flv_file_bytes)

lemma flv_file_nonempty: "flv_file ps \<noteq> []"
  by (simp add: flv_file_bytes fileHeader_def)

lemma mset_take_drop: "i < length xs \<Longrightarrow> mset (take i xs @ drop (Suc i) xs) + {#xs ! i#} = mset xs"
  by (metis add_mset_add_single id_take_nth_drop mset.simps(2) mset_append union_mset_add_mset_right)

lemma counters_upload: "counters_ok s \<Longrightarrow> counters_ok (upload ok now d s)"
  by (simp add: counters_ok_def upload_def UploadSegment_def)

lemma counters_step: "counters_ok s \<Longrightarrow> counters_ok (minio_step e s)"
proof (cases e)
  case (MUploaded i ok now)
  assume "counters_ok s"
  then have "counters_ok (s\<lparr>m_pending := take i (m_pending s) @ drop (Suc i) (m_pending s)\<rparr>)"
    by (simp add: counters_ok_def)
  with MUploaded \<open>counters_ok s\<close> show ?thesis
    by (simp add: minio_uploaded_def counters_upload)
qed (simp_all add: counters_ok_def minio_recv_def minio_tick_def Let_def)

lemma counters_run: "counters_ok s \<Longrightarrow> counters_ok (fold minio_step es s)"
  by (induction es arbitrary: s) (auto simp: counters_step)

lemma stored_uploaded: "stored_segments (minio_uploaded i True now s) = stored_segments s"
  using mset_take_drop [of i "m_pending s"]
  by (auto simp: stored_segments_def minio_uploaded_def upload_def UploadSegment_def union_assoc)

lemma buf_uploaded [simp]: "m_buf (minio_uploaded i ok now s) = m_buf s"
  by (simp add: minio_uploaded_def upload_def UploadSegment_def)

lemma no_loss_run:
  assumes "m_buf s = flv_file cur" "list_all accepted es"
  shows "stored_segments (fold minio_step es s) + {#m_buf (fold minio_step es s)#} =
    stored_segments s + mset (map flv_file (recorded cur es))"
  using assms
proof (induction es arbitrary: s cur)
  case Nil
  then show ?case by simp
next
  case (Cons e es)
  show ?case
  proof (cases e)
    case (MRecv p)
    have "m_buf (minio_recv p s) = flv_file (cur @ [p])"
      using Cons.prems by (simp add: minio_recv_def flv_file_bytes)
    from Cons.IH [OF this] Cons.prems MRecv show ?thesis
      by (simp add: minio_recv_def stored_segments_def)
  next
    case MTick
    have "m_buf (minio_tick s) = flv_file []"
      by (simp add: minio_tick_def newBuffer_flv Let_def)
    from Cons.IH [OF this] Cons.prems MTick show ?thesis
      by (simp add: minio_tick_def stored_segments_def Let_def flv_file_nonempty)
  next
    case (MUploaded i ok now)
    then have "m_buf (minio_uploaded i ok now s) = flv_file cur" using Cons.prems by simp
    from Cons.IH [OF this] Cons.prems MUploaded show ?thesis
      by (simp add: stored_uploaded)
  qed
qed

subsection \<open>Properties\<close>

text \<open>Property C19: as long as the object store accepts the uploads, the accepted objects, the uploads in
  flight and the segment being collected are together exactly the FLV files of the recorded segments
  (the packets cut at every tick): nothing is lost, duplicated or split differently, in whatever order
  the uploads complete. The counters always count the accepted uploads and their bytes.\<close>

theorem minio_no_loss:
  assumes "list_all accepted es"
  shows "let s = fold minio_step es (new_minio key) in
     mset (map snd (m_puts s)) + mset (m_pending s) + {#m_buf s#} = mset (map flv_file (recorded [] es)) \<and>
     uploadCount s = int (length (m_puts s)) \<and> uploadBytes s = (\<Sum>kd\<leftarrow>m_puts s. int (length (snd kd)))"
proof -
  have "m_buf (new_minio key) = flv_file []" "stored_segments (new_minio key) = {#}"
    "counters_ok (new_minio key)"
    by (simp_all add: new_minio_def newBuffer_flv stored_segments_def counters_ok_def)
  with no_loss_run [OF this(1) assms] counters_run [OF this(3), of es] show ?thesis
    by (simp add: Let_def stored_segments_def counters_ok_def)
qed

theorem minio_no_loss_witness:
  "let s = fold minio_step [MRecv sample_packet, MTick, MUploaded 0 True 5, MRecv sample_packet] (new_minio ''cam'') in
   mset (map snd (m_puts s)) + mset (m_pending s) + {#m_buf s#} =
     mset [flv_file [sample_packet], flv_file [sample_packet]] \<and> uploadCount s = int (length (m_puts s))"
  using minio_no_loss [of "[MRecv sample_packet, MTick, MUploaded 0 True 5, MRecv sample_packet]" "''cam''"]
  by (simp add: Let_def)

text \<open>If the last full segment and the final partial one are uploaded within one
  millisecond, both uploads succeed and are counted, but they use one object key and the bucket keeps
  only one of them.\<close>

theorem minio_same_millisecond:
  assumes "t div millisecond = t' div millisecond"
  shows "let s = minio_done True t' (minio_uploaded 0 True t (minio_tick (new_minio key))) in
     uploadCount s = 2 \<and> card (dom (bucket s)) = 1"
  using assms
  by (simp add: Let_def minio_done_def minio_uploaded_def minio_tick_def new_minio_def upload_def
      UploadSegment_def newBuffer_flv flv_file_nonempty bucket_def object_key_def)

theorem minio_same_millisecond_witness:
  "let s = minio_done True 9 (minio_uploaded 0 True 5 (minio_tick (new_minio ''cam''))) in
     uploadCount s = 2 \<and> card (dom (bucket s)) = 1"
  by (rule minio_same_millisecond) simp

text \<open>A recording of the stream \<open>cam/profile\<close>, the form of every key the engine makes, is
  listed by \<open>AllStreamKeys\<close> under \<open>cam\<close> alone, so the listed key is not the stream's key.\<close>

theorem AllStreamKeys_truncates:
  assumes "CHR ''/'' \<notin> set cam" "CHR ''/'' \<notin> set profile" "cam \<noteq> ''''"
  shows "AllStreamKeys [object_key (cam @ ''/'' @ profile) now] = [cam]"
proof -
  have "Split CHR ''/'' (cam @ CHR ''/'' # rest) = cam # Split CHR ''/'' rest" for rest
    using Split_append [of "CHR ''/''" cam rest] assms(1) by simp
  then have "stream_key_of (object_key (cam @ ''/'' @ profile) now) = Some cam"
    using assms by (simp add: stream_key_of_def object_key_def TrimPrefix_def Split_append)
  then show ?thesis by (simp add: AllStreamKeys_def List.map_filter_def)
qed

theorem AllStreamKeys_truncates_witness:
  "AllStreamKeys [object_key (''cam1'' @ ''/'' @ ''main'') 7] = [''cam1'']"
  by (rule AllStreamKeys_truncates) simp_all

end
