(* ===== verification/Subscribers.thy ===== *)
theory Subscribers
  imports Hls_Sink Minio_Sink
begin

section \<open>Subscribers\<close>

text \<open>
  \<open>internal/subscriber/*.go\<close> and the \<open>Subscriber\<close> interface of \<open>internal/stream/types.go\<close>.

  Storage, HLS, MinIO and relay subscribers share one shape: a bounded channel that \<open>Deliver\<close> fills
  without blocking and a goroutine that writes the packets to a sink. \<open>chan_sub\<close> is that shape and
  \<open>sink\<close> the part that differs; the goroutine's progress is \<open>run_step\<close>, one \<open>select\<close> case at a time.
  The livestream subscriber calls the viewer synchronously and keeps a GOP cache.

  The locale \<open>packet_consumer\<close> states what the pump relies on: \<open>Deliver\<close> takes over exactly one reference and
  \<open>Close\<close> keeps the accounts. It is interpreted for both kinds and for the dispatching type.
\<close>

datatype sub_type = TypeLivestream | TypeStorage | TypeMinIO | TypeHLS | TypeRelay

fun type_string :: "sub_type \<Rightarrow> string" where
  "type_string TypeLivestream = ''livestream''"
| "type_string TypeStorage = ''storage''"
| "type_string TypeMinIO = ''minio''"
| "type_string TypeHLS = ''hls''"
| "type_string TypeRelay = ''relay''"

subsection \<open>Channel subscribers\<close>

datatype sink = Storage bytes | HLS hls | MinIO minio | Relay bytes

text \<open>Where the goroutine is: before its set-up, in the select loop, in the deferred drain loop, gone.\<close>

datatype phase = Starting | Running | Draining | Exited

record chan_sub =
  c_id :: string
  c_cap :: nat
  c_ch :: "addr list"
  c_dropped :: nat
  c_done :: bool
  c_phase :: phase
  c_sink :: sink

definition storageBufSize :: nat where "storageBufSize = 512"
definition hlsBufSize :: nat where "hlsBufSize = 256"
definition minioBufSize :: nat where "minioBufSize = 512"
definition relayBufSize :: nat where "relayBufSize = 128"

definition new_chan_sub :: "string \<Rightarrow> nat \<Rightarrow> sink \<Rightarrow> chan_sub" where
  "new_chan_sub i cap k = \<lparr>c_id = i, c_cap = cap, c_ch = [], c_dropped = 0, c_done = False,
     c_phase = Starting, c_sink = k\<rparr>"

definition NewStorageSubscriber :: "string \<Rightarrow> chan_sub" where
  "NewStorageSubscriber key = new_chan_sub (''storage-'' @ key) storageBufSize (Storage [])"

definition NewHLSSubscriber :: "string \<Rightarrow> hls \<Rightarrow> chan_sub" where
  "NewHLSSubscriber key st = new_chan_sub (''hls-'' @ key) hlsBufSize (HLS st)"

definition NewMinIOSubscriber :: "string \<Rightarrow> chan_sub" where
  "NewMinIOSubscriber key = new_chan_sub (''minio-'' @ key) minioBufSize (MinIO (new_minio key))"

definition NewRelaySubscriber :: "string \<Rightarrow> bytes \<Rightarrow> chan_sub" where
  "NewRelaySubscriber key w = new_chan_sub (''relay-'' @ key) relayBufSize (Relay w)"

fun sink_type :: "sink \<Rightarrow> sub_type" where
  "sink_type (Storage _) = TypeStorage"
| "sink_type (HLS _) = TypeHLS"
| "sink_type (MinIO _) = TypeMinIO"
| "sink_type (Relay _) = TypeRelay"

text \<open>\<open>Deliver\<close> and \<open>Close\<close>, identical in the four files.\<close>

definition chan_deliver :: "addr \<Rightarrow> chan_sub \<Rightarrow> packet_heap \<Rightarrow> chan_sub \<times> packet_heap" where
  "chan_deliver p s h =
     (if length (c_ch s) < c_cap s then (s\<lparr>c_ch := c_ch s @ [p]\<rparr>, h)
      else (s\<lparr>c_dropped := c_dropped s + 1\<rparr>, Release p h))"

definition chan_close :: "chan_sub \<Rightarrow> packet_heap \<Rightarrow> chan_sub \<times> packet_heap" where
  "chan_close s h = (if c_done s then (s, h) else (s\<lparr>c_done := True\<rparr>, h))"

text \<open>The set-up part of \<open>run\<close>, with what the file system answers.\<close>

record start_env =
  s_mkdir_ok :: bool
  s_create :: create_result
  s_now :: time

fun sink_start :: "start_env \<Rightarrow> sink \<Rightarrow> bool \<times> sink" where
  "sink_start e (Storage d) =
     (if \<not> s_mkdir_ok e then (False, Storage d) else
      case s_create e of
        CreateFails \<Rightarrow> (False, Storage d)
      | Created room \<Rightarrow>
          (let (ok, w, _) = WriteFileHeader limited_write ([], room) in (ok, Storage w)))"
| "sink_start e (HLS st) = (let (ok, st') = hls_start (s_mkdir_ok e) (s_create e) (s_now e) st in (ok, HLS st'))"
| "sink_start e (MinIO m) = (True, MinIO (m\<lparr>m_buf := newBuffer\<rparr>))"
| "sink_start e (Relay w) = (True, Relay w)"

text \<open>Writing one packet; \<open>False\<close> where the goroutine returns, which only the relay does.\<close>

fun sink_recv :: "nat \<Rightarrow> avpacket \<Rightarrow> sink \<Rightarrow> bool \<times> sink" where
  "sink_recv room pkt (Storage w) = (True, Storage (fst (snd (WriteTag limited_write (w, room) pkt))))"
| "sink_recv room pkt (HLS st) = (True, HLS (hls_recv room pkt st))"
| "sink_recv room pkt (MinIO m) = (True, MinIO (minio_recv pkt m))"
| "sink_recv room pkt (Relay w) = (let (ok, w', _) = WriteTag limited_write (w, room) pkt in (ok, Relay w'))"

text \<open>Only the HLS and MinIO loops have a ticker.\<close>

fun sink_tick :: "tick_env \<Rightarrow> sink \<Rightarrow> (bool \<times> sink) option" where
  "sink_tick e (HLS st) = (let (ok, st') = hls_tick e st in Some (ok, HLS st'))"
| "sink_tick e (MinIO m) = Some (True, MinIO (minio_tick m))"
| "sink_tick e _ = None"

fun sink_done :: "time \<Rightarrow> nat option \<Rightarrow> bool \<Rightarrow> sink \<Rightarrow> sink" where
  "sink_done now room ok (HLS st) = HLS (hls_done now room st)"
| "sink_done now room ok (MinIO m) = MinIO (minio_done ok now m)"
| "sink_done now room ok k = k"

datatype run_event =
  RStart start_env | RRecv nat | RTick tick_env | RDone time "nat option" bool | RDrain
| RUploaded nat bool time

definition phase_after :: "bool \<Rightarrow> phase" where
  "phase_after ok = (if ok then Running else Draining)"

text \<open>One step of the goroutine \<open>run\<close> (or of an upload goroutine); \<open>None\<close> if it cannot take it.\<close>

fun run_step :: "run_event \<Rightarrow> chan_sub \<Rightarrow> packet_heap \<Rightarrow> (chan_sub \<times> packet_heap) option" where
  "run_step (RStart e) s h =
     (if c_phase s = Starting then
        let (ok, k) = sink_start e (c_sink s) in Some (s\<lparr>c_sink := k, c_phase := phase_after ok\<rparr>, h)
      else None)"
| "run_step (RRecv room) s h =
     (case c_ch s of
        p # ps \<Rightarrow>
          if c_phase s = Running then
            let (ok, k) = sink_recv room (cells h p) (c_sink s) in
            Some (s\<lparr>c_ch := ps, c_sink := k, c_phase := phase_after ok\<rparr>, Release p h)
          else None
      | [] \<Rightarrow> None)"
| "run_step (RTick e) s h =
     (if c_phase s = Running then
        case sink_tick e (c_sink s) of
          None \<Rightarrow> None
        | Some (ok, k) \<Rightarrow> Some (s\<lparr>c_sink := k, c_phase := phase_after ok\<rparr>, h)
      else None)"
| "run_step (RDone now room ok) s h =
     (if c_phase s = Running \<and> c_done s then
        Some (s\<lparr>c_sink := sink_done now room ok (c_sink s), c_phase := Draining\<rparr>, h)
      else None)"
| "run_step RDrain s h =
     (if c_phase s = Draining then
        case c_ch s of
          p # ps \<Rightarrow> Some (s\<lparr>c_ch := ps\<rparr>, Release p h)
        | [] \<Rightarrow> Some (s\<lparr>c_phase := Exited\<rparr>, h)
      else None)"
| "run_step (RUploaded i ok now) s h =
     (case c_sink s of
        MinIO m \<Rightarrow> if i < length (m_pending m) then Some (s\<lparr>c_sink := MinIO (minio_uploaded i ok now m)\<rparr>, h) else None
      | _ \<Rightarrow> None)"

subsection \<open>Livestream subscriber\<close>

text \<open>\<open>l_sent\<close> records what the viewer callback \<open>onPkt\<close> was given; whether a call succeeds is an argument.\<close>

definition gopCacheMax :: nat where "gopCacheMax = 256"

record live_sub =
  l_id :: string
  l_dropped :: nat
  gopCache :: "addr list"
  l_sent :: "avpacket list"

definition NewLivestreamSubscriber :: "string \<Rightarrow> live_sub" where
  "NewLivestreamSubscriber i = \<lparr>l_id = ''live-'' @ i, l_dropped = 0, gopCache = [], l_sent = []\<rparr>"

definition starts_gop :: "avpacket \<Rightarrow> bool" where
  "starts_gop c \<longleftrightarrow> ptype c = PacketVideo \<and> is_keyframe c"

definition updateGOP :: "addr \<Rightarrow> live_sub \<Rightarrow> packet_heap \<Rightarrow> live_sub \<times> packet_heap" where
  "updateGOP p s h =
     (let (g1, h1) = (if starts_gop (cells h p) then ([], Release_all (gopCache s) h) else (gopCache s, h));
          h2 = Retain p h1;
          g2 = g1 @ [p];
          cut = length g2 - gopCacheMax in
      (s\<lparr>gopCache := drop cut g2\<rparr>, Release_all (take cut g2) h2))"

definition live_deliver :: "bool \<Rightarrow> addr \<Rightarrow> live_sub \<Rightarrow> packet_heap \<Rightarrow> live_sub \<times> packet_heap" where
  "live_deliver ok p s h =
     (let (s1, h1) = updateGOP p s h;
          s2 = s1\<lparr>l_sent := l_sent s1 @ [cells h1 p]\<rparr>;
          s3 = (if \<not> ok then s2\<lparr>l_dropped := l_dropped s2 + 1\<rparr> else s2) in
      (s3, Release p h1))"

definition live_close :: "live_sub \<Rightarrow> packet_heap \<Rightarrow> live_sub \<times> packet_heap" where
  "live_close s h = (s\<lparr>gopCache := []\<rparr>, Release_all (gopCache s) h)"

text \<open>\<open>SendGOP\<close>: a snapshot of the cache under the lock, then the sends without it, up to the first
  error. The snapshot does not retain the packets.\<close>

definition gop_snapshot :: "live_sub \<Rightarrow> addr list" where
  "gop_snapshot s = gopCache s"

fun send_gop :: "(addr \<Rightarrow> bool) \<Rightarrow> addr list \<Rightarrow> packet_heap \<Rightarrow> live_sub \<Rightarrow> live_sub" where
  "send_gop ok [] h s = s"
| "send_gop ok (p # ps) h s =
     (let s1 = s\<lparr>l_sent := l_sent s @ [cells h p]\<rparr> in if \<not> ok p then s1 else send_gop ok ps h s1)"

definition SendGOP :: "(addr \<Rightarrow> bool) \<Rightarrow> packet_heap \<Rightarrow> live_sub \<Rightarrow> live_sub" where
  "SendGOP ok h s = send_gop ok (gop_snapshot s) h s"

subsection \<open>The interface\<close>

datatype subscriber = Chan chan_sub | Live live_sub

fun ID :: "subscriber \<Rightarrow> string" where
  "ID (Chan s) = c_id s"
| "ID (Live s) = l_id s"

fun Type :: "subscriber \<Rightarrow> sub_type" where
  "Type (Chan s) = sink_type (c_sink s)"
| "Type (Live s) = TypeLivestream"

fun DroppedPackets :: "subscriber \<Rightarrow> nat" where
  "DroppedPackets (Chan s) = c_dropped s"
| "DroppedPackets (Live s) = l_dropped s"

fun Deliver :: "bool \<Rightarrow> addr \<Rightarrow> subscriber \<Rightarrow> packet_heap \<Rightarrow> subscriber \<times> packet_heap" where
  "Deliver ok p (Chan s) h = map_prod Chan id (chan_deliver p s h)"
| "Deliver ok p (Live s) h = map_prod Live id (live_deliver ok p s h)"

fun Close :: "subscriber \<Rightarrow> packet_heap \<Rightarrow> subscriber \<times> packet_heap" where
  "Close (Chan s) h = map_prod Chan id (chan_close s h)"
| "Close (Live s) h = map_prod Live id (live_close s h)"

text \<open>The references a subscriber holds: its channel, or its GOP cache.\<close>

fun held_list :: "subscriber \<Rightarrow> addr list" where
  "held_list (Chan s) = c_ch s"
| "held_list (Live s) = gopCache s"

abbreviation held :: "subscriber \<Rightarrow> addr \<Rightarrow> nat" where
  "held s q \<equiv> count_list (held_list s) q"

text \<open>\<open>Factory.PublishSubscribers\<close> and \<open>RelaySubscribers\<close>; \<open>minio\<close> tells whether the factory has a MinIO
  client, \<open>st\<close> is the HLS state made from the configuration.\<close>

definition PublishSubscribers :: "bool \<Rightarrow> string \<Rightarrow> hls \<Rightarrow> subscriber list" where
  "PublishSubscribers minio key st =
     [Chan (NewStorageSubscriber key), Chan (NewHLSSubscriber key st)] @
     (if minio then [Chan (NewMinIOSubscriber key)] else [])"

definition RelaySubscribers :: "string \<Rightarrow> hls \<Rightarrow> subscriber list" where
  "RelaySubscribers key st = [Chan (NewStorageSubscriber key), Chan (NewHLSSubscriber key st)]"

subsection \<open>The contract the pump relies on\<close>

definition one :: "addr \<Rightarrow> addr \<Rightarrow> nat" where
  "one p q = (if q = p then 1 else 0)"

text \<open>The pump's loop over the subscribers, for any implementation of \<open>Deliver\<close>.\<close>

fun fan_out :: "(addr \<Rightarrow> 's \<Rightarrow> packet_heap \<Rightarrow> 's \<times> packet_heap) \<Rightarrow> addr \<Rightarrow> 's list \<Rightarrow> packet_heap \<Rightarrow>
  's list \<times> packet_heap" where
  "fan_out dlv p [] h = ([], h)"
| "fan_out dlv p (s # ss) h =
     (let (s', h1) = dlv p s (Retain p h); (ss', h2) = fan_out dlv p ss h1 in (s' # ss', h2))"

locale packet_consumer =
  fixes dlv :: "bool \<Rightarrow> addr \<Rightarrow> 's \<Rightarrow> packet_heap \<Rightarrow> 's \<times> packet_heap"
    and cls :: "'s \<Rightarrow> packet_heap \<Rightarrow> 's \<times> packet_heap"
    and hold :: "'s \<Rightarrow> addr \<Rightarrow> nat"
  assumes deliver_accounts:
      "accounts h (\<lambda>q. hold s q + one p q + r q) \<Longrightarrow> dlv ok p s h = (s', h') \<Longrightarrow>
       accounts h' (\<lambda>q. hold s' q + r q)"
    and close_accounts:
      "accounts h (\<lambda>q. hold s q + r q) \<Longrightarrow> cls s h = (s', h') \<Longrightarrow> accounts h' (\<lambda>q. hold s' q + r q)"
    and deliver_payload: "dlv ok p s h = (s', h') \<Longrightarrow> same_payload (cells h' q) (cells h q)"
    and close_payload: "cls s h = (s', h') \<Longrightarrow> same_payload (cells h' q) (cells h q)"
begin

text \<open>Retaining a live packet and delivering it keeps the accounts of everybody.\<close>

lemma retain_deliver:
  assumes a: "accounts h (\<lambda>q. hold s q + r q)" and r: "0 < r p" and d: "dlv ok p s (Retain p h) = (s', h')"
  shows "accounts h' (\<lambda>q. hold s' q + r q)"
proof -
  let ?f = "\<lambda>q. hold s q + r q"
  have "accounts (Retain p h) (?f(p := Suc (?f p)))"
    using accounts_Retain [OF a, of p] r by simp
  then have "accounts (Retain p h) (\<lambda>q. hold s q + one p q + r q)"
    by (rule accounts_cong) (simp add: one_def)
  from deliver_accounts [OF this d] show ?thesis .
qed

lemma retain_deliver_payload:
  "dlv ok p s (Retain p h) = (s', h') \<Longrightarrow> same_payload (cells h' q) (cells h q)"
  using deliver_payload payload_Retain same_payload_trans by blast

text \<open>The whole fan-out: every subscriber ends up with its own reference or has given it back.\<close>

lemma fan_out_accounts:
  "accounts h (\<lambda>q. sum_list (map (\<lambda>s. hold s q) ss) + r q) \<Longrightarrow> 0 < r p \<Longrightarrow>
   fan_out (dlv ok) p ss h = (ss', h') \<Longrightarrow> accounts h' (\<lambda>q. sum_list (map (\<lambda>s. hold s q) ss') + r q)"
proof (induction ss arbitrary: h ss' h' r)
  case Nil
  then show ?case by simp
next
  case (Cons s ss)
  obtain s1 h1 where d: "dlv ok p s (Retain p h) = (s1, h1)" by fastforce
  obtain ss1 h2 where f: "fan_out (dlv ok) p ss h1 = (ss1, h2)" by fastforce
  let ?R = "\<lambda>q. sum_list (map (\<lambda>s. hold s q) ss) + r q"
  have "accounts h (\<lambda>q. hold s q + ?R q)"
    using Cons.prems(1) by (rule accounts_cong) simp
  from retain_deliver [OF this _ d] Cons.prems(2)
  have "accounts h1 (\<lambda>q. hold s1 q + ?R q)" by simp
  then have "accounts h1 (\<lambda>q. sum_list (map (\<lambda>s. hold s q) ss) + (hold s1 q + r q))"
    by (rule accounts_cong) simp
  from Cons.IH [OF this _ f] Cons.prems(2)
  have "accounts h2 (\<lambda>q. sum_list (map (\<lambda>s. hold s q) ss1) + (hold s1 q + r q))" by simp
  moreover have "ss' = s1 # ss1" "h' = h2"
    using Cons.prems(3) d f by auto
  ultimately show ?case by (auto intro: accounts_cong)
qed

end

text \<open>Releasing lists of packets changes no payload.\<close>

lemma payload_Release_all: "same_payload (cells (Release_all ps h) q) (cells h q)"
proof (induction ps arbitrary: h)
  case (Cons p ps)
  then show ?case using payload_Release same_payload_trans by fastforce
qed simp

lemma payload_updateGOP:
  assumes "updateGOP p s h = (s', h')"
  shows "same_payload (cells h' q) (cells h q)"
proof -
  have "same_payload (cells (Release_all ps (Retain p (Release_all qs h))) q) (cells h q)" for ps qs
    by (meson payload_Release_all payload_Retain same_payload_trans)
  moreover have "same_payload (cells (Release_all ps (Retain p h)) q) (cells h q)" for ps
    by (meson payload_Release_all payload_Retain same_payload_trans)
  ultimately show ?thesis using assms by (auto simp: updateGOP_def Let_def split: if_splits)
qed

lemma updateGOP_accounts:
  assumes a: "accounts h (\<lambda>q. count_list (gopCache s) q + one p q + r q)" and u: "updateGOP p s h = (s', h')"
  shows "accounts h' (\<lambda>q. count_list (gopCache s') q + one p q + r q)"
proof -
  define g1 where "g1 = (if starts_gop (cells h p) then [] else gopCache s)"
  define h1 where "h1 = (if starts_gop (cells h p) then Release_all (gopCache s) h else h)"
  let ?g = "g1 @ [p]"
  let ?cut = "length ?g - gopCacheMax"
  have s': "gopCache s' = drop ?cut ?g" and h': "h' = Release_all (take ?cut ?g) (Retain p h1)"
    using u by (auto simp: updateGOP_def g1_def h1_def Let_def)
  let ?f = "\<lambda>q. count_list g1 q + one p q + r q"
  have 1: "accounts h1 ?f"
  proof (cases "starts_gop (cells h p)")
    case True
    have "accounts (Release_all (gopCache s) h) (\<lambda>q. one p q + r q)"
      using a by (intro accounts_Release_all) (simp add: add.assoc)
    with True show ?thesis by (simp add: g1_def h1_def)
  next
    case False
    with a show ?thesis by (simp add: g1_def h1_def)
  qed
  have "accounts (Retain p h1) (?f(p := Suc (?f p)))"
    by (rule accounts_Retain [OF 1]) (simp add: one_def)
  then have "accounts (Retain p h1) (\<lambda>q. count_list (take ?cut ?g) q + (count_list (drop ?cut ?g) q + one p q + r q))"
  proof (rule accounts_cong)
    fix q
    show "(?f(p := Suc (?f p))) q = count_list (take ?cut ?g) q + (count_list (drop ?cut ?g) q + one p q + r q)"
      using count_list_take_drop [of ?cut ?g q] by (auto simp: one_def)
  qed
  then show ?thesis
    unfolding s' h' by (rule accounts_Release_all)
qed

lemma release_one:
  assumes "accounts h (\<lambda>q. f q + one p q + r q)"
  shows "accounts (Release p h) (\<lambda>q. f q + r q)"
proof -
  have "accounts (Release_all [p] h) (\<lambda>q. f q + r q)"
    by (rule accounts_Release_all, rule accounts_cong [OF assms]) (simp add: one_def)
  then show ?thesis by simp
qed

interpretation channel_sub: packet_consumer "\<lambda>_. chan_deliver" chan_close "\<lambda>s. count_list (c_ch s)"
proof
  fix h h' s s' p q r
  show "accounts h (\<lambda>q. count_list (c_ch s) q + one p q + r q) \<Longrightarrow> chan_deliver p s h = (s', h') \<Longrightarrow>
      accounts h' (\<lambda>q. count_list (c_ch s') q + r q)"
    by (cases "length (c_ch s) < c_cap s")
      (auto simp: chan_deliver_def release_one one_def eq_commute elim!: accounts_cong)
  show "accounts h (\<lambda>q. count_list (c_ch s) q + r q) \<Longrightarrow> chan_close s h = (s', h') \<Longrightarrow>
      accounts h' (\<lambda>q. count_list (c_ch s') q + r q)"
    by (auto simp: chan_close_def split: if_splits)
  show "chan_deliver p s h = (s', h') \<Longrightarrow> same_payload (cells h' q) (cells h q)"
    by (auto simp: chan_deliver_def payload_Release split: if_splits)
  show "chan_close s h = (s', h') \<Longrightarrow> same_payload (cells h' q) (cells h q)"
    by (auto simp: chan_close_def split: if_splits)
qed

interpretation live_viewer: packet_consumer live_deliver live_close "\<lambda>s. count_list (gopCache s)"
proof
  fix h h' s s' p q r ok
  obtain s1 h1 where u: "updateGOP p s h = (s1, h1)" by fastforce
  show "accounts h (\<lambda>q. count_list (gopCache s) q + one p q + r q) \<Longrightarrow> live_deliver ok p s h = (s', h') \<Longrightarrow>
      accounts h' (\<lambda>q. count_list (gopCache s') q + r q)"
    using u release_one [OF updateGOP_accounts [OF _ u]] by (auto simp: live_deliver_def Let_def)
  show "accounts h (\<lambda>q. count_list (gopCache s) q + r q) \<Longrightarrow> live_close s h = (s', h') \<Longrightarrow>
      accounts h' (\<lambda>q. count_list (gopCache s') q + r q)"
    by (auto simp: live_close_def intro: accounts_Release_all)
  show "live_deliver ok p s h = (s', h') \<Longrightarrow> same_payload (cells h' q) (cells h q)"
    using u same_payload_trans [OF payload_Release payload_updateGOP [OF u]]
    by (auto simp: live_deliver_def Let_def)
  show "live_close s h = (s', h') \<Longrightarrow> same_payload (cells h' q) (cells h q)"
    by (auto simp: live_close_def payload_Release_all)
qed

interpretation any_sub: packet_consumer Deliver Close held
proof
  fix h h' s s' p q r ok
  show "accounts h (\<lambda>q. held s q + one p q + r q) \<Longrightarrow> Deliver ok p s h = (s', h') \<Longrightarrow>
      accounts h' (\<lambda>q. held s' q + r q)"
    by (cases s) (auto simp: map_prod_def split: prod.splits
      intro: channel_sub.deliver_accounts live_viewer.deliver_accounts)
  show "accounts h (\<lambda>q. held s q + r q) \<Longrightarrow> Close s h = (s', h') \<Longrightarrow> accounts h' (\<lambda>q. held s' q + r q)"
    by (cases s) (auto simp: map_prod_def split: prod.splits
      intro: channel_sub.close_accounts live_viewer.close_accounts)
  show "Deliver ok p s h = (s', h') \<Longrightarrow> same_payload (cells h' q) (cells h q)"
    by (cases s) (auto simp: map_prod_def split: prod.splits
      intro: channel_sub.deliver_payload live_viewer.deliver_payload)
  show "Close s h = (s', h') \<Longrightarrow> same_payload (cells h' q) (cells h q)"
    by (cases s) (auto simp: map_prod_def split: prod.splits
      intro: channel_sub.close_payload live_viewer.close_payload)
qed

text \<open>The goroutine's steps keep the accounts too.\<close>

lemma run_step_accounts:
  assumes "accounts h (\<lambda>q. count_list (c_ch s) q + r q)" "run_step e s h = Some (s', h')"
  shows "accounts h' (\<lambda>q. count_list (c_ch s') q + r q)"
proof -
  have rel: "c_ch s = p # ps \<Longrightarrow> accounts (Release p h) (\<lambda>q. count_list ps q + r q)" for p ps
    by (rule release_one, rule accounts_cong [OF assms(1)]) (simp add: one_def)
  show ?thesis
    using assms rel by (cases e) (auto simp: Let_def split: if_splits list.splits option.splits prod.splits sink.splits)
qed

lemma run_step_payload: "run_step e s h = Some (s', h') \<Longrightarrow> same_payload (cells h' q) (cells h q)"
  by (cases e) (auto simp: Let_def payload_Release split: if_splits list.splits option.splits prod.splits sink.splits)

subsection \<open>Order and loss in a channel subscriber\<close>

text \<open>A run of a channel subscriber: deliveries by the pump, steps of the goroutine and \<open>Close\<close>, in any
  order. The result tells which packets were accepted, which left the channel, and which were written
  (their contents when they were).\<close>

datatype sub_op = ODeliver addr | OClose | ORun run_event

record sub_log =
  accepted_pkts :: "addr list"
  taken_pkts :: "addr list"
  written_pkts :: "avpacket list"

definition op_log :: "sub_op \<Rightarrow> chan_sub \<Rightarrow> packet_heap \<Rightarrow> sub_log" where
  "op_log op s h = \<lparr>
     accepted_pkts = (case op of ODeliver p \<Rightarrow> if length (c_ch s) < c_cap s then [p] else [] | _ \<Rightarrow> []),
     taken_pkts = (case op of
        ORun e \<Rightarrow> (case run_step e s h of Some (s', _) \<Rightarrow> take (length (c_ch s) - length (c_ch s')) (c_ch s) | None \<Rightarrow> [])
      | _ \<Rightarrow> []),
     written_pkts = (case op of
        ORun (RRecv room) \<Rightarrow> if run_step (RRecv room) s h \<noteq> None then [cells h (hd (c_ch s))] else []
      | _ \<Rightarrow> [])\<rparr>"

definition log_append :: "sub_log \<Rightarrow> sub_log \<Rightarrow> sub_log" where
  "log_append a b = \<lparr>accepted_pkts = accepted_pkts a @ accepted_pkts b,
     taken_pkts = taken_pkts a @ taken_pkts b, written_pkts = written_pkts a @ written_pkts b\<rparr>"

fun op_step :: "sub_op \<Rightarrow> chan_sub \<Rightarrow> packet_heap \<Rightarrow> chan_sub \<times> packet_heap" where
  "op_step (ODeliver p) s h = chan_deliver p s h"
| "op_step OClose s h = chan_close s h"
| "op_step (ORun e) s h = (case run_step e s h of Some r \<Rightarrow> r | None \<Rightarrow> (s, h))"

fun chan_exec :: "sub_op list \<Rightarrow> chan_sub \<Rightarrow> packet_heap \<Rightarrow> sub_log \<times> chan_sub \<times> packet_heap" where
  "chan_exec [] s h = (\<lparr>accepted_pkts = [], taken_pkts = [], written_pkts = []\<rparr>, s, h)"
| "chan_exec (op # ops) s h =
     (let (s1, h1) = op_step op s h; (lg, s2, h2) = chan_exec ops s1 h1 in
      (log_append (op_log op s h) lg, s2, h2))"

fun deliveries :: "sub_op list \<Rightarrow> nat" where
  "deliveries [] = 0"
| "deliveries (ODeliver _ # ops) = Suc (deliveries ops)"
| "deliveries (_ # ops) = deliveries ops"

definition room_ok :: "sub_op \<Rightarrow> packet_heap \<Rightarrow> chan_sub \<Rightarrow> bool" where
  "room_ok op h s \<longleftrightarrow> (case op of ORun (RRecv room) \<Rightarrow>
     (case c_ch s of p # _ \<Rightarrow> length (tag_bytes (cells h p)) \<le> room | [] \<Rightarrow> True) | _ \<Rightarrow> True)"

fun rooms_ok :: "sub_op list \<Rightarrow> chan_sub \<Rightarrow> packet_heap \<Rightarrow> bool" where
  "rooms_ok [] s h \<longleftrightarrow> True"
| "rooms_ok (op # ops) s h \<longleftrightarrow> room_ok op h s \<and> (let (s1, h1) = op_step op s h in rooms_ok ops s1 h1)"

lemma run_step_queue:
  assumes "run_step e s h = Some (s', h')"
  shows "c_ch s = take (length (c_ch s) - length (c_ch s')) (c_ch s) @ c_ch s'"
    "c_dropped s' = c_dropped s" "c_cap s' = c_cap s" "length (c_ch s') \<le> length (c_ch s)"
  using assms by (cases e; auto simp: Let_def Suc_diff_Suc split: if_splits list.splits option.splits prod.splits sink.splits)+

lemma op_step_queue:
  assumes "op_step op s h = (s', h')" "length (c_ch s) \<le> c_cap s"
  shows "c_ch s @ accepted_pkts (op_log op s h) = taken_pkts (op_log op s h) @ c_ch s'"
    "c_dropped s' + length (accepted_pkts (op_log op s h)) = c_dropped s + deliveries [op]"
    "c_cap s' = c_cap s" "length (c_ch s') \<le> c_cap s'"
proof -
  show "c_ch s @ accepted_pkts (op_log op s h) = taken_pkts (op_log op s h) @ c_ch s'"
    using assms
    by (cases op) (auto simp: op_log_def chan_deliver_def chan_close_def split: if_splits option.splits
      dest: run_step_queue(1))
  show "c_dropped s' + length (accepted_pkts (op_log op s h)) = c_dropped s + deliveries [op]"
    using assms
    by (cases op) (auto simp: op_log_def chan_deliver_def chan_close_def split: if_splits option.splits
      dest: run_step_queue(2))
  show c: "c_cap s' = c_cap s"
    using assms
    by (cases op) (auto simp: chan_deliver_def chan_close_def split: if_splits option.splits
      dest: run_step_queue(3))
  show "length (c_ch s') \<le> c_cap s'"
    using assms unfolding c
    by (cases op) (auto simp: chan_deliver_def chan_close_def split: if_splits option.splits
      dest: run_step_queue(4))
qed

lemma deliveries_Cons: "deliveries (op # ops) = deliveries [op] + deliveries ops"
  by (cases op) auto

lemma chan_exec_queue:
  "chan_exec ops s h = (lg, s', h') \<Longrightarrow> length (c_ch s) \<le> c_cap s \<Longrightarrow>
   c_ch s @ accepted_pkts lg = taken_pkts lg @ c_ch s' \<and>
   c_dropped s' + length (accepted_pkts lg) = c_dropped s + deliveries ops \<and>
   length (c_ch s') \<le> c_cap s \<and> c_cap s' = c_cap s"
proof (induction ops arbitrary: s h lg)
  case Nil
  then show ?case by auto
next
  case (Cons op ops)
  obtain s1 h1 where o: "op_step op s h = (s1, h1)" by fastforce
  obtain l2 s2 h2 where e: "chan_exec ops s1 h1 = (l2, s2, h2)" by (metis prod_cases3)
  note q = op_step_queue [OF o Cons.prems(2)]
  from Cons.prems(1) o e have r: "lg = log_append (op_log op s h) l2" "s' = s2" "h' = h2" by auto
  from Cons.IH [of s1 h1 l2] e r q(4)
  have ih: "c_ch s1 @ accepted_pkts l2 = taken_pkts l2 @ c_ch s'"
    "c_dropped s' + length (accepted_pkts l2) = c_dropped s1 + deliveries ops"
    "length (c_ch s') \<le> c_cap s1" "c_cap s' = c_cap s1" by auto
  have "c_ch s @ accepted_pkts lg = taken_pkts lg @ c_ch s'"
    using q(1) ih(1) r(1) by (metis append.assoc log_append_def sub_log.select_convs(1,2))
  moreover have "c_dropped s' + length (accepted_pkts lg) = c_dropped s + deliveries (op # ops)"
    using q(2) ih(2) r(1) unfolding deliveries_Cons [of op ops] by (simp add: log_append_def)
  ultimately show ?case using ih q by simp
qed

text \<open>The archive file: the header and the tags of the packets written.\<close>

lemma op_step_storage:
  assumes "op_step op s h = (s', h')" "c_sink s = Storage w" "c_phase s \<noteq> Starting" "room_ok op h s"
  shows "c_sink s' = Storage (w @ concat (map tag_bytes (written_pkts (op_log op s h)))) \<and> c_phase s' \<noteq> Starting"
proof (cases op)
  case (ORun e)
  with assms show ?thesis
    by (cases e) (auto simp: op_log_def room_ok_def phase_after_def Let_def WriteTag_limited
      split: if_splits list.splits option.splits)
qed (use assms in \<open>auto simp: op_log_def chan_deliver_def chan_close_def split: if_splits\<close>)

lemma chan_exec_storage:
  "chan_exec ops s h = (lg, s', h') \<Longrightarrow> c_sink s = Storage w \<Longrightarrow> c_phase s \<noteq> Starting \<Longrightarrow> rooms_ok ops s h \<Longrightarrow>
   c_sink s' = Storage (w @ concat (map tag_bytes (written_pkts lg)))"
proof (induction ops arbitrary: s h lg w)
  case Nil
  then show ?case by auto
next
  case (Cons op ops)
  obtain s1 h1 where o: "op_step op s h = (s1, h1)" by fastforce
  obtain l2 s2 h2 where e: "chan_exec ops s1 h1 = (l2, s2, h2)" by (metis prod_cases3)
  from Cons.prems(4) o have ok: "room_ok op h s" "rooms_ok ops s1 h1" by auto
  note st = op_step_storage [OF o Cons.prems(2,3) ok(1)]
  from Cons.prems(1) o e have r: "lg = log_append (op_log op s h) l2" "s' = s2" "h' = h2" by auto
  from Cons.IH [of s1 h1 l2] e r st ok(2) show ?case by (auto simp: log_append_def)
qed

subsection \<open>The GOP cache\<close>

text \<open>A run of deliveries to a livestream subscriber, each with the store as it is at that moment.\<close>

definition gop_run :: "(bool \<times> addr \<times> packet_heap) list \<Rightarrow> live_sub \<Rightarrow> live_sub" where
  "gop_run evs s = fold (\<lambda>(ok, p, h) s. fst (live_deliver ok p s h)) evs s"

definition gop_history :: "(bool \<times> addr \<times> packet_heap) list \<Rightarrow> (addr \<times> bool) list" where
  "gop_history evs = map (\<lambda>(ok, p, h). (p, starts_gop (cells h p))) evs"

text \<open>The cache is a suffix of the history that has a keyframe at most at its head, and that starts at
  a keyframe unless the bound cut it or no keyframe came.\<close>

definition gop_suffix :: "(addr \<times> bool) list \<Rightarrow> addr list \<Rightarrow> bool" where
  "gop_suffix hist cache \<longleftrightarrow> (\<exists>pre g. hist = pre @ g \<and> cache = map fst g \<and> length g \<le> gopCacheMax \<and>
     list_all (\<lambda>x. \<not> snd x) (tl g) \<and>
     (length g = gopCacheMax \<or> pre = [] \<or> (g \<noteq> [] \<and> snd (hd g))))"

lemma gop_suffixI:
  assumes "hist = pre @ g" "cache = map fst g" "length g \<le> gopCacheMax" "list_all (\<lambda>x. \<not> snd x) (tl g)"
    and "length g = gopCacheMax \<or> pre = [] \<or> (g \<noteq> [] \<and> snd (hd g))"
  shows "gop_suffix hist cache"
  using assms unfolding gop_suffix_def by blast

lemma gop_live_deliver:
  "gopCache (fst (live_deliver ok p s h)) =
     (let g = (if starts_gop (cells h p) then [] else gopCache s) @ [p] in drop (length g - gopCacheMax) g)"
  by (simp add: live_deliver_def updateGOP_def Let_def split: prod.split)

lemma gop_suffix_snoc:
  assumes "gop_suffix hist (gopCache s)"
  shows "gop_suffix (hist @ [(p, starts_gop (cells h p))]) (gopCache (fst (live_deliver ok p s h)))"
proof -
  from assms obtain pre g where g: "hist = pre @ g" "gopCache s = map fst g" "length g \<le> gopCacheMax"
    "list_all (\<lambda>x. \<not> snd x) (tl g)" "length g = gopCacheMax \<or> pre = [] \<or> (g \<noteq> [] \<and> snd (hd g))"
    by (auto simp: gop_suffix_def)
  consider (key) "starts_gop (cells h p)" | (fits) "\<not> starts_gop (cells h p)" "length g < gopCacheMax"
    | (full) "\<not> starts_gop (cells h p)" "length g = gopCacheMax" using g(3) by linarith
  then show ?thesis
  proof cases
    case key
    then show ?thesis
      unfolding gop_live_deliver by (intro gop_suffixI [of _ hist "[(p, True)]"]) (simp_all add: gopCacheMax_def)
  next
    case fits
    have "hd (g @ [(p, False)]) = hd g" if "g \<noteq> []" using that by simp
    with fits g show ?thesis
      unfolding gop_live_deliver by (intro gop_suffixI [of _ pre "g @ [(p, False)]"]; cases g) auto
  next
    case full
    then obtain x g' where "g = x # g'" by (cases g) (auto simp: gopCacheMax_def)
    with full g show ?thesis
      unfolding gop_live_deliver by (intro gop_suffixI [of _ "pre @ [x]" "g' @ [(p, False)]"]; cases g')
        (auto simp: Suc_diff_le gopCacheMax_def)
  qed
qed

lemma gop_suffix_run: "gop_suffix (gop_history evs) (gopCache (gop_run evs (NewLivestreamSubscriber i)))"
proof (induction evs rule: rev_induct)
  case Nil
  then show ?case
    by (simp add: gop_suffix_def gop_history_def gop_run_def NewLivestreamSubscriber_def)
next
  case (snoc ev evs)
  obtain ok p h where "ev = (ok, p, h)" by (cases ev) auto
  with gop_suffix_snoc [OF snoc] show ?case by (simp add: gop_history_def gop_run_def)
qed

lemma gop_run_dropped: "l_dropped (gop_run evs s) = l_dropped s + length (filter (\<lambda>ev. \<not> fst ev) evs)"
proof (induction evs arbitrary: s)
  case Nil
  then show ?case by (simp add: gop_run_def)
next
  case (Cons ev evs)
  obtain ok p h where e: "ev = (ok, p, h)" by (cases ev) auto
  have "l_dropped (fst (live_deliver ok p s h)) = (if ok then l_dropped s else Suc (l_dropped s))"
    by (simp add: live_deliver_def updateGOP_def Let_def split: prod.split)
  with e Cons [of "fst (live_deliver ok p s h)"] show ?case by (simp add: gop_run_def)
qed

subsection \<open>Properties\<close>

text \<open>In any interleaving of deliveries, goroutine steps and \<open>Close\<close>, a channel subscriber
  is a bounded FIFO: the packets that left the channel followed by those still in it are the accepted
  ones in the order of delivery; the channel never exceeds its capacity; and every delivered packet
  was either accepted or counted as dropped.\<close>

theorem chan_sub_fifo:
  "let (lg, s, h') = chan_exec ops (new_chan_sub i cap k) h in
   accepted_pkts lg = taken_pkts lg @ c_ch s \<and> length (c_ch s) \<le> cap \<and>
   length (accepted_pkts lg) + c_dropped s = deliveries ops"
proof -
  obtain lg s h' where e: "chan_exec ops (new_chan_sub i cap k) h = (lg, s, h')" by (metis prod_cases3)
  with chan_exec_queue [OF e] show ?thesis by (auto simp: new_chan_sub_def)
qed


definition sample_heap :: packet_heap where
  "sample_heap = \<lparr>cells = (\<lambda>_. sample_packet), next_addr = 1, packetPool = []\<rparr>"


text \<open>Whatever is delivered to a viewer, its GOP cache is the end of the delivered
  sequence, at most 256 packets, with no keyframe after its first packet; it begins at the last
  keyframe unless the bound cut it or no keyframe has come yet. The drop counter counts the failed
  callbacks.\<close>

theorem gop_cache_suffix:
  "let s = gop_run evs (NewLivestreamSubscriber i) in
   (\<exists>pre g. gop_history evs = pre @ g \<and> gopCache s = map fst g \<and> length g \<le> 256 \<and>
     list_all (\<lambda>x. \<not> snd x) (tl g) \<and> (length g = 256 \<or> pre = [] \<or> (g \<noteq> [] \<and> snd (hd g)))) \<and>
   l_dropped s = length (filter (\<lambda>ev. \<not> fst ev) evs)"
  using gop_suffix_run [of evs i] gop_run_dropped [of evs "NewLivestreamSubscriber i"]
  by (simp add: gop_suffix_def gopCacheMax_def NewLivestreamSubscriber_def Let_def)

text \<open>\<open>SendGOP\<close> sends from a snapshot without references of its own. If a keyframe is
  delivered between the snapshot and the send, a cached packet that nobody else holds is already back
  in the pool, where the next packet may overwrite it, when it is sent.\<close>

theorem SendGOP_races_with_Deliver:
  assumes "accounts h (\<lambda>q. count_list (gopCache s) q + one k q + r q)"
    and "p \<in> set (gop_snapshot s)" "p \<noteq> k" "r p = 0" "starts_gop (cells h k)"
  shows "let (s', h') = live_deliver ok k s h in p \<in> set (packetPool h') \<and> p \<notin> set (gopCache s')"
proof -
  obtain s' h' where d: "live_deliver ok k s h = (s', h')" by fastforce
  have g: "gopCache s' = [k]"
    using gop_live_deliver [of ok k s h] assms(5) d by (simp add: gopCacheMax_def)
  have a: "accounts h' (\<lambda>q. count_list (gopCache s') q + r q)"
    by (rule live_viewer.deliver_accounts [OF assms(1) d])
  have "p < next_addr h"
    using accounts_live [OF assms(1), of p] assms(2) count_list_pos [of p "gopCache s"]
    by (simp add: gop_snapshot_def)
  moreover have "next_addr h' = next_addr h"
    using d by (auto simp: live_deliver_def updateGOP_def Let_def split: prod.splits if_splits)
  ultimately show ?thesis
    using a assms(3,4) d g by (simp add: accounts_def)
qed

definition two_packets :: packet_heap where
  "two_packets = \<lparr>cells = (\<lambda>_. sample_packet), next_addr = 2, packetPool = []\<rparr>"

theorem SendGOP_races_with_Deliver_witness:
  "let (s', h') = live_deliver True 1 \<lparr>l_id = ''live-v'', l_dropped = 0, gopCache = [0], l_sent = []\<rparr> two_packets in
   0 \<in> set (packetPool h') \<and> 0 \<notin> set (gopCache s')"
proof (rule SendGOP_races_with_Deliver [where r = "\<lambda>_. 0"])
  show "accounts two_packets (\<lambda>q. count_list (gopCache \<lparr>l_id = ''live-v'', l_dropped = 0, gopCache = [0], l_sent = []\<rparr>) q
      + one 1 q + 0)"
    by (auto simp: accounts_def two_packets_def sample_packet_def one_def)
  show "starts_gop (cells two_packets 1)"
    by (simp add: starts_gop_def two_packets_def sample_packet_def PacketVideo_def)
qed (simp_all add: gop_snapshot_def)

end
