(* ===== verification/Fanout.thy ===== *)
theory Fanout
  imports Subscribers
begin

section \<open>The live stream and its pump\<close>

text \<open>
  \<open>internal/stream/fanout.go\<close>: the \<open>liveStream\<close> with its ingest channel, its subscriber table, the pump
  goroutine and \<open>Close\<close>, together with the packet store, the producers that fill packets (RTP callbacks,
  relay readers) and the subscribers' goroutines. The operations are functions on the record
  \<open>live_stream\<close>; \<open>step\<close> is the relation of all atomic steps, so that its paths are the interleavings
  of all goroutines. The read lock that the pump holds while it visits the subscribers excludes the
  operations that take the write lock.

  \<open>leaked\<close> is a ghost: the packets that \<open>Ingest\<close> dropped and whose reference nobody gives back.

  The main results: in every reachable state the reference counters equal the references that exist
  (so no packet in use is ever recycled and none is recycled twice), no packet that has been handed over
  changes its contents, and each packet is delivered exactly once to each registered subscriber.
\<close>

definition ingestBufSize :: nat where "ingestBufSize = 64"

text \<open>The pump: waiting, holding a packet before it has the read lock, visiting subscribers under the
  lock, or returned.\<close>

datatype pump_state = Idle | Got addr | Visiting addr "nat list" | Gone

text \<open>\<open>Close\<close>: not called, the flag set, the subscribers closed, the done channel closed.\<close>

datatype close_state = Open | Flagged | SubsClosed | DoneClosed

record live_stream =
  heap :: packet_heap
  objs :: "subscriber list"
  subs :: "string \<rightharpoonup> nat"
  ingest :: "addr list"
  pump :: pump_state
  closing :: close_state
  packetsTotal :: nat
  producer :: "addr list"
  leaked :: "addr list"

definition newLiveStream :: live_stream where
  "newLiveStream = \<lparr>heap = empty_heap, objs = [], subs = Map.empty, ingest = [], pump = Idle,
     closing = Open, packetsTotal = 0, producer = [], leaked = []\<rparr>"

definition IsLive :: "live_stream \<Rightarrow> bool" where
  "IsLive w \<longleftrightarrow> closing w = Open"

text \<open>\<open>Ingest\<close>: \<open>seen_closed\<close> is the value of the flag that was read under \<open>closedMu\<close>.\<close>

definition Ingest :: "bool \<Rightarrow> addr \<Rightarrow> live_stream \<Rightarrow> live_stream" where
  "Ingest seen_closed p w =
     (if seen_closed then w\<lparr>leaked := p # leaked w\<rparr>
      else if length (ingest w) < ingestBufSize then w\<lparr>ingest := ingest w @ [p]\<rparr>
      else w\<lparr>leaked := p # leaked w\<rparr>)"

definition AddSubscriber :: "subscriber \<Rightarrow> live_stream \<Rightarrow> live_stream" where
  "AddSubscriber sub w = w\<lparr>objs := objs w @ [sub], subs := (subs w)(ID sub \<mapsto> length (objs w))\<rparr>"

definition close_obj :: "nat \<Rightarrow> live_stream \<Rightarrow> live_stream" where
  "close_obj i w =
     (let (s, h) = Close (objs w ! i) (heap w) in w\<lparr>objs := (objs w)[i := s], heap := h\<rparr>)"

definition RemoveSubscriber :: "string \<Rightarrow> live_stream \<Rightarrow> live_stream" where
  "RemoveSubscriber i w =
     (case subs w i of
        None \<Rightarrow> w
      | Some k \<Rightarrow> (close_obj k w)\<lparr>subs := map_delete i (subs w)\<rparr>)"

text \<open>The three critical sections of \<open>Close\<close>; the range over the table visits the keys \<open>ks\<close>.\<close>

definition close_flag :: "live_stream \<Rightarrow> live_stream" where
  "close_flag w = (if closing w \<noteq> Open then w else w\<lparr>closing := Flagged\<rparr>)"

definition close_subs :: "string list \<Rightarrow> live_stream \<Rightarrow> live_stream" where
  "close_subs ks w =
     (fold close_obj (map (\<lambda>k. the (subs w k)) ks) w)\<lparr>subs := Map.empty, closing := SubsClosed\<rparr>"

definition close_done :: "live_stream \<Rightarrow> live_stream" where
  "close_done w = w\<lparr>closing := DoneClosed\<rparr>"

text \<open>The whole of \<open>Close\<close>, when nothing interferes.\<close>

definition close_stream :: "string list \<Rightarrow> live_stream \<Rightarrow> live_stream" where
  "close_stream ks w = (if closing w \<noteq> Open then w else close_done (close_subs ks (close_flag w)))"

text \<open>The pump's steps.\<close>

definition pump_recv :: "live_stream \<Rightarrow> live_stream" where
  "pump_recv w = (case ingest w of
     p # ps \<Rightarrow> w\<lparr>ingest := ps, pump := Got p, packetsTotal := packetsTotal w + 1\<rparr> | [] \<Rightarrow> w)"

definition pump_lock :: "string list \<Rightarrow> addr \<Rightarrow> live_stream \<Rightarrow> live_stream" where
  "pump_lock ks p w = w\<lparr>pump := Visiting p (map (\<lambda>k. the (subs w k)) ks)\<rparr>"

definition pump_deliver :: "bool \<Rightarrow> addr \<Rightarrow> nat \<Rightarrow> nat list \<Rightarrow> live_stream \<Rightarrow> live_stream" where
  "pump_deliver ok p i rest w =
     (let (s, h) = Deliver ok p (objs w ! i) (Retain p (heap w)) in
      w\<lparr>objs := (objs w)[i := s], heap := h, pump := Visiting p rest\<rparr>)"

definition pump_release :: "addr \<Rightarrow> live_stream \<Rightarrow> live_stream" where
  "pump_release p w = w\<lparr>heap := Release p (heap w), pump := Idle\<rparr>"

definition Stats :: "live_stream \<Rightarrow> nat \<times> nat" where
  "Stats w = (card (dom (subs w)), packetsTotal w)"

definition stream_subscribers :: "string list \<Rightarrow> live_stream \<Rightarrow> subscriber list" where
  "stream_subscribers ks w = map (\<lambda>k. objs w ! the (subs w k)) ks"

definition countLivestreamSubs :: "string list \<Rightarrow> live_stream \<Rightarrow> nat" where
  "countLivestreamSubs ks w = length (filter (\<lambda>s. Type s = TypeLivestream) (stream_subscribers ks w))"

definition write_locked :: "live_stream \<Rightarrow> bool" where
  "write_locked w \<longleftrightarrow> (case pump w of Visiting _ _ \<Rightarrow> True | _ \<Rightarrow> False)"

text \<open>All steps of all goroutines.\<close>

inductive step :: "live_stream \<Rightarrow> live_stream \<Rightarrow> bool" where
  produce: "NewAVPacket choice n (heap w) = (p, h) \<Longrightarrow> step w (w\<lparr>heap := h, producer := p # producer w\<rparr>)"
| fill: "p \<in> set (producer w) \<Longrightarrow> (\<And>c. refs (g c) = refs c) \<Longrightarrow> step w (w\<lparr>heap := upd_cell p g (heap w)\<rparr>)"
| discard: "p \<in> set (producer w) \<Longrightarrow>
    step w (w\<lparr>heap := Release p (heap w), producer := remove1 p (producer w)\<rparr>)"
| ingest: "p \<in> set (producer w) \<Longrightarrow> (seen \<Longrightarrow> closing w \<noteq> Open) \<Longrightarrow>
    step w (Ingest seen p (w\<lparr>producer := remove1 p (producer w)\<rparr>))"
| add: "\<not> write_locked w \<Longrightarrow> held_list sub = [] \<Longrightarrow> step w (AddSubscriber sub w)"
| remove: "\<not> write_locked w \<Longrightarrow> step w (RemoveSubscriber i w)"
| flag: "step w (close_flag w)"
| close_all: "closing w = Flagged \<Longrightarrow> \<not> write_locked w \<Longrightarrow> enumerates ks (subs w) \<Longrightarrow> step w (close_subs ks w)"
| signal: "closing w = SubsClosed \<Longrightarrow> step w (close_done w)"
| recv: "pump w = Idle \<Longrightarrow> ingest w \<noteq> [] \<Longrightarrow> step w (pump_recv w)"
| lock: "pump w = Got p \<Longrightarrow> enumerates ks (subs w) \<Longrightarrow> step w (pump_lock ks p w)"
| deliver: "pump w = Visiting p (i # rest) \<Longrightarrow> step w (pump_deliver ok p i rest w)"
| release: "pump w = Visiting p [] \<Longrightarrow> step w (pump_release p w)"
| exit: "pump w = Idle \<Longrightarrow> closing w = DoneClosed \<Longrightarrow> step w (w\<lparr>pump := Gone\<rparr>)"
| run: "i < length (objs w) \<Longrightarrow> objs w ! i = Chan s \<Longrightarrow> run_step e s (heap w) = Some (s', h) \<Longrightarrow>
    step w (w\<lparr>objs := (objs w)[i := Chan s'], heap := h\<rparr>)"

inductive_cases stepE: "step w w'"

inductive reachable :: "live_stream \<Rightarrow> bool" where
  start: "reachable newLiveStream"
| next_step: "reachable w \<Longrightarrow> step w w' \<Longrightarrow> reachable w'"

subsection \<open>The references that exist\<close>

fun pump_refs :: "pump_state \<Rightarrow> addr list" where
  "pump_refs (Got p) = [p]"
| "pump_refs (Visiting p _) = [p]"
| "pump_refs _ = []"

definition subs_refs :: "subscriber list \<Rightarrow> addr \<Rightarrow> nat" where
  "subs_refs ss q = sum_list (map (\<lambda>s. held s q) ss)"

definition rest_refs :: "live_stream \<Rightarrow> addr \<Rightarrow> nat" where
  "rest_refs w q = count_list (ingest w) q + count_list (pump_refs (pump w)) q +
     count_list (producer w) q + count_list (leaked w) q"

definition refs_of :: "live_stream \<Rightarrow> addr \<Rightarrow> nat" where
  "refs_of w q = subs_refs (objs w) q + rest_refs w q"

text \<open>The table points to the objects with the right identity, and so does the pump's worklist.\<close>

definition table_ok :: "live_stream \<Rightarrow> bool" where
  "table_ok w \<longleftrightarrow> (\<forall>k i. subs w k = Some i \<longrightarrow> i < length (objs w) \<and> ID (objs w ! i) = k) \<and>
     (\<forall>p is. pump w = Visiting p is \<longrightarrow> (\<forall>i \<in> set is. i < length (objs w)))"

definition stream_inv :: "live_stream \<Rightarrow> bool" where
  "stream_inv w \<longleftrightarrow> accounts (heap w) (refs_of w) \<and> table_ok w"

text \<open>Focusing on one subscriber: the rest of the references is a frame.\<close>

lemma subs_refs_split:
  assumes "i < length ss"
  obtains r where "\<And>q. subs_refs ss q = held (ss ! i) q + r q"
    "\<And>s q. subs_refs (ss[i := s]) q = held s q + r q"
proof -
  let ?r = "\<lambda>q. subs_refs (take i ss) q + subs_refs (drop (Suc i) ss) q"
  have "subs_refs (ss[i := s]) q = held s q + ?r q" for s q
    using assms by (simp add: upd_conv_take_nth_drop subs_refs_def)
  moreover from this [of "ss ! i"] have "subs_refs ss q = held (ss ! i) q + ?r q" for q by simp
  ultimately show thesis by (intro that)
qed

lemma ID_Deliver [simp]: "Deliver ok p s h = (s', h') \<Longrightarrow> ID s' = ID s"
  by (cases s) (auto simp: chan_deliver_def live_deliver_def updateGOP_def Let_def split: prod.splits if_splits)

lemma ID_Close [simp]: "Close s h = (s', h') \<Longrightarrow> ID s' = ID s"
  by (cases s) (auto simp: chan_close_def live_close_def split: if_splits)

lemma ID_run_step [simp]: "run_step e s h = Some (s', h') \<Longrightarrow> c_id s' = c_id s"
  by (cases e) (auto simp: Let_def split: if_splits list.splits option.splits prod.splits sink.splits)

text \<open>Replacing one subscriber by a later state of itself.\<close>

lemma accounts_focus:
  assumes "accounts (heap w) (refs_of w)" "i < length (objs w)"
    and "\<And>r. accounts (heap w) (\<lambda>q. held (objs w ! i) q + r q) \<Longrightarrow> (\<And>q. rest_refs w q \<le> r q) \<Longrightarrow>
       accounts h (\<lambda>q. held s q + r q)"
  shows "accounts h (\<lambda>q. subs_refs ((objs w)[i := s]) q + rest_refs w q)"
proof -
  from subs_refs_split [OF assms(2)] obtain r where r: "\<And>q. subs_refs (objs w) q = held (objs w ! i) q + r q"
    "\<And>s q. subs_refs ((objs w)[i := s]) q = held s q + r q" by blast
  have "accounts (heap w) (\<lambda>q. held (objs w ! i) q + (r q + rest_refs w q))"
    using assms(1) by (rule accounts_cong) (simp add: refs_of_def r)
  from assms(3) [OF this] show ?thesis
    by (rule accounts_cong) (simp_all add: r)
qed

lemma table_ok_update:
  "table_ok w \<Longrightarrow> i < length (objs w) \<Longrightarrow> ID s = ID (objs w ! i) \<Longrightarrow> table_ok (w\<lparr>objs := (objs w)[i := s], heap := h\<rparr>)"
  by (auto simp: table_ok_def nth_list_update)

lemma refs_of_update: "refs_of (w\<lparr>objs := ss, heap := h\<rparr>) = (\<lambda>q. subs_refs ss q + rest_refs w q)"
  by (rule ext) (simp add: refs_of_def rest_refs_def)

lemma inv_close_obj:
  assumes "stream_inv w" "i < length (objs w)"
  shows "stream_inv (close_obj i w) \<and> subs (close_obj i w) = subs w \<and> length (objs (close_obj i w)) = length (objs w) \<and>
    pump (close_obj i w) = pump w"
proof -
  obtain s h where c: "Close (objs w ! i) (heap w) = (s, h)" by fastforce
  let ?w = "w\<lparr>objs := (objs w)[i := s], heap := h\<rparr>"
  have "accounts h (\<lambda>q. subs_refs ((objs w)[i := s]) q + rest_refs w q)"
    using assms any_sub.close_accounts [OF _ c] by (intro accounts_focus) (auto simp: stream_inv_def)
  then have "accounts (heap ?w) (refs_of ?w)"
    by (simp add: refs_of_update)
  moreover have "table_ok ?w"
    using assms c by (intro table_ok_update) (auto simp: stream_inv_def)
  ultimately show ?thesis by (simp add: close_obj_def c stream_inv_def)
qed

lemma inv_close_objs:
  "stream_inv w \<Longrightarrow> \<forall>i \<in> set is. i < length (objs w) \<Longrightarrow>
   stream_inv (fold close_obj is w) \<and> subs (fold close_obj is w) = subs w \<and>
   pump (fold close_obj is w) = pump w"
  by (induction "is" arbitrary: w) (auto simp: inv_close_obj)

lemma stream_inv_subset:
  assumes "stream_inv w" "m \<subseteq>\<^sub>m subs w"
  shows "stream_inv (w\<lparr>subs := m\<rparr>)"
proof -
  have "refs_of (w\<lparr>subs := m\<rparr>) = refs_of w"
    by (rule ext) (simp add: refs_of_def rest_refs_def)
  with assms show ?thesis
    by (auto simp: stream_inv_def table_ok_def map_le_def) (metis domI option.inject)+
qed

lemma inv_RemoveSubscriber: "stream_inv w \<Longrightarrow> stream_inv (RemoveSubscriber i w)"
proof (cases "subs w i")
  case (Some k)
  assume w: "stream_inv w"
  with Some have "k < length (objs w)" by (auto simp: stream_inv_def table_ok_def)
  with w inv_close_obj have "stream_inv (close_obj k w)" "subs (close_obj k w) = subs w" by blast+
  moreover have "map_delete i (subs w) \<subseteq>\<^sub>m subs w"
    by (auto simp: map_le_def map_delete_apply)
  ultimately show ?thesis using Some by (simp add: RemoveSubscriber_def stream_inv_subset)
qed (simp add: RemoveSubscriber_def)

lemma stream_inv_closing: "stream_inv (w\<lparr>closing := c\<rparr>) = stream_inv w"
proof -
  have "refs_of (w\<lparr>closing := c\<rparr>) = refs_of w"
    by (rule ext) (simp add: refs_of_def rest_refs_def)
  then show ?thesis by (simp add: stream_inv_def table_ok_def)
qed

lemma inv_close_subs:
  assumes "stream_inv w" "enumerates ks (subs w)"
  shows "stream_inv (close_subs ks w)"
proof -
  let ?is = "map (\<lambda>k. the (subs w k)) ks"
  have "\<forall>i \<in> set ?is. i < length (objs w)"
    using assms by (fastforce simp: stream_inv_def table_ok_def enumerates_def)
  from inv_close_objs [OF assms(1) this]
  have "stream_inv ((fold close_obj ?is w)\<lparr>subs := Map.empty\<rparr>)"
    by (intro stream_inv_subset) auto
  then show ?thesis
    using stream_inv_closing [of SubsClosed "(fold close_obj ?is w)\<lparr>subs := Map.empty\<rparr>"]
    by (simp add: close_subs_def)
qed

lemma inv_AddSubscriber:
  assumes "stream_inv w" "held_list sub = []"
  shows "stream_inv (AddSubscriber sub w)"
proof -
  have "refs_of (AddSubscriber sub w) = refs_of w"
    using assms(2) by (intro ext) (simp add: refs_of_def rest_refs_def subs_refs_def AddSubscriber_def)
  moreover have "table_ok (AddSubscriber sub w)"
    using assms(1) by (fastforce simp: stream_inv_def table_ok_def AddSubscriber_def nth_append)
  ultimately show ?thesis using assms(1) by (simp add: stream_inv_def AddSubscriber_def)
qed

lemma inv_pump_deliver:
  assumes w: "stream_inv w" and p: "pump w = Visiting p (i # rest)"
  shows "stream_inv (pump_deliver ok p i rest w)"
proof -
  have i: "i < length (objs w)" using w p by (auto simp: stream_inv_def table_ok_def)
  obtain s h where d: "Deliver ok p (objs w ! i) (Retain p (heap w)) = (s, h)" by fastforce
  let ?w = "w\<lparr>objs := (objs w)[i := s], heap := h\<rparr>"
  have "accounts h (\<lambda>q. subs_refs ((objs w)[i := s]) q + rest_refs w q)"
  proof (rule accounts_focus [OF _ i])
    show "accounts (heap w) (refs_of w)" using w by (simp add: stream_inv_def)
    fix r assume a: "accounts (heap w) (\<lambda>q. held (objs w ! i) q + r q)" and r: "\<And>q. rest_refs w q \<le> r q"
    have "0 < rest_refs w p" by (simp add: rest_refs_def p)
    with r [of p] show "accounts h (\<lambda>q. held s q + r q)"
      by (intro any_sub.retain_deliver [OF a _ d]) simp
  qed
  then have "accounts h (\<lambda>q. subs_refs ((objs w)[i := s]) q + rest_refs (w\<lparr>pump := Visiting p rest\<rparr>) q)"
    by (rule accounts_cong) (simp add: rest_refs_def p)
  then have "accounts h (refs_of (pump_deliver ok p i rest w))"
    by (rule accounts_cong) (simp add: pump_deliver_def d refs_of_def rest_refs_def)
  moreover have "table_ok ?w"
    using w d i by (intro table_ok_update) (auto simp: stream_inv_def)
  then have "table_ok (pump_deliver ok p i rest w)"
    using p by (auto simp: pump_deliver_def d table_ok_def)
  ultimately show ?thesis by (simp add: stream_inv_def pump_deliver_def d)
qed

lemma inv_run:
  assumes w: "stream_inv w" and i: "i < length (objs w)" "objs w ! i = Chan s"
    and r: "run_step e s (heap w) = Some (s', h)"
  shows "stream_inv (w\<lparr>objs := (objs w)[i := Chan s'], heap := h\<rparr>)"
proof -
  have "accounts h (\<lambda>q. subs_refs ((objs w)[i := Chan s']) q + rest_refs w q)"
    using w i(2) run_step_accounts [OF _ r]
    by (intro accounts_focus [OF _ i(1)]) (auto simp: stream_inv_def)
  then show ?thesis
    using w i r table_ok_update [of w i "Chan s'" h] by (simp add: stream_inv_def refs_of_update)
qed

text \<open>The steps that move a packet between queues, or give a reference back.\<close>

lemma inv_by_refs:
  assumes "accounts h f" "\<And>q. f q = refs_of w' q" "heap w' = h" "table_ok w'"
  shows "stream_inv w'"
  using assms accounts_cong [of h f "refs_of w'"] by (simp add: stream_inv_def)

lemma inv_ingest:
  assumes "stream_inv w" "p \<in> set (producer w)"
  shows "stream_inv (Ingest seen p (w\<lparr>producer := remove1 p (producer w)\<rparr>))"
  using assms count_list_pos [OF assms(2)]
  by (intro inv_by_refs [of "heap w" "refs_of w"])
    (auto simp: stream_inv_def Ingest_def refs_of_def rest_refs_def table_ok_def one_def)

lemma inv_produce:
  assumes "stream_inv w" "NewAVPacket choice n (heap w) = (p, h)"
  shows "stream_inv (w\<lparr>heap := h, producer := p # producer w\<rparr>)"
proof -
  have "accounts (heap w) (refs_of w)" using assms by (simp add: stream_inv_def)
  note n = accounts_NewAVPacket [OF this assms(2)]
  show ?thesis
    using assms n by (intro inv_by_refs [OF n(2)]) (auto simp: stream_inv_def refs_of_def rest_refs_def table_ok_def)
qed

lemma inv_fill:
  assumes "stream_inv w" "\<And>c. refs (g c) = refs c"
  shows "stream_inv (w\<lparr>heap := upd_cell p g (heap w)\<rparr>)"
  using assms
  by (intro inv_by_refs [OF accounts_upd_cell [of "heap w" "refs_of w" g p]])
    (auto simp: stream_inv_def refs_of_def rest_refs_def table_ok_def)

lemma inv_discard:
  assumes "stream_inv w" "p \<in> set (producer w)"
  shows "stream_inv (w\<lparr>heap := Release p (heap w), producer := remove1 p (producer w)\<rparr>)"
proof -
  let ?w = "w\<lparr>producer := remove1 p (producer w)\<rparr>"
  have "accounts (heap w) (\<lambda>q. refs_of ?w q + one p q + 0)"
    by (rule accounts_cong [of "heap w" "refs_of w"])
      (use assms count_list_pos [OF assms(2)] in \<open>auto simp: stream_inv_def refs_of_def rest_refs_def one_def\<close>)
  note rel = release_one [OF this]
  show ?thesis
    using assms by (intro inv_by_refs [OF rel]) (auto simp: stream_inv_def refs_of_def rest_refs_def table_ok_def)
qed

lemma inv_release:
  assumes "stream_inv w" "pump w = Visiting p []"
  shows "stream_inv (pump_release p w)"
proof -
  have "accounts (heap w) (\<lambda>q. refs_of (w\<lparr>pump := Idle\<rparr>) q + one p q + 0)"
    by (rule accounts_cong [of "heap w" "refs_of w"])
      (use assms in \<open>auto simp: stream_inv_def refs_of_def rest_refs_def one_def\<close>)
  note rel = release_one [OF this]
  show ?thesis
    using assms by (intro inv_by_refs [OF rel]) (auto simp: stream_inv_def refs_of_def rest_refs_def table_ok_def pump_release_def)
qed

lemma inv_pump:
  assumes "stream_inv w"
  shows "pump w = Idle \<Longrightarrow> ingest w \<noteq> [] \<Longrightarrow> stream_inv (pump_recv w)"
    and "pump w = Got p \<Longrightarrow> enumerates ks (subs w) \<Longrightarrow> stream_inv (pump_lock ks p w)"
    and "pump w = Idle \<Longrightarrow> stream_inv (w\<lparr>pump := Gone\<rparr>)"
  using assms
  by (intro inv_by_refs [of "heap w" "refs_of w"];
      fastforce simp: stream_inv_def refs_of_def rest_refs_def table_ok_def pump_recv_def pump_lock_def
        enumerates_def split: list.splits)+

lemma inv_step: "step w w' \<Longrightarrow> stream_inv w \<Longrightarrow> stream_inv w'"
proof (induction rule: step.induct)
  case (flag w)
  then show ?case by (simp add: close_flag_def stream_inv_closing)
next
  case (signal w)
  then show ?case by (simp add: close_done_def stream_inv_closing)
qed (simp_all add: inv_produce inv_fill inv_discard inv_ingest inv_AddSubscriber inv_RemoveSubscriber
      inv_close_subs inv_pump inv_pump_deliver inv_release inv_run)

lemma inv_start: "stream_inv newLiveStream"
  using accounts_empty
  by (intro inv_by_refs) (auto simp: newLiveStream_def refs_of_def rest_refs_def subs_refs_def table_ok_def)

lemma reachable_inv: "reachable w \<Longrightarrow> stream_inv w"
  by (induction rule: reachable.induct) (auto simp: inv_start inv_step)

subsection \<open>Contents of packets in the pipeline\<close>

lemma NewAVPacket_other:
  assumes "accounts h f" "NewAVPacket choice n h = (q, h')" "0 < f p"
  shows "cells h' p = cells h p"
proof -
  have "p < next_addr h" "p \<notin> set (packetPool h)" using accounts_live [OF assms(1,3)] by auto
  moreover have "q \<noteq> p" using accounts_NewAVPacket(1) [OF assms(1,2)] assms(3) by auto
  ultimately show ?thesis
    using assms(2)
    by (auto simp: NewAVPacket_def pool_get_def upd_cell_def split: option.splits if_splits prod.splits)
qed

lemma payload_close_obj: "same_payload (cells (heap (close_obj i w)) p) (cells (heap w) p)"
  by (auto simp: close_obj_def Let_def split: prod.split intro: any_sub.close_payload)

lemma payload_close_objs: "same_payload (cells (heap (fold close_obj is w)) p) (cells (heap w) p)"
proof (induction "is" arbitrary: w)
  case (Cons i "is")
  then show ?case using payload_close_obj same_payload_trans by fastforce
qed simp

lemma heap_Ingest [simp]: "heap (Ingest seen p w) = heap w"
  by (simp add: Ingest_def)

lemma step_payload:
  "step w w' \<Longrightarrow> accounts (heap w) (refs_of w) \<Longrightarrow> 0 < refs_of w p \<Longrightarrow> p \<notin> set (producer w) \<Longrightarrow>
   same_payload (cells (heap w') p) (cells (heap w) p)"
proof (induction rule: step.induct)
  case (produce choice n w q h)
  then show ?case using NewAVPacket_other [of "heap w" "refs_of w"] by simp
next
  case (fill q w g)
  then show ?case by (auto simp: upd_cell_def)
next
  case (remove w i)
  then show ?case by (auto simp: RemoveSubscriber_def payload_close_obj split: option.split)
next
  case (close_all w ks)
  then show ?case by (simp add: close_subs_def payload_close_objs)
next
  case (deliver w q i rest ok)
  then show ?case
    by (auto simp: pump_deliver_def Let_def split: prod.split intro: any_sub.retain_deliver_payload)
next
  case (run i w s e s' h)
  then show ?case by (simp add: run_step_payload)
qed (auto simp: payload_Release AddSubscriber_def close_flag_def close_done_def pump_recv_def pump_lock_def
      pump_release_def split: list.split)

lemma step_leaked: "step w w' \<Longrightarrow> set (leaked w) \<subseteq> set (leaked w')"
proof -
  have "leaked (close_obj i w) = leaked w" for i w by (simp add: close_obj_def split: prod.split)
  then have c: "leaked (fold close_obj is w) = leaked w" for "is" w by (induction "is" arbitrary: w) auto
  show "step w w' \<Longrightarrow> ?thesis"
    by (induction rule: step.induct)
      (auto simp: Ingest_def AddSubscriber_def RemoveSubscriber_def close_obj_def close_flag_def close_subs_def c
        close_done_def pump_recv_def pump_lock_def pump_deliver_def pump_release_def Let_def
        split: option.split list.split prod.split)
qed

subsection \<open>One complete fan-out\<close>

text \<open>The pump's loop over its worklist when nothing interferes.\<close>

fun pump_visit :: "bool \<Rightarrow> addr \<Rightarrow> nat list \<Rightarrow> live_stream \<Rightarrow> live_stream" where
  "pump_visit ok p [] w = pump_release p w"
| "pump_visit ok p (i # is) w = pump_visit ok p is (pump_deliver ok p i is w)"

definition pump_packet :: "bool \<Rightarrow> string list \<Rightarrow> addr \<Rightarrow> live_stream \<Rightarrow> live_stream" where
  "pump_packet ok ks p w = pump_visit ok p (map (\<lambda>k. the (subs w k)) ks) (pump_lock ks p w)"

lemma objs_pump_deliver:
  "\<exists>h. objs (pump_deliver ok p i is w) = (objs w)[i := fst (Deliver ok p (objs w ! i) h)]"
  by (auto simp: pump_deliver_def Let_def split: prod.split intro: exI [of _ "Retain p (heap w)"])

lemma objs_pump_visit:
  "distinct is \<Longrightarrow> \<forall>i \<in> set is. i < length (objs w) \<Longrightarrow>
   length (objs (pump_visit ok p is w)) = length (objs w) \<and>
   (\<forall>j < length (objs w). if j \<in> set is
      then \<exists>h. objs (pump_visit ok p is w) ! j = fst (Deliver ok p (objs w ! j) h)
      else objs (pump_visit ok p is w) ! j = objs w ! j)"
proof (induction "is" arbitrary: w)
  case Nil
  then show ?case by (simp add: pump_release_def)
next
  case (Cons i "is")
  obtain h where h: "objs (pump_deliver ok p i is w) = (objs w)[i := fst (Deliver ok p (objs w ! i) h)]"
    using objs_pump_deliver by blast
  have nth: "objs (pump_deliver ok p i is w) ! j = (if j = i then fst (Deliver ok p (objs w ! i) h) else objs w ! j)"
    if "j < length (objs w)" for j using that h by simp
  have len: "length (objs (pump_deliver ok p i is w)) = length (objs w)" using h by simp
  have ih: "length (objs (pump_visit ok p (i # is) w)) = length (objs w)"
    "j < length (objs w) \<Longrightarrow> if j \<in> set is
       then \<exists>h. objs (pump_visit ok p (i # is) w) ! j = fst (Deliver ok p (objs (pump_deliver ok p i is w) ! j) h)
       else objs (pump_visit ok p (i # is) w) ! j = objs (pump_deliver ok p i is w) ! j" for j
    using Cons.IH [of "pump_deliver ok p i is w"] Cons.prems len by simp_all
  have "if j \<in> set (i # is) then \<exists>h. objs (pump_visit ok p (i # is) w) ! j = fst (Deliver ok p (objs w ! j) h)
      else objs (pump_visit ok p (i # is) w) ! j = objs w ! j" if j: "j < length (objs w)" for j
    using ih(2) [OF j] nth [OF j] Cons.prems(1) by (cases "j \<in> set is"; cases "j = i") auto
  with ih(1) show ?case by blast
qed

lemma worklist_distinct:
  assumes "table_ok w" "enumerates ks (subs w)"
  shows "distinct (map (\<lambda>k. the (subs w k)) ks)" "set (map (\<lambda>k. the (subs w k)) ks) = ran (subs w)"
    "\<forall>i \<in> ran (subs w). i < length (objs w)"
proof -
  have inj: "j = k" if "subs w j = Some i" "subs w k = Some i" for i j k
    using assms(1) that unfolding table_ok_def by metis
  show "distinct (map (\<lambda>k. the (subs w k)) ks)"
    using assms(2) inj by (fastforce simp: enumerates_def distinct_map inj_on_def)
  show "set (map (\<lambda>k. the (subs w k)) ks) = ran (subs w)"
    using assms(2) by (force simp: enumerates_def ran_def)
  show "\<forall>i \<in> ran (subs w). i < length (objs w)"
    using assms(1) by (auto simp: table_ok_def ran_def)
qed

subsection \<open>Draining\<close>

fun run_all :: "run_event list \<Rightarrow> chan_sub \<Rightarrow> packet_heap \<Rightarrow> (chan_sub \<times> packet_heap) option" where
  "run_all [] s h = Some (s, h)"
| "run_all (e # es) s h = (case run_step e s h of None \<Rightarrow> None | Some (s', h') \<Rightarrow> run_all es s' h')"

lemma drain_all:
  "c_phase s = Draining \<Longrightarrow> run_all (replicate (Suc (length (c_ch s))) RDrain) s h =
   Some (s\<lparr>c_ch := [], c_phase := Exited\<rparr>, Release_all (c_ch s) h)"
proof (induction "c_ch s" arbitrary: s h)
  case Nil
  then show ?case by simp
next
  case (Cons p ps)
  from Cons.hyps(1) [of "s\<lparr>c_ch := ps\<rparr>" "Release p h"] Cons.prems Cons.hyps(2) [symmetric]
  show ?case by simp
qed

subsection \<open>Properties\<close>

text \<open>Property C1: in every state reachable by any interleaving of producers, \<open>Ingest\<close>, the pump, the
  subscribers' goroutines, subscription changes and \<open>Close\<close>, the counter of every packet somebody
  still refers to equals the number of references to it, such a packet is never in the pool, and the
  pool holds no packet twice: there is no use after release and no double release.\<close>

theorem refcount_safety:
  assumes "reachable w"
  shows "(\<forall>p. refs_of w p > 0 \<longrightarrow> p \<notin> set (packetPool (heap w)) \<and> refs (cells (heap w) p) = int (refs_of w p)) \<and>
         distinct (packetPool (heap w)) \<and>
         (\<forall>p \<in> set (packetPool (heap w)). refs_of w p = 0 \<and> refs (cells (heap w) p) = 0)"
proof -
  have a: "accounts (heap w) (refs_of w)" using reachable_inv [OF assms] by (simp add: stream_inv_def)
  then show ?thesis
    using accounts_live [OF a] accounts_refs [OF a] by (auto simp: accounts_def)
qed

definition sample_world :: live_stream where
  "sample_world = newLiveStream\<lparr>heap := snd (NewAVPacket None 1 empty_heap), producer := [0]\<rparr>"

lemma reachable_sample: "reachable sample_world"
proof -
  have "NewAVPacket None 1 (heap newLiveStream) = (0, snd (NewAVPacket None 1 empty_heap))"
    by (simp add: NewAVPacket_def pool_get_def empty_heap_def newLiveStream_def)
  from step.produce [OF this] have "step newLiveStream sample_world"
    by (simp add: sample_world_def newLiveStream_def)
  with reachable.start show ?thesis by (rule reachable.next_step)
qed

theorem refcount_safety_witness:
  "refs_of sample_world 0 > 0 \<and> 0 \<notin> set (packetPool (heap sample_world)) \<and> refs (cells (heap sample_world) 0) = 1"
  using refcount_safety [OF reachable_sample] by (auto simp: refs_of_def rest_refs_def sample_world_def newLiveStream_def subs_refs_def)

text \<open>Property C2: once a packet has been handed to \<open>Ingest\<close>, no step of any goroutine changes its type,
  timestamp, keyframe flag or payload as long as somebody refers to it.\<close>

theorem packet_contents_stable:
  assumes "reachable w" "step w w'" "0 < refs_of w p" "p \<notin> set (producer w)"
  shows "same_payload (cells (heap w') p) (cells (heap w) p)"
  using step_payload [OF assms(2)] reachable_inv [OF assms(1)] assms(3,4) by (simp add: stream_inv_def)

lemma reachable_ingested: "reachable (Ingest False 0 (sample_world\<lparr>producer := []\<rparr>))"
  using step.ingest [of 0 sample_world False] reachable_sample
  by (auto simp: sample_world_def newLiveStream_def intro: reachable.next_step)

theorem packet_contents_stable_witness:
  "let w = Ingest False 0 (sample_world\<lparr>producer := []\<rparr>) in
   same_payload (cells (heap (pump_recv w)) 0) (cells (heap w) 0)"
  unfolding Let_def
  by (rule packet_contents_stable [OF reachable_ingested step.recv])
    (simp_all add: Ingest_def sample_world_def newLiveStream_def ingestBufSize_def refs_of_def rest_refs_def)

text \<open>Property C3: a complete fan-out delivers the packet exactly once to each registered subscriber and
  to nobody else; a channel subscriber with room has it appended to its channel, a full one counts a
  drop.\<close>

theorem fanout_exactly_once:
  assumes "reachable w" "enumerates ks (subs w)" "j < length (objs w)"
  shows "case objs w ! j of
     Chan s \<Rightarrow> objs (pump_packet ok ks p w) ! j =
       Chan (if j \<notin> ran (subs w) then s
             else if length (c_ch s) < c_cap s then s\<lparr>c_ch := c_ch s @ [p]\<rparr>
             else s\<lparr>c_dropped := c_dropped s + 1\<rparr>)
   | Live s \<Rightarrow> if j \<notin> ran (subs w) then objs (pump_packet ok ks p w) ! j = Live s
       else \<exists>h. objs (pump_packet ok ks p w) ! j = Live (fst (live_deliver ok p s h))"
proof -
  have t: "table_ok w" using reachable_inv [OF assms(1)] by (simp add: stream_inv_def)
  note wl = worklist_distinct [OF t assms(2)]
  have o: "objs (pump_lock ks p w) = objs w" by (simp add: pump_lock_def)
  have lt: "\<forall>i \<in> set (map (\<lambda>k. the (subs w k)) ks). i < length (objs (pump_lock ks p w))"
    using wl(2,3) o by metis
  from objs_pump_visit [OF wl(1) lt, of ok p] assms(3)
  have "if j \<in> ran (subs w) then \<exists>h. objs (pump_packet ok ks p w) ! j = fst (Deliver ok p (objs w ! j) h)
      else objs (pump_packet ok ks p w) ! j = objs w ! j"
    unfolding pump_packet_def o wl(2) by blast
  then show ?thesis
    by (auto simp: chan_deliver_def split: subscriber.split if_splits)
qed

definition sample_relay :: subscriber where
  "sample_relay = Chan (NewRelaySubscriber ''cam'' [])"

lemma reachable_relay: "reachable (AddSubscriber sample_relay newLiveStream)"
  by (rule reachable.next_step [OF reachable.start step.add])
    (simp_all add: sample_relay_def write_locked_def newLiveStream_def NewRelaySubscriber_def new_chan_sub_def)

theorem fanout_exactly_once_witness:
  "objs (pump_packet True [''relay-cam''] 7 (AddSubscriber sample_relay newLiveStream)) ! 0 =
   Chan ((NewRelaySubscriber ''cam'' [])\<lparr>c_ch := [7]\<rparr>)"
  using fanout_exactly_once [OF reachable_relay, of "[''relay-cam'']" 0 True 7]
  by (auto simp: AddSubscriber_def newLiveStream_def sample_relay_def NewRelaySubscriber_def new_chan_sub_def
      relayBufSize_def enumerates_def ran_def)

text \<open>A packet that \<open>Ingest\<close> drops (full buffer or closed stream) is lost to the pool: in
  every later state it is still not in the pool, because nobody gives its reference back.\<close>

theorem ingest_drop_leaks:
  assumes "reachable w" "p \<in> set (producer w)" "closing w \<noteq> Open \<or> length (ingest w) = ingestBufSize"
    and "step\<^sup>*\<^sup>* (Ingest (closing w \<noteq> Open) p (w\<lparr>producer := remove1 p (producer w)\<rparr>)) w'"
  shows "p \<notin> set (packetPool (heap w')) \<and> 0 < refs (cells (heap w') p)"
proof -
  let ?w = "Ingest (closing w \<noteq> Open) p (w\<lparr>producer := remove1 p (producer w)\<rparr>)"
  have r: "reachable ?w" "p \<in> set (leaked ?w)"
    using assms(1-3) reachable.next_step [OF assms(1) step.ingest [OF assms(2)]] by (auto simp: Ingest_def)
  from assms(4) have "reachable w' \<and> p \<in> set (leaked w')"
  proof (induction rule: rtranclp_induct)
    case base
    with r show ?case by simp
  next
    case (step y z)
    then show ?case using reachable.next_step step_leaked by blast
  qed
  then have a: "accounts (heap w') (refs_of w')" and p: "0 < refs_of w' p"
    using reachable_inv count_list_pos [of p "leaked w'"]
    by (auto simp: stream_inv_def refs_of_def rest_refs_def)
  from accounts_live [OF a p] accounts_refs [OF a p] p show ?thesis by simp
qed

lemma reachable_closed: "reachable (close_flag sample_world)"
  by (rule reachable.next_step [OF reachable_sample step.flag])

theorem ingest_drop_leaks_witness:
  "let w = Ingest True 0 ((close_flag sample_world)\<lparr>producer := []\<rparr>) in
   0 \<notin> set (packetPool (heap w)) \<and> 0 < refs (cells (heap w) 0)"
  using ingest_drop_leaks [OF reachable_closed, of 0 "Ingest True 0 ((close_flag sample_world)\<lparr>producer := []\<rparr>)"]
  by (simp add: close_flag_def sample_world_def newLiveStream_def)

text \<open>Two relay viewers of one stream use the same subscriber id. The second takes the
  first one's place in the table, so the first is no longer served; and when the first disconnects,
  its \<open>RemoveSubscriber\<close> closes the second and leaves the first open and unreachable.\<close>

theorem relay_viewers_collide:
  assumes "reachable w"
  shows "let n = length (objs w);
       w2 = AddSubscriber (Chan (NewRelaySubscriber key out2)) (AddSubscriber (Chan (NewRelaySubscriber key out1)) w);
       w3 = RemoveSubscriber (''relay-'' @ key) w2 in
     n \<notin> ran (subs w2) \<and> n \<notin> ran (subs w3) \<and> Suc n \<notin> ran (subs w3) \<and>
     objs w3 ! n = Chan (NewRelaySubscriber key out1) \<and>
     objs w3 ! Suc n = Chan ((NewRelaySubscriber key out2)\<lparr>c_done := True\<rparr>)"
proof -
  have t: "\<And>k i. subs w k = Some i \<Longrightarrow> i < length (objs w)"
    using reachable_inv [OF assms] by (auto simp: stream_inv_def table_ok_def)
  have i: "ID (Chan (NewRelaySubscriber key x)) = ''relay-'' @ key" for x
    by (simp add: NewRelaySubscriber_def new_chan_sub_def)
  have d: "\<not> c_done (NewRelaySubscriber key out2)"
    by (simp add: NewRelaySubscriber_def new_chan_sub_def)
  let ?n = "length (objs w)" and ?w1 = "AddSubscriber (Chan (NewRelaySubscriber key out1)) w"
  let ?w2 = "AddSubscriber (Chan (NewRelaySubscriber key out2)) ?w1"
  have s2: "subs ?w2 = (subs w)(''relay-'' @ key \<mapsto> Suc ?n)"
    "objs ?w2 = objs w @ [Chan (NewRelaySubscriber key out1), Chan (NewRelaySubscriber key out2)]"
    by (simp_all add: AddSubscriber_def i del: ID.simps)
  have r: "RemoveSubscriber (''relay-'' @ key) ?w2 = (close_obj (Suc ?n) ?w2)\<lparr>subs := map_delete (''relay-'' @ key) (subs w)\<rparr>"
    by (simp add: RemoveSubscriber_def s2)
  have o: "objs (close_obj (Suc ?n) ?w2) = objs w @ [Chan (NewRelaySubscriber key out1), Chan ((NewRelaySubscriber key out2)\<lparr>c_done := True\<rparr>)]"
    using d by (simp add: close_obj_def s2 nth_append chan_close_def list_update_append)
  show ?thesis
    unfolding Let_def r s2 using t
    by (auto simp: o ran_def map_delete_apply nth_append split: if_splits) (metis Suc_lessD less_irrefl)+
qed

theorem relay_viewers_collide_witness:
  "let w2 = AddSubscriber (Chan (NewRelaySubscriber ''cam'' [2])) (AddSubscriber (Chan (NewRelaySubscriber ''cam'' [1])) newLiveStream) in
   0 \<notin> ran (subs w2) \<and> objs (RemoveSubscriber ''relay-cam'' w2) ! 0 = Chan (NewRelaySubscriber ''cam'' [1])"
  using relay_viewers_collide [OF reachable.start, of "''cam''" "[2]" "[1]"]
  by (simp add: Let_def newLiveStream_def)

text \<open>Property C22: the goroutine of a closed channel subscriber ends. From its select loop, seeing the done
  signal and then draining takes it to its end with an empty channel, each remaining packet released
  exactly once.\<close>

theorem closed_subscriber_drains:
  assumes "c_phase s = Running" "c_done s"
  shows "run_all (RDone now room ok # replicate (Suc (length (c_ch s))) RDrain) s h =
     Some (s\<lparr>c_sink := sink_done now room ok (c_sink s), c_ch := [], c_phase := Exited\<rparr>, Release_all (c_ch s) h)"
  using assms drain_all [of "s\<lparr>c_sink := sink_done now room ok (c_sink s), c_phase := Draining\<rparr>" h]
  by simp

theorem closed_subscriber_drains_witness:
  "map_option (\<lambda>(s, h). (c_phase s, c_ch s)) (run_all (RDone 0 None True # replicate 2 RDrain)
     ((NewRelaySubscriber ''cam'' [])\<lparr>c_phase := Running, c_done := True, c_ch := [0]\<rparr>) sample_heap) = Some (Exited, [])"
  using closed_subscriber_drains [of "(NewRelaySubscriber ''cam'' [])\<lparr>c_phase := Running, c_done := True, c_ch := [0]\<rparr>"
    0 None True sample_heap]
  by (simp add: numeral_2_eq_2)

end
