(* ===== verification/Stream_Manager.thy ===== *)
theory Stream_Manager
  imports Fanout
begin

section \<open>The stream registry and its ingest sessions\<close>

text \<open>
  \<open>internal/stream/manager.go\<close> (\<open>StreamManager\<close>), the session table of \<open>internal/rtsp/ingester.go\<close>
  (\<open>IngestManager\<close>) and the relay table of \<open>internal/node/relay.go\<close> (\<open>RelayManager\<close>).

  The manager's map points to stream objects; an unregistered object stays behind, closed. The two
  tables start a goroutine per stream key; a goroutine's life is registering its stream and, at its
  end, the deferred clean-up, in the order in which Go runs the deferred calls. Network and RTSP
  negotiation decide only whether a goroutine gets as far as registering.

  The locale \<open>stream_registry\<close> is what the sessions and the engine rely on; it is interpreted on the
  manager. The main results: the live streams are exactly the registered ones, one per key; and two
  clean-up hazards, where a goroutine's deferred calls remove what belongs to another one.
\<close>

record stream_obj =
  so_key :: string
  so_node :: string
  so_stream :: live_stream

datatype hook = OnRegister string string | OnUnregister string

record manager =
  streams :: "string \<rightharpoonup> nat"
  stream_objs :: "stream_obj list"
  hooks :: "hook list"

definition NewStreamManager :: manager where
  "NewStreamManager = \<lparr>streams = Map.empty, stream_objs = [], hooks = []\<rparr>"

datatype manager_err = AlreadyLive string | StreamNotFound string

definition Register :: "string \<Rightarrow> string \<Rightarrow> manager \<Rightarrow> (manager_err + nat) \<times> manager" where
  "Register key node m =
     (if streams m key \<noteq> None then (Inl (AlreadyLive key), m)
      else let n = length (stream_objs m) in
        (Inr n, m\<lparr>streams := (streams m)(key \<mapsto> n),
                  stream_objs := stream_objs m @ [\<lparr>so_key = key, so_node = node, so_stream = newLiveStream\<rparr>],
                  hooks := hooks m @ [OnRegister key node]\<rparr>))"

text \<open>\<open>Unregister\<close>; \<open>ks\<close> is the order in which \<open>Close\<close> visits the stream's subscribers.\<close>

definition close_at :: "string list \<Rightarrow> nat \<Rightarrow> manager \<Rightarrow> manager" where
  "close_at ks i m = m\<lparr>stream_objs := (stream_objs m)[i := (stream_objs m ! i)
     \<lparr>so_stream := close_stream ks (so_stream (stream_objs m ! i))\<rparr>]\<rparr>"

definition Unregister :: "string list \<Rightarrow> string \<Rightarrow> manager \<Rightarrow> manager" where
  "Unregister ks key m =
     (case streams m key of
        None \<Rightarrow> m
      | Some i \<Rightarrow> (close_at ks i (m\<lparr>streams := map_delete key (streams m)\<rparr>))
                    \<lparr>hooks := hooks m @ [OnUnregister key]\<rparr>)"

definition Get :: "string \<Rightarrow> manager \<Rightarrow> nat option" where
  "Get key m = streams m key"

definition AllStreams :: "string list \<Rightarrow> manager \<Rightarrow> nat list" where
  "AllStreams ks m = map (\<lambda>k. the (streams m k)) ks"

definition Subscribe :: "string \<Rightarrow> subscriber \<Rightarrow> manager \<Rightarrow> manager_err option \<times> manager" where
  "Subscribe key sub m =
     (case streams m key of
        None \<Rightarrow> (Some (StreamNotFound key), m)
      | Some i \<Rightarrow> (None, m\<lparr>stream_objs := (stream_objs m)[i := (stream_objs m ! i)
           \<lparr>so_stream := AddSubscriber sub (so_stream (stream_objs m ! i))\<rparr>]\<rparr>))"

definition live_at :: "manager \<Rightarrow> nat \<Rightarrow> bool" where
  "live_at m i \<longleftrightarrow> i < length (stream_objs m) \<and> IsLive (so_stream (stream_objs m ! i))"

subsection \<open>The registry contract\<close>

locale stream_registry =
  fixes get :: "string \<Rightarrow> 'm \<Rightarrow> 's option"
    and reg :: "string \<Rightarrow> string \<Rightarrow> 'm \<Rightarrow> ('e + 's) \<times> 'm"
    and unreg :: "string \<Rightarrow> 'm \<Rightarrow> 'm"
  assumes reg_new: "get k m = None \<Longrightarrow> \<exists>s m'. reg k n m = (Inr s, m') \<and> get k m' = Some s"
    and reg_dup: "get k m \<noteq> None \<Longrightarrow> \<exists>e. reg k n m = (Inl e, m)"
    and reg_other: "j \<noteq> k \<Longrightarrow> get j (snd (reg k n m)) = get j m"
    and unreg_get: "get j (unreg k m) = (if j = k then None else get j m)"
begin

lemma reg_get: "get k (snd (reg k n m)) \<noteq> None"
  by (metis reg_new reg_dup option.distinct(1) snd_conv)

lemma reg_unreg: "get j (unreg k (snd (reg k n m))) = (if j = k then None else get j m)"
  by (simp add: unreg_get reg_other)

lemma reg_after_unreg: "\<exists>s m'. reg k n (unreg k m) = (Inr s, m') \<and> get k m' = Some s"
  by (rule reg_new) (simp add: unreg_get)

lemma reg_twice: "\<exists>e. reg k n' (snd (reg k n m)) = (Inl e, snd (reg k n m))"
  by (rule reg_dup) (rule reg_get)

end

interpretation mgr: stream_registry Get Register "Unregister ks" for ks
proof
  fix j k n m
  show "Get k m = None \<Longrightarrow> \<exists>s m'. Register k n m = (Inr s, m') \<and> Get k m' = Some s"
    by (simp add: Get_def Register_def Let_def)
  show "Get k m \<noteq> None \<Longrightarrow> \<exists>e. Register k n m = (Inl e, m)"
    by (simp add: Get_def Register_def)
  show "j \<noteq> k \<Longrightarrow> Get j (snd (Register k n m)) = Get j m"
    by (simp add: Get_def Register_def Let_def)
  show "Get j (Unregister ks k m) = (if j = k then None else Get j m)"
    by (auto simp: Get_def Unregister_def close_at_def map_delete_apply split: option.split)
qed

subsection \<open>Live means registered\<close>

definition mgr_inv :: "manager \<Rightarrow> bool" where
  "mgr_inv m \<longleftrightarrow> (\<forall>i. live_at m i \<longleftrightarrow> (\<exists>k. streams m k = Some i)) \<and>
     (\<forall>k i. streams m k = Some i \<longrightarrow> so_key (stream_objs m ! i) = k)"

lemma mgr_inv_bound: "mgr_inv m \<Longrightarrow> streams m k = Some i \<Longrightarrow> i < length (stream_objs m)"
  by (auto simp: mgr_inv_def live_at_def)

lemma mgr_inv_new: "mgr_inv NewStreamManager"
  by (simp add: mgr_inv_def live_at_def NewStreamManager_def)

lemma mgr_inv_inj: "mgr_inv m \<Longrightarrow> streams m j = Some i \<Longrightarrow> streams m k = Some i \<Longrightarrow> j = k"
  unfolding mgr_inv_def by metis

lemma IsLive_new: "IsLive newLiveStream"
  by (simp add: IsLive_def newLiveStream_def)

lemma not_IsLive_close: "\<not> IsLive (close_stream ks w)"
  by (simp add: IsLive_def close_stream_def close_done_def)

lemma IsLive_AddSubscriber [simp]: "IsLive (AddSubscriber sub w) = IsLive w"
  by (simp add: IsLive_def AddSubscriber_def)

lemma mgr_inv_Register:
  assumes m: "mgr_inv m"
  shows "mgr_inv (snd (Register key node m))"
proof (cases "streams m key")
  case None
  let ?m = "snd (Register key node m)"
  have *: "?m = m\<lparr>streams := (streams m)(key \<mapsto> length (stream_objs m)),
      stream_objs := stream_objs m @ [\<lparr>so_key = key, so_node = node, so_stream = newLiveStream\<rparr>],
      hooks := hooks m @ [OnRegister key node]\<rparr>"
    using None by (simp add: Register_def Let_def)
  have "live_at ?m i \<longleftrightarrow> live_at m i \<or> i = length (stream_objs m)" for i
    unfolding * by (auto simp: live_at_def nth_append IsLive_new less_Suc_eq)
  moreover have "(\<exists>k. streams ?m k = Some i) \<longleftrightarrow> (\<exists>k. streams m k = Some i) \<or> i = length (stream_objs m)" for i
    using None unfolding * by auto (metis option.distinct(1))+
  ultimately have "live_at ?m i \<longleftrightarrow> (\<exists>k. streams ?m k = Some i)" for i
    using m by (simp add: mgr_inv_def)
  moreover have "so_key (stream_objs ?m ! i) = k" if "streams ?m k = Some i" for k i
    using m that mgr_inv_bound [OF m] unfolding * by (auto simp: mgr_inv_def nth_append split: if_splits)
  ultimately show ?thesis by (simp add: mgr_inv_def)
qed (use m in \<open>simp add: Register_def\<close>)

lemma mgr_inv_Unregister:
  assumes m: "mgr_inv m"
  shows "mgr_inv (Unregister ks key m)"
proof (cases "streams m key")
  case (Some i)
  have b: "i < length (stream_objs m)" by (rule mgr_inv_bound [OF m Some])
  let ?m = "Unregister ks key m"
  have s: "streams ?m = map_delete key (streams m)"
    and o: "stream_objs ?m = (stream_objs m)[i := (stream_objs m ! i)\<lparr>so_stream := close_stream ks (so_stream (stream_objs m ! i))\<rparr>]"
    using Some by (simp_all add: Unregister_def close_at_def)
  have "live_at ?m j \<longleftrightarrow> live_at m j \<and> j \<noteq> i" for j
    using b by (auto simp: live_at_def o nth_list_update not_IsLive_close)
  moreover have "(\<exists>k. streams ?m k = Some j) \<longleftrightarrow> (\<exists>k. streams m k = Some j) \<and> j \<noteq> i" for j
    using Some mgr_inv_inj [OF m] unfolding s map_delete_apply by (metis option.distinct(1) option.inject)
  moreover have "streams ?m k = Some j \<Longrightarrow> so_key (stream_objs ?m ! j) = k" for k j
    using m b by (cases "j = i") (auto simp: s o mgr_inv_def map_delete_apply split: if_splits)
  ultimately show ?thesis using m by (simp add: mgr_inv_def)
qed (use m in \<open>simp add: Unregister_def\<close>)

lemma mgr_inv_Subscribe: "mgr_inv m \<Longrightarrow> mgr_inv (snd (Subscribe key sub m))"
proof (cases "streams m key")
  case (Some i)
  assume m: "mgr_inv m"
  have b: "i < length (stream_objs m)" by (rule mgr_inv_bound [OF m Some])
  with m Some show ?thesis
    by (auto simp: Subscribe_def mgr_inv_def live_at_def nth_list_update)
qed (simp add: Subscribe_def)

text \<open>Any sequence of operations on the manager.\<close>

datatype mgr_op = MRegister string string | MUnregister "string list" string | MSubscribe string subscriber

fun mgr_step :: "mgr_op \<Rightarrow> manager \<Rightarrow> manager" where
  "mgr_step (MRegister k n) m = snd (Register k n m)"
| "mgr_step (MUnregister ks k) m = Unregister ks k m"
| "mgr_step (MSubscribe k s) m = snd (Subscribe k s m)"

lemma mgr_inv_run: "mgr_inv m \<Longrightarrow> mgr_inv (fold mgr_step ops m)"
proof (induction ops arbitrary: m)
  case (Cons op ops)
  then show ?case
    by (cases op) (auto simp: mgr_inv_Register mgr_inv_Unregister mgr_inv_Subscribe)
qed simp

subsection \<open>Ingest sessions\<close>

text \<open>The goroutine \<open>ingest\<close> of a session: negotiating, streaming, or ended. A session's entry in
  \<open>sessions\<close> is its cancel function, identified here by the number of the session.\<close>

datatype task_phase = Negotiating | Streaming nat | Ended

record task =
  tk_key :: string
  tk_cancelled :: bool
  tk_phase :: task_phase

record ingest_mgr =
  sessions :: "string \<rightharpoonup> nat"
  tasks :: "task list"

definition NewIngestManager :: ingest_mgr where
  "NewIngestManager = \<lparr>sessions = Map.empty, tasks = []\<rparr>"

definition Start :: "string \<Rightarrow> ingest_mgr \<Rightarrow> ingest_mgr" where
  "Start key g =
     (if sessions g key \<noteq> None then g
      else g\<lparr>sessions := (sessions g)(key \<mapsto> length (tasks g)),
             tasks := tasks g @ [\<lparr>tk_key = key, tk_cancelled = False, tk_phase = Negotiating\<rparr>]\<rparr>)"

definition Stop :: "string \<Rightarrow> ingest_mgr \<Rightarrow> ingest_mgr" where
  "Stop key g =
     (case sessions g key of
        None \<Rightarrow> g
      | Some i \<Rightarrow> g\<lparr>sessions := map_delete key (sessions g), tasks := (tasks g)[i := (tasks g ! i)\<lparr>tk_cancelled := True\<rparr>]\<rparr>)"

definition remove_session :: "string \<Rightarrow> ingest_mgr \<Rightarrow> ingest_mgr" where
  "remove_session key g = g\<lparr>sessions := map_delete key (sessions g)\<rparr>"

definition set_phase :: "nat \<Rightarrow> task_phase \<Rightarrow> ingest_mgr \<Rightarrow> ingest_mgr" where
  "set_phase i ph g = g\<lparr>tasks := (tasks g)[i := (tasks g ! i)\<lparr>tk_phase := ph\<rparr>]\<rparr>"

text \<open>The end of \<open>ingest\<close>: the deferred \<open>remove\<close>, then the deferred \<open>Unregister\<close>.\<close>

definition ingest_end :: "string list \<Rightarrow> nat \<Rightarrow> ingest_mgr \<times> manager \<Rightarrow> ingest_mgr \<times> manager" where
  "ingest_end ks i = (\<lambda>(g, m). (let key = tk_key (tasks g ! i) in
     (remove_session key (set_phase i Ended g), Unregister ks key m)))"

text \<open>The middle of \<open>ingest\<close>: negotiation fails, or the stream is registered and the default
  subscribers are attached; a failing \<open>Register\<close> returns.\<close>

fun subscribe_all :: "string \<Rightarrow> subscriber list \<Rightarrow> manager \<Rightarrow> manager" where
  "subscribe_all key [] m = m"
| "subscribe_all key (s # ss) m = subscribe_all key ss (snd (Subscribe key s m))"

definition ingest_register ::
  "bool \<Rightarrow> string list \<Rightarrow> string \<Rightarrow> bool \<Rightarrow> hls \<Rightarrow> nat \<Rightarrow> ingest_mgr \<times> manager \<Rightarrow> ingest_mgr \<times> manager" where
  "ingest_register negotiated ks node with_minio st i = (\<lambda>(g, m).
     (let key = tk_key (tasks g ! i) in
      if \<not> negotiated then ingest_end ks i (g, m)
      else case Register key node m of
        (Inl e, m') \<Rightarrow> ingest_end ks i (g, m')
      | (Inr n, m') \<Rightarrow> (set_phase i (Streaming n) g, subscribe_all key (PublishSubscribers with_minio key st) m')))"

subsection \<open>Relay pulls\<close>

text \<open>\<open>RelayManager.EnsureRelay\<close> and \<open>pull\<close>. The node table is an argument (\<open>None\<close>: the registry cannot be
  read); \<open>connected\<close> tells whether the peer answered with a readable FLV stream.\<close>

record relay_mgr =
  active :: "string \<rightharpoonup> nat"
  pulls :: "string list"

datatype relay_err = ListNodes | NodeNotFound string

definition remove_relay :: "string \<Rightarrow> relay_mgr \<Rightarrow> relay_mgr" where
  "remove_relay key r = r\<lparr>active := map_delete key (active r)\<rparr>"

fun source_addr :: "(string \<times> string) list \<Rightarrow> string \<Rightarrow> string" where
  "source_addr [] nid = ''''"
| "source_addr ((i, a) # ns) nid = (if i = nid then a else source_addr ns nid)"

definition EnsureRelay ::
  "(string \<times> string) list option \<Rightarrow> string \<Rightarrow> string \<Rightarrow> relay_mgr \<Rightarrow> relay_err option \<times> relay_mgr" where
  "EnsureRelay nodes key src r =
     (if active r key \<noteq> None then (None, r)
      else let r1 = r\<lparr>active := (active r)(key \<mapsto> length (pulls r))\<rparr> in
        case nodes of
          None \<Rightarrow> (Some ListNodes, remove_relay key r1)
        | Some ns \<Rightarrow>
            if source_addr ns src = '''' then (Some (NodeNotFound src), remove_relay key r1)
            else (None, r1\<lparr>pulls := pulls r1 @ [key]\<rparr>))"

definition IsRelaying :: "string \<Rightarrow> relay_mgr \<Rightarrow> bool" where
  "IsRelaying key r \<longleftrightarrow> active r key \<noteq> None"

text \<open>The deferred calls of \<open>pull\<close>: \<open>Unregister\<close> first, then \<open>remove\<close>.\<close>

definition pull_end :: "string list \<Rightarrow> string \<Rightarrow> relay_mgr \<times> manager \<Rightarrow> relay_mgr \<times> manager" where
  "pull_end ks key = (\<lambda>(r, m). (remove_relay key r, Unregister ks key m))"

definition pull_register ::
  "bool \<Rightarrow> string list \<Rightarrow> string \<Rightarrow> string \<Rightarrow> hls \<Rightarrow> relay_mgr \<times> manager \<Rightarrow> relay_mgr \<times> manager" where
  "pull_register connected ks key src st = (\<lambda>(r, m).
     (if \<not> connected then pull_end ks key (r, m)
      else case Register key (src @ ''(relay)'') m of
        (Inl e, m') \<Rightarrow> pull_end ks key (r, m')
      | (Inr n, m') \<Rightarrow> (r, subscribe_all key (RelaySubscribers key st) m')))"

lemma streams_Subscribe [simp]: "streams (snd (Subscribe key sub m)) = streams m"
  by (simp add: Subscribe_def split: option.split)

lemma streams_subscribe_all [simp]: "streams (subscribe_all key ss m) = streams m"
  by (induction ss arbitrary: m) auto

lemma Unregister_closes:
  assumes "mgr_inv m" "Get key m = Some n"
  shows "\<not> live_at (Unregister ks key m) n"
  using assms mgr_inv_bound [of m key n]
  by (simp add: Get_def Unregister_def close_at_def live_at_def not_IsLive_close)

subsection \<open>Properties\<close>

text \<open>Property C24: after any sequence of registrations, removals and subscriptions the live streams are
  exactly the registered ones, each registered under its own key and under no other; a key can be
  registered iff it is not live.\<close>

theorem manager_live_iff_registered:
  "let m = fold mgr_step ops NewStreamManager in
   (\<forall>i. live_at m i \<longleftrightarrow> (\<exists>!k. Get k m = Some i)) \<and>
   (\<forall>k i. Get k m = Some i \<longrightarrow> so_key (stream_objs m ! i) = k) \<and>
   (\<forall>k n. (\<exists>i. fst (Register k n m) = Inr i) \<longleftrightarrow> Get k m = None)"
proof -
  let ?m = "fold mgr_step ops NewStreamManager"
  have i: "mgr_inv ?m" by (rule mgr_inv_run [OF mgr_inv_new])
  have "(\<exists>!k. Get k ?m = Some i) \<longleftrightarrow> (\<exists>k. streams ?m k = Some i)" for i
    unfolding Get_def using mgr_inv_inj [OF i] by blast
  moreover have "(\<exists>i. fst (Register k n ?m) = Inr i) \<longleftrightarrow> Get k ?m = None" for k n
    by (simp add: Register_def Get_def Let_def)
  ultimately show ?thesis using i by (simp add: Let_def mgr_inv_def Get_def)
qed

theorem manager_live_iff_registered_witness:
  "live_at (fold mgr_step [MRegister ''cam'' ''n1'', MRegister ''cam'' ''n2''] NewStreamManager) 0 \<and>
   (\<exists>!k. Get k (fold mgr_step [MRegister ''cam'' ''n1'', MRegister ''cam'' ''n2''] NewStreamManager) = Some 0)"
proof -
  let ?ops = "[MRegister ''cam'' ''n1'', MRegister ''cam'' ''n2'']"
  let ?m = "fold mgr_step ?ops NewStreamManager"
  have "live_at ?m 0"
    by (simp add: live_at_def Register_def NewStreamManager_def IsLive_new)
  moreover have "\<forall>i. live_at ?m i \<longleftrightarrow> (\<exists>!k. Get k ?m = Some i)"
    using manager_live_iff_registered [of ?ops] unfolding Let_def by (rule conjunct1)
  ultimately show ?thesis by metis
qed

text \<open>A relay pull for a key that is already live (its camera publishes here, say) fails to
  register, and its deferred \<open>Unregister\<close> then closes and removes that live stream, which is not its own.\<close>

theorem relay_pull_kills_live_stream:
  assumes "mgr_inv m" "Get key m = Some n"
  shows "let (r', m') = pull_register True ks key src st (r, m) in
     Get key m' = None \<and> live_at m n \<and> \<not> live_at m' n"
proof -
  from assms(2) mgr.reg_dup [of key m] obtain e where "Register key (src @ ''(relay)'') m = (Inl e, m)" by auto
  moreover have "live_at m n" using assms by (auto simp: mgr_inv_def Get_def)
  ultimately show ?thesis
    using Unregister_closes [OF assms] mgr.unreg_get [of key ks key m]
    by (simp add: pull_register_def pull_end_def)
qed

theorem relay_pull_kills_live_stream_witness:
  "let m = snd (Register ''cam'' ''n1'' NewStreamManager);
       (r', m') = pull_register True [] ''cam'' ''n2'' (new_hls 2 5 (\<lambda>_. '''') Map.empty None)
          (\<lparr>active = Map.empty, pulls = []\<rparr>, m) in
   Get ''cam'' m' = None \<and> live_at m 0 \<and> \<not> live_at m' 0"
  unfolding Let_def
  by (rule relay_pull_kills_live_stream [OF mgr_inv_Register [OF mgr_inv_new], unfolded Let_def])
    (simp add: Get_def Register_def NewStreamManager_def)

text \<open>When a camera is stopped and started again before the first goroutine has ended, the
  first goroutine's deferred \<open>remove\<close> deletes the new session's entry. The new session keeps running but
  can no longer be stopped, and a further \<open>Start\<close> begins a second pull of the same camera.\<close>

theorem ingest_restart_orphans_session:
  assumes "sessions g key = Some i" "i < length (tasks g)" "tk_key (tasks g ! i) = key"
  shows "let n = length (tasks g); g1 = Start key (Stop key g);
       (g2, m2) = ingest_end ks i (g1, m) in
     sessions g1 key = Some n \<and> sessions g2 key = None \<and>
     tasks g2 ! n = \<lparr>tk_key = key, tk_cancelled = False, tk_phase = Negotiating\<rparr> \<and>
     Stop key g2 = g2 \<and> sessions (Start key g2) key = Some (Suc n)"
  using assms
  by (simp add: Let_def Start_def Stop_def ingest_end_def remove_session_def set_phase_def nth_append)

theorem ingest_restart_orphans_session_witness:
  "let g = Start ''cam'' NewIngestManager; (g2, m2) = ingest_end [] 0 (Start ''cam'' (Stop ''cam'' g), NewStreamManager) in
   sessions g2 ''cam'' = None \<and> tk_phase (tasks g2 ! 1) = Negotiating"
proof -
  let ?g = "Start ''cam'' NewIngestManager"
  have "sessions ?g ''cam'' = Some 0" "0 < length (tasks ?g)" "tk_key (tasks ?g ! 0) = ''cam''" "length (tasks ?g) = 1"
    by (simp_all add: Start_def NewIngestManager_def)
  with ingest_restart_orphans_session [OF this(1-3), of "[]" NewStreamManager] show ?thesis
    by (simp add: Let_def split: prod.splits)
qed

end
