(* ===== verification/Stream_Engine.thy ===== *)
theory Stream_Engine
  imports Stream_Manager
begin

section \<open>The stream engine\<close>

text \<open>
  \<open>internal/stream/engine.go\<close> and \<open>internal/stream/key.go\<close>: \<open>EnsureStream\<close>, \<open>StopStream\<close> and \<open>State\<close> over
  the entry table, one entry object per attempt.

  \<open>EnsureStream\<close> looks the key up in the stream manager at several instants while other goroutines
  change it; the manager as it is at each of them is an argument (the fast path, the check under the
  write lock, and the polls until the deadline). The \<open>IngestStarter\<close> interface value is one of the three
  things a Go interface can be: nil, a typed nil pointer, or a usable value.
\<close>

record stream_key =
  CamID :: string
  ProfileID :: string

definition key_string :: "stream_key \<Rightarrow> string" where
  "key_string k = CamID k @ ''/'' @ ProfileID k"

definition IsZero :: "stream_key \<Rightarrow> bool" where
  "IsZero k \<longleftrightarrow> CamID k = '''' \<or> ProfileID k = ''''"

datatype stream_state = StateRequested | StateStarting | StateLive | StateDegraded | StateReconnecting | StateStopped

record entry =
  StreamID :: string
  e_key :: stream_key
  e_started :: time
  e_state :: stream_state

record engine =
  entries :: "string \<rightharpoonup> nat"
  entry_objs :: "entry list"

definition NewEngine :: engine where
  "NewEngine = \<lparr>entries = Map.empty, entry_objs = []\<rparr>"

datatype ingest_iface = NilIface | TypedNil | Usable

datatype ensure_err = KeyRequired | IngestNotConfigured | StartIngest string | NotStartedInTime string

datatype ensure_result = Panic | Failed ensure_err | Ready string nat

definition setState :: "stream_state \<Rightarrow> nat \<Rightarrow> engine \<Rightarrow> engine" where
  "setState st i e = e\<lparr>entry_objs := (entry_objs e)[i := (entry_objs e ! i)\<lparr>e_state := st\<rparr>]\<rparr>"

definition delete_entry :: "string \<Rightarrow> engine \<Rightarrow> engine" where
  "delete_entry k e = e\<lparr>entries := map_delete k (entries e)\<rparr>"

definition new_entry :: "string \<Rightarrow> stream_key \<Rightarrow> time \<Rightarrow> engine \<Rightarrow> engine" where
  "new_entry sid key now e =
     e\<lparr>entries := (entries e)(key_string key \<mapsto> length (entry_objs e)),
       entry_objs := entry_objs e @ [\<lparr>StreamID = sid, e_key = key, e_started = now, e_state = StateRequested\<rparr>]\<rparr>"

text \<open>The poll loop: the manager at each poll before the deadline.\<close>

fun wait_live :: "string \<Rightarrow> manager list \<Rightarrow> nat option" where
  "wait_live k [] = None"
| "wait_live k (m # ms) = (case Get k m of Some s \<Rightarrow> Some s | None \<Rightarrow> wait_live k ms)"

definition existing :: "string \<Rightarrow> manager \<Rightarrow> engine \<Rightarrow> (string \<times> nat) option" where
  "existing k m e =
     (case entries e k of
        None \<Rightarrow> None
      | Some i \<Rightarrow> (case Get k m of None \<Rightarrow> None | Some s \<Rightarrow> Some (StreamID (entry_objs e ! i), s)))"

text \<open>\<open>EnsureStream\<close>. \<open>sid\<close> is the new UUID, \<open>start_err\<close> what \<open>ingest.Start\<close> returns. Calling a method that
  locks a mutex on a nil \<open>*IngestManager\<close> panics; the entry made before stays.\<close>

definition EnsureStream ::
  "ingest_iface \<Rightarrow> string option \<Rightarrow> string \<Rightarrow> time \<Rightarrow> manager \<Rightarrow> manager \<Rightarrow> manager list \<Rightarrow> stream_key \<Rightarrow>
   engine \<Rightarrow> ensure_result \<times> engine" where
  "EnsureStream ing start_err sid now m1 m2 polls key e =
     (if IsZero key then (Failed KeyRequired, e) else
      let k = key_string key in
      case existing k m1 e of Some (i, s) \<Rightarrow> (Ready i s, e) | None \<Rightarrow>
      case existing k m2 e of Some (i, s) \<Rightarrow> (Ready i s, e) | None \<Rightarrow>
      let n = length (entry_objs e);
          e1 = setState StateStarting n (new_entry sid key now (delete_entry k e)) in
      case ing of
        NilIface \<Rightarrow> (Failed IngestNotConfigured, delete_entry k (setState StateStopped n e1))
      | TypedNil \<Rightarrow> (Panic, e1)
      | Usable \<Rightarrow>
          (case start_err of
             Some err \<Rightarrow> (Failed (StartIngest err), delete_entry k (setState StateStopped n e1))
           | None \<Rightarrow>
               (case wait_live k polls of
                  Some s \<Rightarrow> (Ready sid s, setState StateLive n e1)
                | None \<Rightarrow> (Failed (NotStartedInTime k), setState StateStopped n e1))))"

text \<open>\<open>StopStream\<close>: the engine, and the key for which \<open>ingest.Stop\<close> is called, if it is.\<close>

definition StopStream :: "ingest_iface \<Rightarrow> stream_key \<Rightarrow> engine \<Rightarrow> string option \<times> engine" where
  "StopStream ing key e =
     (let k = key_string key in
      case entries e k of
        None \<Rightarrow> (None, e)
      | Some i \<Rightarrow> (if ing = NilIface then None else Some k, setState StateStopped i (delete_entry k e)))"

definition State :: "stream_key \<Rightarrow> engine \<Rightarrow> stream_state \<times> string \<times> bool" where
  "State key e =
     (case entries e (key_string key) of
        None \<Rightarrow> (StateStopped, '''', False)
      | Some i \<Rightarrow> (e_state (entry_objs e ! i), StreamID (entry_objs e ! i), True))"

subsection \<open>Well-formed engines\<close>

definition engine_inv :: "engine \<Rightarrow> bool" where
  "engine_inv e \<longleftrightarrow> (\<forall>k i. entries e k = Some i \<longrightarrow>
     i < length (entry_objs e) \<and> key_string (e_key (entry_objs e ! i)) = k)"

lemma key_string_inj:
  assumes "key_string a = key_string b" "CHR ''/'' \<notin> set (CamID a)" "CHR ''/'' \<notin> set (CamID b)"
  shows "CamID a = CamID b \<and> ProfileID a = ProfileID b"
  using arg_cong [OF assms(1), of "Split CHR ''/''"] assms
  by (auto simp: key_string_def Split_append)

lemma engine_inv_new: "engine_inv NewEngine"
  by (simp add: engine_inv_def NewEngine_def)

lemma setState_frame [simp]:
  "entries (setState st i e) = entries e" "length (entry_objs (setState st i e)) = length (entry_objs e)"
  "e_key (entry_objs (setState st i e) ! j) = e_key (entry_objs e ! j)"
  "StreamID (entry_objs (setState st i e) ! j) = StreamID (entry_objs e ! j)"
proof -
  show "entries (setState st i e) = entries e" "length (entry_objs (setState st i e)) = length (entry_objs e)"
    by (simp_all add: setState_def)
  show "e_key (entry_objs (setState st i e) ! j) = e_key (entry_objs e ! j)"
    "StreamID (entry_objs (setState st i e) ! j) = StreamID (entry_objs e ! j)"
    by (cases "i = j"; cases "j < length (entry_objs e)"; simp add: setState_def list_update_beyond)
      (cases "i = j"; cases "j < length (entry_objs e)"; simp add: setState_def list_update_beyond)
qed

lemma setState_state:
  "i < length (entry_objs e) \<Longrightarrow>
   e_state (entry_objs (setState st i e) ! j) = (if j = i then st else e_state (entry_objs e ! j))"
  by (simp add: setState_def nth_list_update)

lemma delete_entry_frame [simp]: "entry_objs (delete_entry k e) = entry_objs e"
  by (simp add: delete_entry_def)

lemma entries_delete [simp]: "entries (delete_entry k e) = map_delete k (entries e)"
  by (simp add: delete_entry_def)

lemma new_entry_frame [simp]:
  "entries (new_entry sid key now e) = (entries e)(key_string key \<mapsto> length (entry_objs e))"
  "entry_objs (new_entry sid key now e) = entry_objs e @ [\<lparr>StreamID = sid, e_key = key, e_started = now, e_state = StateRequested\<rparr>]"
  by (simp_all add: new_entry_def)

lemma engine_inv_setState: "engine_inv e \<Longrightarrow> engine_inv (setState st i e)"
  by (simp add: engine_inv_def)

lemma engine_inv_delete: "engine_inv e \<Longrightarrow> engine_inv (delete_entry k e)"
  by (auto simp: engine_inv_def delete_entry_def map_delete_apply split: if_splits)

lemma engine_inv_new_entry: "engine_inv e \<Longrightarrow> engine_inv (new_entry sid key now e)"
  by (fastforce simp: engine_inv_def nth_append)

lemma engine_inv_EnsureStream:
  assumes "engine_inv e"
  shows "engine_inv (snd (EnsureStream ing start_err sid now m1 m2 polls key e))"
  using assms
  by (simp add: EnsureStream_def Let_def engine_inv_setState engine_inv_delete engine_inv_new_entry
      split: option.split ingest_iface.split)

lemma engine_inv_StopStream: "engine_inv e \<Longrightarrow> engine_inv (snd (StopStream ing key e))"
  by (simp add: StopStream_def Let_def engine_inv_setState engine_inv_delete split: option.split)

text \<open>The engine when an attempt begins, and the state an entry ends up in.\<close>

definition started :: "string \<Rightarrow> stream_key \<Rightarrow> time \<Rightarrow> stream_state \<Rightarrow> engine \<Rightarrow> engine" where
  "started sid key now st e = setState st (length (entry_objs e))
     (setState StateStarting (length (entry_objs e)) (new_entry sid key now (delete_entry (key_string key) e)))"

lemma State_started: "State key (started sid key now st e) = (st, sid, True)"
  by (simp add: started_def State_def setState_state)

lemma State_deleted: "State key (delete_entry (key_string key) e) = (StateStopped, '''', False)"
  by (simp add: State_def)

lemma State_starting:
  "State key (setState StateStarting (length (entry_objs e)) (new_entry sid key now (delete_entry (key_string key) e))) =
   (StateStarting, sid, True)"
  by (simp add: State_def setState_state)

lemma State_other:
  assumes "engine_inv e" "key_string j \<noteq> key_string key"
  shows "State j (started sid key now st e) = State j e"
    "State j (delete_entry (key_string key) (started sid key now st e)) = State j e"
    "State j (setState StateStarting (length (entry_objs e)) (new_entry sid key now (delete_entry (key_string key) e))) = State j e"
  using assms
  by (auto simp: State_def started_def setState_state nth_append engine_inv_def split: option.split)

text \<open>The slow path, by what the ingest answers.\<close>

lemma EnsureStream_slow:
  assumes "\<not> IsZero key" "existing (key_string key) m1 e = None" "existing (key_string key) m2 e = None"
  shows "EnsureStream ing start_err sid now m1 m2 polls key e =
     (case ing of
        NilIface \<Rightarrow> (Failed IngestNotConfigured, delete_entry (key_string key) (started sid key now StateStopped e))
      | TypedNil \<Rightarrow> (Panic, setState StateStarting (length (entry_objs e)) (new_entry sid key now (delete_entry (key_string key) e)))
      | Usable \<Rightarrow>
          (case start_err of
             Some err \<Rightarrow> (Failed (StartIngest err), delete_entry (key_string key) (started sid key now StateStopped e))
           | None \<Rightarrow>
               (case wait_live (key_string key) polls of
                  Some s \<Rightarrow> (Ready sid s, started sid key now StateLive e)
                | None \<Rightarrow> (Failed (NotStartedInTime (key_string key)), started sid key now StateStopped e))))"
  using assms by (simp add: EnsureStream_def Let_def started_def split: ingest_iface.split option.split)

lemma wait_live_iff: "wait_live k ms \<noteq> None \<longleftrightarrow> (\<exists>m \<in> set ms. Get k m \<noteq> None)"
  by (induction ms) (auto split: option.split)

lemma existing_ready: "existing k m e = Some (i, s) \<Longrightarrow> Get k m' = Some s' \<Longrightarrow> existing k m' e = Some (i, s')"
  by (auto simp: existing_def split: option.splits)

lemma existing_started: "Get (key_string key) m = Some s \<Longrightarrow> existing (key_string key) m (started sid key now st e) = Some (sid, s)"
  by (simp add: existing_def started_def)

subsection \<open>Properties\<close>

text \<open>Property C26: \<open>EnsureStream\<close> is idempotent. After a call that returned a stream id, a later call that
  finds the stream in the manager returns the same id and changes nothing, whatever the ingest would
  answer.\<close>

theorem ensure_stream_idempotent:
  assumes "EnsureStream ing start_err sid now m1 m2 polls key e = (Ready i s, e')"
    and "Get (key_string key) m = Some s'"
  shows "EnsureStream ing' start_err' sid' now' m m2' polls' key e' = (Ready i s', e')"
proof -
  have z: "\<not> IsZero key" using assms(1) by (auto simp: EnsureStream_def)
  have "existing (key_string key) m e' = Some (i, s')"
  proof (cases "existing (key_string key) m1 e = None \<and> existing (key_string key) m2 e = None")
    case True
    with assms(1) EnsureStream_slow [OF z, of m1 e m2] have "i = sid \<and> e' = started sid key now StateLive e"
      by (auto split: ingest_iface.splits option.splits)
    with assms(2) show ?thesis by (simp add: existing_started)
  next
    case False
    with assms(1) z existing_ready [OF _ assms(2), of m1 e] existing_ready [OF _ assms(2), of m2 e] show ?thesis
      by (auto simp: EnsureStream_def Let_def split: option.splits)
  qed
  with z show ?thesis by (simp add: EnsureStream_def Let_def)
qed

definition sample_key :: stream_key where
  "sample_key = \<lparr>CamID = ''c'', ProfileID = ''p''\<rparr>"

theorem ensure_stream_idempotent_witness:
  "let m = snd (Register (key_string sample_key) ''n'' NewStreamManager);
       e = snd (EnsureStream Usable None ''id1'' 0 NewStreamManager NewStreamManager [NewStreamManager, m] sample_key NewEngine) in
   EnsureStream NilIface None ''id2'' 9 m m [] sample_key e = (Ready ''id1'' 0, e)"
proof -
  let ?m = "snd (Register (key_string sample_key) ''n'' NewStreamManager)"
  let ?r = "EnsureStream Usable None ''id1'' 0 NewStreamManager NewStreamManager [NewStreamManager, ?m] sample_key NewEngine"
  have g: "Get (key_string sample_key) ?m = Some 0" "Get (key_string sample_key) NewStreamManager = None"
    by (simp_all add: Get_def Register_def NewStreamManager_def)
  have "?r = (Ready ''id1'' 0, snd ?r)"
    using g by (simp add: EnsureStream_def Let_def IsZero_def sample_key_def existing_def NewEngine_def)
  from ensure_stream_idempotent [OF this g(1)] show ?thesis by (simp add: Let_def)
qed

text \<open>What a call that has to start the stream does. Without an ingest, or when the ingest
  cannot start, it fails and leaves no entry; when the stream appears in time it is live under the new
  id; when it does not, the call fails and a stopped entry stays; and with an interface that holds a
  nil \<open>*IngestManager\<close> it panics and the entry stays in state starting. Other streams are not affected.\<close>

theorem ensure_stream_outcomes:
  assumes "engine_inv e" "\<not> IsZero key" "Get (key_string key) m1 = None" "Get (key_string key) m2 = None"
  shows "let (res, e') = EnsureStream ing start_err sid now m1 m2 polls key e in
     (case ing of
        NilIface \<Rightarrow> res = Failed IngestNotConfigured \<and> State key e' = (StateStopped, '''', False)
      | TypedNil \<Rightarrow> res = Panic \<and> State key e' = (StateStarting, sid, True)
      | Usable \<Rightarrow>
          (case start_err of
             Some err \<Rightarrow> res = Failed (StartIngest err) \<and> State key e' = (StateStopped, '''', False)
           | None \<Rightarrow>
               if \<exists>m \<in> set polls. Get (key_string key) m \<noteq> None
               then (\<exists>s. res = Ready sid s) \<and> State key e' = (StateLive, sid, True)
               else res = Failed (NotStartedInTime (key_string key)) \<and> State key e' = (StateStopped, sid, True))) \<and>
     (\<forall>j. key_string j \<noteq> key_string key \<longrightarrow> State j e' = State j e)"
proof -
  have ex: "existing (key_string key) m1 e = None" "existing (key_string key) m2 e = None"
    using assms(3,4) by (auto simp: existing_def split: option.split)
  show ?thesis
    unfolding EnsureStream_slow [OF assms(2) ex] wait_live_iff [symmetric]
    using State_other [OF assms(1)]
    by (cases ing; cases start_err; cases "wait_live (key_string key) polls")
      (simp_all add: State_started State_deleted State_starting Let_def)
qed

theorem ensure_stream_outcomes_witness:
  "let (res, e') = EnsureStream TypedNil None ''id'' 0 NewStreamManager NewStreamManager [] sample_key NewEngine in
   res = Panic \<and> State sample_key e' = (StateStarting, ''id'', True)"
  using ensure_stream_outcomes [OF engine_inv_new, of sample_key NewStreamManager NewStreamManager TypedNil None "''id''" 0 "[]"]
  by (simp add: IsZero_def sample_key_def Get_def NewStreamManager_def split: prod.splits)

end
