(* ===== verification/Protocol_Taxonomy.thy ===== *)
theory Protocol_Taxonomy
  imports Go_Strings "HOL-Library.List_Lexorder" "HOL-Library.Char_ord" "HOL-Library.Product_Lexorder"
begin

section \<open>The protocol taxonomy\<close>

text \<open>
  \<open>internal/protocol/taxonomy.go\<close>: adapter metadata, its validation, the registry with its three indexes
  and the negotiation of a delivery protocol. A nil map and an empty one are read alike in Go, so
  \<open>cloneCapabilities\<close> is a copy of the value.

  The abstract registry is the list of registered adapters. The refinement lemma \<open>index_ok\<close> ties the
  indexes to it; from it follow that a registry can be built exactly from valid adapters with distinct
  ids and distinct wire names per class, that lookups return what was registered, that the adapters of a
  class are listed by priority and id, and that negotiation picks the best adapter that both sides have.
\<close>

datatype capability = CapString string | CapBool bool

record adapter =
  a_id :: string
  a_class :: string
  WireName :: string
  DisplayName :: string
  Capabilities :: "(string \<times> capability) list"
  Priority :: int

abbreviation "ClassIngest \<equiv> ''ingest''"
abbreviation "ClassControl \<equiv> ''control''"
abbreviation "ClassInternalTransport \<equiv> ''internal_transport''"
abbreviation "ClassDelivery \<equiv> ''delivery''"
abbreviation "ClassRestream \<equiv> ''restream''"
abbreviation "ClassStorage \<equiv> ''storage''"

definition classByID :: "string \<rightharpoonup> string" where
  "classByID = map_of
     [(''ingest.rtsp'', ClassIngest), (''control.http'', ClassControl),
      (''internal_transport.relay_flv'', ClassInternalTransport),
      (''internal_transport.grpc_stream'', ClassInternalTransport),
      (''delivery.webrtc'', ClassDelivery), (''delivery.hls'', ClassDelivery),
      (''restream.rtsp'', ClassRestream), (''storage.recorder'', ClassStorage),
      (''storage.object_storage'', ClassStorage)]"

definition validClasses :: "string list" where
  "validClasses = [ClassIngest, ClassControl, ClassInternalTransport, ClassDelivery, ClassRestream, ClassStorage]"

definition Valid :: "string \<Rightarrow> bool" where
  "Valid c \<longleftrightarrow> c \<in> set validClasses"

definition Known :: "string \<Rightarrow> bool" where
  "Known i \<longleftrightarrow> classByID i \<noteq> None"

datatype protocol_err =
  IDRequired | ClassRequired | ClassInvalid string | WireRequired | PriorityNegative
| WrongClass string string string | DuplicateID string | DuplicateWire string string string
| Unsupported string "string list"

definition Validate :: "adapter \<Rightarrow> protocol_err option" where
  "Validate a =
     (if a_id a = '''' then Some IDRequired
      else if a_class a = '''' then Some ClassRequired
      else if \<not> Valid (a_class a) then Some (ClassInvalid (a_class a))
      else if WireName a = '''' then Some WireRequired
      else if Priority a < 0 then Some PriorityNegative
      else case classByID (a_id a) of
        Some c \<Rightarrow> if c \<noteq> a_class a then Some (WrongClass (a_id a) c (a_class a)) else None
      | None \<Rightarrow> None)"

definition mk_adapter :: "string \<Rightarrow> string \<Rightarrow> string \<Rightarrow> string \<Rightarrow> (string \<times> capability) list \<Rightarrow> int \<Rightarrow> adapter" where
  "mk_adapter i c w d caps p = \<lparr>a_id = i, a_class = c, WireName = w, DisplayName = d, Capabilities = caps, Priority = p\<rparr>"

definition DefaultAdapters :: "adapter list" where
  "DefaultAdapters =
     [mk_adapter ''ingest.rtsp'' ClassIngest ''rtsp'' ''RTSP ingest'' [(''source'', CapString ''camera'')] 10,
      mk_adapter ''control.http'' ClassControl ''http'' ''HTTP control'' [(''orchestration'', CapBool True)] 10,
      mk_adapter ''internal_transport.relay_flv'' ClassInternalTransport ''relay_flv'' ''Relay FLV''
        [(''service_to_service'', CapBool True)] 10,
      mk_adapter ''delivery.webrtc'' ClassDelivery ''webrtc'' ''WebRTC delivery''
        [(''reconnect'', CapBool True), (''supports_audio'', CapBool False)] 10,
      mk_adapter ''delivery.hls'' ClassDelivery ''hls'' ''HLS delivery''
        [(''reconnect'', CapBool True), (''supports_audio'', CapBool False)] 20,
      mk_adapter ''restream.rtsp'' ClassRestream ''rtsp'' ''RTSP restream'' [(''machine_egress'', CapBool True)] 10,
      mk_adapter ''storage.recorder'' ClassStorage ''recorder'' ''Recorder storage'' [(''persistence'', CapBool True)] 10]"

subsection \<open>The registry\<close>

record registry =
  byID :: "string \<rightharpoonup> adapter"
  idsByClass :: "string \<Rightarrow> string list"
  wireByClass :: "string \<Rightarrow> string \<rightharpoonup> string"

definition empty_registry :: registry where
  "empty_registry = \<lparr>byID = Map.empty, idsByClass = (\<lambda>_. []), wireByClass = (\<lambda>_. Map.empty)\<rparr>"

definition register :: "adapter \<Rightarrow> registry \<Rightarrow> protocol_err + registry" where
  "register a r =
     (case Validate a of Some e \<Rightarrow> Inl e | None \<Rightarrow>
      if byID r (a_id a) \<noteq> None then Inl (DuplicateID (a_id a)) else
      case wireByClass r (a_class a) (WireName a) of
        Some i \<Rightarrow> Inl (DuplicateWire (WireName a) (a_class a) i)
      | None \<Rightarrow> Inr (r\<lparr>byID := (byID r)(a_id a \<mapsto> a),
                       idsByClass := (idsByClass r)(a_class a := idsByClass r (a_class a) @ [a_id a]),
                       wireByClass := (wireByClass r)(a_class a := (wireByClass r (a_class a))(WireName a \<mapsto> a_id a))\<rparr>))"

fun register_all :: "adapter list \<Rightarrow> registry \<Rightarrow> protocol_err + registry" where
  "register_all [] r = Inr r"
| "register_all (a # as) r = (case register a r of Inl e \<Rightarrow> Inl e | Inr r' \<Rightarrow> register_all as r')"

definition order_key :: "adapter \<Rightarrow> int \<times> string" where
  "order_key a = (Priority a, a_id a)"

definition sort_classes :: "registry \<Rightarrow> registry" where
  "sort_classes r = r\<lparr>idsByClass := (\<lambda>c. sort_key (\<lambda>i. order_key (the (byID r i))) (idsByClass r c))\<rparr>"

definition NewRegistry :: "adapter list \<Rightarrow> protocol_err + registry" where
  "NewRegistry as = (case register_all as empty_registry of Inl e \<Rightarrow> Inl e | Inr r \<Rightarrow> Inr (sort_classes r))"

definition DefaultRegistry :: "protocol_err + registry" where
  "DefaultRegistry = NewRegistry DefaultAdapters"

definition Lookup :: "string \<Rightarrow> registry \<Rightarrow> adapter option" where
  "Lookup i r = byID r i"

definition LookupWire :: "string \<Rightarrow> string \<Rightarrow> registry \<Rightarrow> adapter option" where
  "LookupWire c w r = (case wireByClass r c w of None \<Rightarrow> None | Some i \<Rightarrow> Lookup i r)"

definition AdaptersForClass :: "string \<Rightarrow> registry \<Rightarrow> adapter list" where
  "AdaptersForClass c r = map (\<lambda>i. the (Lookup i r)) (idsByClass r c)"

definition IDsForClass :: "string \<Rightarrow> registry \<Rightarrow> string list" where
  "IDsForClass c r = idsByClass r c"

definition SupportedWireNames :: "string \<Rightarrow> registry \<Rightarrow> string list" where
  "SupportedWireNames c r = map WireName (AdaptersForClass c r)"

definition Negotiate :: "string \<Rightarrow> string list \<Rightarrow> registry \<Rightarrow> protocol_err + adapter" where
  "Negotiate c client r =
     (let supported = set (filter (\<lambda>p. p \<noteq> '''') client) in
      case find (\<lambda>a. WireName a \<in> supported \<or> a_id a \<in> supported) (AdaptersForClass c r) of
        Some a \<Rightarrow> Inr a
      | None \<Rightarrow> Inl (Unsupported c client))"

definition NegotiateDelivery :: "string list \<Rightarrow> registry \<Rightarrow> protocol_err + adapter" where
  "NegotiateDelivery client r = Negotiate ClassDelivery client r"

subsection \<open>The indexes refine the list of adapters\<close>

definition class_wire :: "adapter \<Rightarrow> string \<times> string" where
  "class_wire a = (a_class a, WireName a)"

definition admissible :: "adapter list \<Rightarrow> bool" where
  "admissible as \<longleftrightarrow> list_all (\<lambda>a. Validate a = None) as \<and> distinct (map a_id as) \<and> distinct (map class_wire as)"

definition index_ok :: "adapter list \<Rightarrow> registry \<Rightarrow> bool" where
  "index_ok as r \<longleftrightarrow> admissible as \<and>
     (\<forall>i. byID r i = map_of (map (\<lambda>a. (a_id a, a)) as) i) \<and>
     (\<forall>c w. wireByClass r c w = map_of (map (\<lambda>a. (class_wire a, a_id a)) as) (c, w)) \<and>
     (\<forall>c. idsByClass r c = map a_id (filter (\<lambda>a. a_class a = c) as))"

lemma map_of_snoc: "k \<notin> fst ` set xs \<Longrightarrow> map_of (xs @ [(k, v)]) = (map_of xs)(k \<mapsto> v)"
  by (induction xs) auto

lemma map_of_keyed_None: "map_of (map (\<lambda>a. (f a, g a)) xs) k = None \<longleftrightarrow> k \<notin> set (map f xs)"
  by (induction xs) auto

lemma index_register:
  assumes "index_ok as r"
  shows "(\<exists>r'. register a r = Inr r' \<and> index_ok (as @ [a]) r') \<longleftrightarrow> admissible (as @ [a])"
    and "(\<exists>e. register a r = Inl e) \<longleftrightarrow> \<not> admissible (as @ [a])"
proof -
  have id: "byID r (a_id a) = None \<longleftrightarrow> a_id a \<notin> set (map a_id as)"
    using assms by (simp add: index_ok_def map_of_keyed_None)
  have wn: "wireByClass r (a_class a) (WireName a) = None \<longleftrightarrow> class_wire a \<notin> set (map class_wire as)"
    using assms by (simp add: index_ok_def map_of_keyed_None class_wire_def)
  have ad: "admissible (as @ [a]) \<longleftrightarrow> Validate a = None \<and> byID r (a_id a) = None \<and>
      wireByClass r (a_class a) (WireName a) = None"
    using assms id wn by (auto simp: admissible_def index_ok_def)
  show err: "(\<exists>e. register a r = Inl e) \<longleftrightarrow> \<not> admissible (as @ [a])"
    unfolding ad by (auto simp: register_def split: option.split)
  have "index_ok (as @ [a]) r'" if r': "register a r = Inr r'" for r'
  proof -
    have ok: "admissible (as @ [a])" using err r' by auto
    then have fresh: "a_id a \<notin> fst ` set (map (\<lambda>a. (a_id a, a)) as)"
      "class_wire a \<notin> fst ` set (map (\<lambda>a. (class_wire a, a_id a)) as)"
      by (force simp: admissible_def)+
    show ?thesis
      using assms r' ok map_of_snoc [OF fresh(1), of a] map_of_snoc [OF fresh(2), of "a_id a"]
      by (auto simp: index_ok_def register_def class_wire_def split: option.splits if_splits)
  qed
  moreover have "\<exists>r'. register a r = Inr r'" if "admissible (as @ [a])"
    using that err by (cases "register a r") auto
  ultimately show "(\<exists>r'. register a r = Inr r' \<and> index_ok (as @ [a]) r') \<longleftrightarrow> admissible (as @ [a])"
    using err by (cases "register a r") auto
qed

lemma admissible_prefix: "admissible (as @ bs) \<Longrightarrow> admissible as"
  by (auto simp: admissible_def)

lemma index_empty: "index_ok [] empty_registry"
  by (simp add: index_ok_def admissible_def empty_registry_def)

lemma register_all_index:
  assumes "index_ok as r"
  shows "(if admissible (as @ bs) then \<exists>r'. register_all bs r = Inr r' \<and> index_ok (as @ bs) r'
          else \<exists>e. register_all bs r = Inl e)"
  using assms
proof (induction bs arbitrary: as r)
  case Nil
  then show ?case by (simp add: index_ok_def)
next
  case (Cons b bs)
  show ?case
  proof (cases "admissible (as @ [b])")
    case True
    with index_register(1) [OF Cons.prems, of b] obtain r' where "register b r = Inr r'" "index_ok (as @ [b]) r'"
      by auto
    with Cons.IH [of "as @ [b]" r'] show ?thesis by (auto split: if_splits)
  next
    case False
    with index_register(2) [OF Cons.prems, of b] obtain e where "register b r = Inl e" by auto
    moreover have "\<not> admissible (as @ b # bs)"
      using False admissible_prefix [of "as @ [b]" bs] by auto
    ultimately show ?thesis by simp
  qed
qed

lemma insort_key_map: "insort_key k (g x) (map g xs) = map g (insort_key (\<lambda>a. k (g a)) x xs)"
  by (induction xs) auto

lemma sort_key_map: "sort_key k (map g xs) = map g (sort_key (\<lambda>a. k (g a)) xs)"
  by (induction xs) (auto simp: insort_key_map)

lemma insort_key_eq: "(\<And>a. a \<in> set (x # xs) \<Longrightarrow> k a = k' a) \<Longrightarrow> insort_key k x xs = insort_key k' x xs"
  by (induction xs) auto

lemma sort_key_eq: "(\<And>a. a \<in> set xs \<Longrightarrow> k a = k' a) \<Longrightarrow> sort_key k xs = sort_key k' xs"
  by (induction xs) (auto intro: insort_key_eq)

lemma byID_index: "index_ok as r \<Longrightarrow> a \<in> set as \<Longrightarrow> byID r (a_id a) = Some a"
  by (auto simp: index_ok_def admissible_def intro!: map_of_is_SomeI simp: distinct_map comp_def)

lemma wire_index:
  assumes "index_ok as r" "a \<in> set as"
  shows "wireByClass r (a_class a) (WireName a) = Some (a_id a)"
proof -
  have "map_of (map (\<lambda>a. (class_wire a, a_id a)) as) (class_wire a) = Some (a_id a)"
    using assms by (intro map_of_is_SomeI) (auto simp: index_ok_def admissible_def comp_def)
  with assms(1) show ?thesis by (simp add: index_ok_def class_wire_def)
qed

text \<open>The adapters of a class, as the sorted registry lists them.\<close>

definition class_order :: "string \<Rightarrow> adapter list \<Rightarrow> adapter list" where
  "class_order c as = sort_key order_key (filter (\<lambda>a. a_class a = c) as)"

lemma AdaptersForClass_sorted:
  assumes "index_ok as r"
  shows "AdaptersForClass c (sort_classes r) = class_order c as"
proof -
  let ?xs = "filter (\<lambda>a. a_class a = c) as"
  have "idsByClass (sort_classes r) c = map a_id (sort_key (\<lambda>a. order_key (the (byID r (a_id a)))) ?xs)"
    using assms by (simp add: sort_classes_def index_ok_def sort_key_map)
  also have "sort_key (\<lambda>a. order_key (the (byID r (a_id a)))) ?xs = sort_key order_key ?xs"
    using byID_index [OF assms] by (intro sort_key_eq) simp
  finally have "AdaptersForClass c (sort_classes r) = map (\<lambda>a. the (byID r (a_id a))) (class_order c as)"
    by (simp add: AdaptersForClass_def class_order_def Lookup_def sort_classes_def)
  also have "\<dots> = class_order c as"
    using byID_index [OF assms] by (intro map_idI) (auto simp: class_order_def)
  finally show ?thesis .
qed

lemma NewRegistry_cases:
  "if admissible as then \<exists>r. NewRegistry as = Inr (sort_classes r) \<and> index_ok as r else \<exists>e. NewRegistry as = Inl e"
  using register_all_index [OF index_empty, of as] by (auto simp: NewRegistry_def split: if_splits)

lemma Validate_names: "Validate a = None \<Longrightarrow> WireName a \<noteq> '''' \<and> a_id a \<noteq> ''''"
  by (auto simp: Validate_def split: if_splits)

lemma find_sorted_least:
  assumes "find P xs = Some a" "sorted (map k xs)" "b \<in> set xs" "P b"
  shows "k a \<le> k b"
proof -
  from assms(1) obtain i where i: "i < length xs" "a = xs ! i" "\<And>j. j < i \<Longrightarrow> \<not> P (xs ! j)"
    by (auto simp: find_Some_iff)
  from assms(3) obtain j where j: "j < length xs" "b = xs ! j" by (auto simp: in_set_conv_nth)
  with i assms(4) have "i \<le> j" by (metis not_less)
  with assms(2) i(2) j show ?thesis by (simp add: sorted_iff_nth_mono)
qed

subsection \<open>Properties\<close>

text \<open>A registry can be built from exactly the adapter lists whose entries are valid, whose
  ids are distinct and whose wire names are distinct within each class; it then returns every adapter
  by id and by class and wire name, and lists a class ordered by priority and id.\<close>

theorem registry_built_iff_admissible:
  "if list_all (\<lambda>a. Validate a = None) as \<and> distinct (map a_id as) \<and> distinct (map class_wire as)
   then \<exists>r. NewRegistry as = Inr r \<and>
          list_all (\<lambda>a. Lookup (a_id a) r = Some a \<and> LookupWire (a_class a) (WireName a) r = Some a) as \<and>
          (\<forall>c. AdaptersForClass c r = sort_key order_key (filter (\<lambda>a. a_class a = c) as))
   else \<exists>e. NewRegistry as = Inl e"
proof (cases "admissible as")
  case True
  with NewRegistry_cases [of as] obtain r where r: "NewRegistry as = Inr (sort_classes r)" "index_ok as r" by auto
  have "list_all (\<lambda>a. Lookup (a_id a) (sort_classes r) = Some a \<and>
      LookupWire (a_class a) (WireName a) (sort_classes r) = Some a) as"
    using byID_index [OF r(2)] wire_index [OF r(2)]
    by (simp add: list_all_iff Lookup_def LookupWire_def sort_classes_def)
  with True r AdaptersForClass_sorted [OF r(2)] show ?thesis
    by (auto simp: admissible_def class_order_def)
next
  case False
  with NewRegistry_cases [of as] show ?thesis by (auto simp: admissible_def)
qed

text \<open>Property C25: negotiation is sound and optimal. The chosen adapter is registered for the class and
  the client named its wire name or id, and no other such adapter comes before it in the server's order
  of priority and id; an error means that no registered adapter of the class was named.\<close>

theorem negotiate_optimal:
  assumes "NewRegistry as = Inr r"
  shows "case Negotiate c client r of
     Inr a \<Rightarrow> a \<in> set as \<and> a_class a = c \<and> (WireName a \<in> set client \<or> a_id a \<in> set client) \<and>
       list_all (\<lambda>b. a_class b = c \<and> (WireName b \<in> set client \<or> a_id b \<in> set client) \<longrightarrow>
         (Priority a, a_id a) \<le> (Priority b, a_id b)) as
   | Inl e \<Rightarrow> e = Unsupported c client \<and>
       list_all (\<lambda>b. a_class b = c \<longrightarrow> WireName b \<notin> set client \<and> a_id b \<notin> set client) as"
proof -
  have "admissible as" using assms NewRegistry_cases [of as] by (auto split: if_splits)
  with assms NewRegistry_cases [of as] obtain r0 where r0: "r = sort_classes r0" "index_ok as r0" by auto
  let ?P = "\<lambda>a. WireName a \<in> set client \<or> a_id a \<in> set client"
  let ?Q = "\<lambda>a. WireName a \<in> set (filter (\<lambda>p. p \<noteq> '''') client) \<or> a_id a \<in> set (filter (\<lambda>p. p \<noteq> '''') client)"
  have PQ: "?Q a \<longleftrightarrow> ?P a" if "a \<in> set as" for a
    using Validate_names [of a] \<open>admissible as\<close> that by (auto simp: admissible_def list_all_iff)
  have xs: "AdaptersForClass c r = class_order c as" "set (class_order c as) = {a \<in> set as. a_class a = c}"
    "sorted (map order_key (class_order c as))"
    using AdaptersForClass_sorted [OF r0(2)] r0(1) by (auto simp: class_order_def)
  have neg: "Negotiate c client r =
      (case find ?Q (class_order c as) of Some a \<Rightarrow> Inr a | None \<Rightarrow> Inl (Unsupported c client))"
    by (simp only: Negotiate_def Let_def xs(1))
  show ?thesis
  proof (cases "find ?Q (class_order c as)")
    case None
    then have "\<forall>b \<in> set as. a_class b = c \<longrightarrow> \<not> ?Q b" using xs(2) by (auto simp: find_None_iff)
    with PQ show ?thesis unfolding neg None by (auto simp: list_all_iff)
  next
    case (Some a)
    then have "a \<in> set (class_order c as)" and q: "?Q a"
      unfolding find_Some_iff by (metis nth_mem, blast)
    then have a: "a \<in> set as" "a_class a = c" "?P a" using xs(2) PQ by auto
    have "order_key a \<le> order_key b" if "b \<in> set as" "a_class b = c" "?P b" for b
      using find_sorted_least [OF Some xs(3), of b] that PQ xs(2) by auto
    then show ?thesis
      using a PQ unfolding neg Some by (simp add: list_all_iff order_key_def)
  qed
qed

lemma default_admissible: "admissible DefaultAdapters"
  by (simp add: admissible_def DefaultAdapters_def mk_adapter_def Validate_def Valid_def validClasses_def
      classByID_def class_wire_def)

theorem negotiate_optimal_witness:
  "\<exists>r. DefaultRegistry = Inr r \<and> (case NegotiateDelivery [''hls'', ''webrtc''] r of
     Inr a \<Rightarrow> (Priority a, a_id a) \<le> (10, ''delivery.webrtc'') | Inl e \<Rightarrow> False)"
proof -
  from default_admissible NewRegistry_cases [of DefaultAdapters] obtain r where r: "NewRegistry DefaultAdapters = Inr r"
    by auto
  let ?w = "mk_adapter ''delivery.webrtc'' ClassDelivery ''webrtc'' ''WebRTC delivery''
        [(''reconnect'', CapBool True), (''supports_audio'', CapBool False)] 10"
  have w: "?w \<in> set DefaultAdapters" by (simp add: DefaultAdapters_def)
  show ?thesis
    using negotiate_optimal [OF r, of ClassDelivery "[''hls'', ''webrtc'']"] w r
    unfolding DefaultRegistry_def NegotiateDelivery_def list_all_iff
    by (auto simp: mk_adapter_def split: sum.splits)
qed

end
