(* ===== verification/Idempotency.thy ===== *)
theory Idempotency
  imports Prelude
begin

section \<open>The idempotency store\<close>

text \<open>
  \<open>internal/ha/idempotency.go\<close>: \<open>IdempotencyStore.Do\<close> as concurrent callers run it. The critical sections
  (\<open>prepareEntry\<close>, \<open>finalizeEntry\<close>) are functions on the store; a caller is before \<open>prepareEntry\<close>, waiting
  for an entry's done channel, running the producer, or back with a result; \<open>idem_step\<close> interleaves any number
  of callers. \<open>ks\<close> is the order in which the range loops over the map visit the keys; with ties between
  creation times any choice of victims is that of some order. \<open>log\<close> is a ghost recording the
  successful productions and when they finished.

  The main results: at most one producer runs per key, a waiting caller always has a running producer
  to wake it, and a replayed response is one that was produced for the same key less than the TTL ago.
\<close>

record response =
  StatusCode :: int
  ContentType :: string
  Body :: bytes

record idem_entry =
  createdAt :: time
  expiresAt :: time
  ready :: bool
  response :: response
  i_err :: "string option"

record idem_store =
  ttl :: duration
  maxKeys :: nat
  entries :: "string \<rightharpoonup> nat"
  objs :: "idem_entry list"

definition NewIdempotencyStore :: "duration \<Rightarrow> int \<Rightarrow> idem_store" where
  "NewIdempotencyStore t mk = \<lparr>ttl = (if t \<le> 0 then 3 * 60 * second else t),
     maxKeys = (if mk \<le> 0 then 20000 else nat mk), entries = Map.empty, objs = []\<rparr>"

definition no_response :: response where
  "no_response = \<lparr>StatusCode = 0, ContentType = [], Body = []\<rparr>"

definition replayResponse :: "idem_entry \<Rightarrow> time \<Rightarrow> response option" where
  "replayResponse e now = (if \<not> ready e \<or> \<not> now < expiresAt e then None else Some (response e))"

text \<open>\<open>gcLocked\<close>: every ready and expired entry goes.\<close>

definition gc :: "time \<Rightarrow> idem_store \<Rightarrow> idem_store" where
  "gc now s = s\<lparr>entries := (\<lambda>k. case entries s k of
     None \<Rightarrow> None
   | Some i \<Rightarrow> if ready (objs s ! i) \<and> \<not> now < expiresAt (objs s ! i) then None else Some i)\<rparr>"

text \<open>\<open>enforceMaxKeysLocked\<close>: the oldest ready entry goes while there are too many entries.\<close>

definition entry_at :: "idem_store \<Rightarrow> string \<Rightarrow> idem_entry" where
  "entry_at s k = objs s ! the (entries s k)"

definition victim :: "idem_store \<Rightarrow> string list \<Rightarrow> string option" where
  "victim s ks = foldl (\<lambda>v k.
     if \<not> ready (entry_at s k) then v
     else case v of
       None \<Rightarrow> Some k
     | Some b \<Rightarrow> if createdAt (entry_at s k) < createdAt (entry_at s b) then Some k else v) None ks"

lemma victim_SomeD: "victim s ks = Some k \<Longrightarrow> k \<in> set ks \<and> ready (entry_at s k)"
  unfolding victim_def
  by (induction ks rule: rev_induct) (auto split: if_splits option.splits)

function enforceMaxKeys :: "string list \<Rightarrow> idem_store \<Rightarrow> idem_store" where
  "enforceMaxKeys ks s =
     (if length ks \<le> maxKeys s then s
      else case victim s ks of
        None \<Rightarrow> s
      | Some k \<Rightarrow> enforceMaxKeys (remove1 k ks) (s\<lparr>entries := map_delete k (entries s)\<rparr>))"
  by pat_completeness auto
termination
proof (relation "measure (\<lambda>(ks, _). length ks)")
  fix ks :: "string list" and s k
  assume "victim s ks = Some k"
  then have "k \<in> set ks" by (simp add: victim_SomeD)
  then show "((remove1 k ks, s\<lparr>entries := map_delete k (entries s)\<rparr>), ks, s) \<in> measure (\<lambda>(ks, _). length ks)"
    using length_pos_if_in_set [of k ks] by (simp add: length_remove1)
qed simp

declare enforceMaxKeys.simps [simp del]

definition insert_entry :: "time \<Rightarrow> string \<Rightarrow> idem_store \<Rightarrow> idem_store" where
  "insert_entry now key s = s\<lparr>entries := (entries s)(key \<mapsto> length (objs s)),
     objs := objs s @ [\<lparr>createdAt = now, expiresAt = now + ttl s, ready = False, response = no_response, i_err = None\<rparr>]\<rparr>"

datatype decision = Replay response | Wait nat | Produce nat

definition prepareEntry :: "time \<Rightarrow> string list \<Rightarrow> string \<Rightarrow> idem_store \<Rightarrow> decision \<times> idem_store" where
  "prepareEntry now ks key s0 =
     (let s = gc now s0;
          create = (Produce (length (objs s)), enforceMaxKeys ks (insert_entry now key s)) in
      case entries s key of
        None \<Rightarrow> create
      | Some i \<Rightarrow>
          (case replayResponse (objs s ! i) now of
             Some r \<Rightarrow> (Replay r, s)
           | None \<Rightarrow> if ready (objs s ! i) then create else (Wait i, s)))"

definition finalizeEntry :: "time \<Rightarrow> string \<Rightarrow> nat \<Rightarrow> response \<Rightarrow> string option \<Rightarrow> idem_store \<Rightarrow> idem_store" where
  "finalizeEntry now key i resp err s =
     (if entries s key \<noteq> Some i then s
      else case err of
        Some m \<Rightarrow> s\<lparr>entries := map_delete key (entries s), objs := (objs s)[i := (objs s ! i)\<lparr>i_err := Some m, ready := True\<rparr>]\<rparr>
      | None \<Rightarrow> s\<lparr>objs := (objs s)[i := (objs s ! i)
           \<lparr>response := resp, expiresAt := now + ttl s, i_err := None, ready := True\<rparr>]\<rparr>)"

subsection \<open>Concurrent callers\<close>

datatype result = Replayed response | Fresh response "string option" | Cancelled

datatype pc = Looping | Waiting nat | Producing nat | Returned result

record idem_sys =
  store :: idem_store
  callers :: "(string \<times> pc) list"
  log :: "(string \<times> response \<times> time) list"

fun after_prepare :: "decision \<Rightarrow> pc" where
  "after_prepare (Replay r) = Returned (Replayed r)"
| "after_prepare (Wait i) = Waiting i"
| "after_prepare (Produce i) = Producing i"

definition set_pc :: "nat \<Rightarrow> pc \<Rightarrow> idem_sys \<Rightarrow> idem_sys" where
  "set_pc c p w = w\<lparr>callers := (callers w)[c := (fst (callers w ! c), p)]\<rparr>"

definition do_prepare :: "time \<Rightarrow> string list \<Rightarrow> nat \<Rightarrow> idem_sys \<Rightarrow> idem_sys" where
  "do_prepare now ks c w =
     (let (d, s) = prepareEntry now ks (fst (callers w ! c)) (store w) in
      set_pc c (after_prepare d) (w\<lparr>store := s\<rparr>))"

definition do_finish :: "time \<Rightarrow> nat \<Rightarrow> nat \<Rightarrow> response \<Rightarrow> string option \<Rightarrow> idem_sys \<Rightarrow> idem_sys" where
  "do_finish now c i resp err w =
     (let key = fst (callers w ! c) in
      set_pc c (Returned (Fresh resp err))
        (w\<lparr>store := finalizeEntry now key i resp err (store w),
           log := (if err = None then (key, resp, now) # log w else log w)\<rparr>))"

inductive idem_step :: "idem_sys \<Rightarrow> idem_sys \<Rightarrow> bool" where
  call: "key \<noteq> [] \<Longrightarrow> idem_step w (w\<lparr>callers := callers w @ [(key, Looping)]\<rparr>)"
| prepare: "c < length (callers w) \<Longrightarrow> snd (callers w ! c) = Looping \<Longrightarrow>
    enumerates ks (entries (insert_entry now (fst (callers w ! c)) (gc now (store w)))) \<Longrightarrow>
    idem_step w (do_prepare now ks c w)"
| wake: "c < length (callers w) \<Longrightarrow> snd (callers w ! c) = Waiting i \<Longrightarrow> ready (objs (store w) ! i) \<Longrightarrow>
    idem_step w (set_pc c Looping w)"
| cancel: "c < length (callers w) \<Longrightarrow> snd (callers w ! c) = Waiting i \<Longrightarrow> idem_step w (set_pc c (Returned Cancelled) w)"
| finish: "c < length (callers w) \<Longrightarrow> snd (callers w ! c) = Producing i \<Longrightarrow> idem_step w (do_finish now c i resp err w)"

inductive idem_reachable :: "idem_store \<Rightarrow> idem_sys \<Rightarrow> bool" for s0 where
  start: "idem_reachable s0 \<lparr>store = s0, callers = [], log = []\<rparr>"
| next_step: "idem_reachable s0 w \<Longrightarrow> idem_step w w' \<Longrightarrow> idem_reachable s0 w'"

subsection \<open>The invariant\<close>

text \<open>Caller \<open>c\<close>, working on key \<open>k\<close>, is at \<open>p\<close>.\<close>

definition at :: "(string \<times> pc) list \<Rightarrow> nat \<Rightarrow> string \<Rightarrow> pc \<Rightarrow> bool" where
  "at cs c k p \<longleftrightarrow> c < length cs \<and> cs ! c = (k, p)"

definition entries_ok :: "idem_store \<Rightarrow> (string \<times> response \<times> time) list \<Rightarrow> bool" where
  "entries_ok s lg \<longleftrightarrow> (\<forall>k i. entries s k = Some i \<longrightarrow> i < length (objs s) \<and>
     (\<forall>j. entries s j = Some i \<longrightarrow> j = k) \<and>
     (ready (objs s ! i) \<longrightarrow>
       (\<exists>t. (k, response (objs s ! i), t) \<in> set lg \<and> expiresAt (objs s ! i) = t + ttl s)))"

definition flight_ok :: "idem_store \<Rightarrow> (string \<times> pc) list \<Rightarrow> bool" where
  "flight_ok s cs \<longleftrightarrow>
     (\<forall>c k i. at cs c k (Producing i) \<longrightarrow> entries s k = Some i \<and> \<not> ready (objs s ! i)) \<and>
     (\<forall>c d k i. at cs c k (Producing i) \<and> at cs d k (Producing i) \<longrightarrow> c = d) \<and>
     (\<forall>k i. entries s k = Some i \<and> \<not> ready (objs s ! i) \<longrightarrow> (\<exists>c. at cs c k (Producing i))) \<and>
     (\<forall>c k i. at cs c k (Waiting i) \<longrightarrow> i < length (objs s) \<and> (ready (objs s ! i) \<or> entries s k = Some i))"

definition idem_inv :: "idem_sys \<Rightarrow> bool" where
  "idem_inv w \<longleftrightarrow> entries_ok (store w) (log w) \<and> flight_ok (store w) (callers w)"

lemma at_update: "c < length cs \<Longrightarrow> at (cs[c := (k0, p0)]) d k p \<longleftrightarrow> (if d = c then k = k0 \<and> p = p0 else at cs d k p)"
  by (auto simp: at_def nth_list_update)

lemma at_append: "at (cs @ [(k0, p0)]) d k p \<longleftrightarrow> at cs d k p \<or> (d = length cs \<and> k = k0 \<and> p = p0)"
  by (auto simp: at_def nth_append less_Suc_eq)

lemma at_fun: "at cs c k p \<Longrightarrow> at cs c k' p' \<longleftrightarrow> k' = k \<and> p' = p"
  by (auto simp: at_def)

text \<open>What eviction and collection leave: a part of the entries, with all those in flight.\<close>

definition shrinks :: "idem_store \<Rightarrow> idem_store \<Rightarrow> bool" where
  "shrinks s s' \<longleftrightarrow> objs s' = objs s \<and> ttl s' = ttl s \<and> maxKeys s' = maxKeys s \<and>
     (\<forall>k i. entries s' k = Some i \<longrightarrow> entries s k = Some i) \<and>
     (\<forall>k i. entries s k = Some i \<and> \<not> ready (objs s ! i) \<longrightarrow> entries s' k = Some i)"

lemma shrinks_refl [simp]: "shrinks s s"
  by (simp add: shrinks_def)

lemma shrinks_trans: "shrinks a b \<Longrightarrow> shrinks b c \<Longrightarrow> shrinks a c"
  unfolding shrinks_def by metis

lemma shrinks_gc: "shrinks s (gc now s)"
  by (auto simp: shrinks_def gc_def split: option.splits if_splits)

lemma shrinks_enforce: "shrinks s (enforceMaxKeys ks s)"
proof (induction ks s rule: enforceMaxKeys.induct)
  case (1 ks s)
  show ?case
  proof (cases "length ks \<le> maxKeys s \<or> victim s ks = None")
    case True
    then show ?thesis by (subst enforceMaxKeys.simps) auto
  next
    case False
    then obtain k where k: "\<not> length ks \<le> maxKeys s" "victim s ks = Some k" by auto
    let ?s = "s\<lparr>entries := map_delete k (entries s)\<rparr>"
    have "shrinks s ?s"
      using victim_SomeD [OF k(2)] by (auto simp: shrinks_def entry_at_def map_delete_apply)
    from shrinks_trans [OF this 1 [OF k]] k show ?thesis by (subst enforceMaxKeys.simps) simp
  qed
qed

lemma entries_ok_shrinks: "entries_ok s lg \<Longrightarrow> shrinks s s' \<Longrightarrow> entries_ok s' lg"
  unfolding entries_ok_def shrinks_def by metis

lemma flight_ok_shrinks:
  assumes f: "flight_ok s cs" and sh: "shrinks s s'"
  shows "flight_ok s' cs"
proof -
  have o: "objs s' = objs s" and less: "\<And>k i. entries s' k = Some i \<Longrightarrow> entries s k = Some i"
    and keep: "\<And>k i. entries s k = Some i \<Longrightarrow> \<not> ready (objs s ! i) \<Longrightarrow> entries s' k = Some i"
    using sh unfolding shrinks_def by blast+
  show ?thesis
    unfolding flight_ok_def o
  proof (intro conjI allI impI)
    fix c k i assume "at cs c k (Producing i)"
    with f have "entries s k = Some i \<and> \<not> ready (objs s ! i)" unfolding flight_ok_def by blast
    with keep show "entries s' k = Some i" "\<not> ready (objs s ! i)" by auto
  next
    fix c d k i assume "at cs c k (Producing i) \<and> at cs d k (Producing i)"
    with f show "c = d" unfolding flight_ok_def by blast
  next
    fix k i assume "entries s' k = Some i \<and> \<not> ready (objs s ! i)"
    with f less show "\<exists>c. at cs c k (Producing i)" unfolding flight_ok_def by blast
  next
    fix c k i assume "at cs c k (Waiting i)"
    with f have "i < length (objs s) \<and> (ready (objs s ! i) \<or> entries s k = Some i)" unfolding flight_ok_def by blast
    with keep show "i < length (objs s)" "ready (objs s ! i) \<or> entries s' k = Some i" by auto
  qed
qed

text \<open>Moving a caller that is not producing to a place where it produces nothing.\<close>

lemma flight_ok_move:
  assumes f: "flight_ok s cs" and c: "at cs c k p" "\<And>i. p \<noteq> Producing i" "\<And>i. p' \<noteq> Producing i"
    and w: "\<And>i. p' = Waiting i \<Longrightarrow> i < length (objs s) \<and> (ready (objs s ! i) \<or> entries s k = Some i)"
  shows "flight_ok s (cs[c := (k, p')])"
proof -
  have l: "c < length cs" using c(1) by (simp add: at_def)
  have P: "at (cs[c := (k, p')]) d j (Producing i) \<longleftrightarrow> at cs d j (Producing i)" for d j i
    using c at_fun [OF c(1)] by (auto simp: at_update [OF l])
  have W: "at (cs[c := (k, p')]) d j (Waiting i) \<Longrightarrow> at cs d j (Waiting i) \<or> (j = k \<and> p' = Waiting i)" for d j i
    by (auto simp: at_update [OF l] split: if_splits)
  show ?thesis
    using f W w unfolding flight_ok_def P by blast
qed

text \<open>A new entry: nobody produces for the key, so the caller becomes its only producer.\<close>

lemma insert_inv:
  assumes e: "entries_ok s lg" and f: "flight_ok s cs" and c: "at cs c k Looping"
    and k: "\<And>i. entries s k = Some i \<Longrightarrow> ready (objs s ! i)"
  shows "entries_ok (insert_entry now k s) lg \<and> flight_ok (insert_entry now k s) (cs[c := (k, Producing (length (objs s)))])"
proof -
  let ?n = "length (objs s)" and ?s = "insert_entry now k s"
  let ?cs = "cs[c := (k, Producing (length (objs s)))]"
  have l: "c < length cs" using c by (simp add: at_def)
  have E: "entries ?s j = (if j = k then Some ?n else entries s j)" for j by (simp add: insert_entry_def)
  have R: "ready (objs ?s ! i) = (if i < ?n then ready (objs s ! i) else False)" if "i \<le> ?n" for i
    using that by (auto simp: insert_entry_def nth_append)
  have O: "i < ?n \<Longrightarrow> objs ?s ! i = objs s ! i" for i by (simp add: insert_entry_def nth_append)
  have len: "length (objs ?s) = Suc ?n" "ttl ?s = ttl s" by (simp_all add: insert_entry_def)
  have bound: "entries s j = Some i \<Longrightarrow> i < ?n" for i j using e by (auto simp: entries_ok_def)
  have "entries_ok ?s lg"
    unfolding entries_ok_def
  proof (intro allI impI)
    fix j i assume j: "entries ?s j = Some i"
    show "i < length (objs ?s) \<and> (\<forall>ja. entries ?s ja = Some i \<longrightarrow> ja = j) \<and> (ready (objs ?s ! i) \<longrightarrow>
       (\<exists>t. (j, response (objs ?s ! i), t) \<in> set lg \<and> expiresAt (objs ?s ! i) = t + ttl ?s))"
    proof (cases "j = k")
      case True
      with j have "i = ?n" by (simp add: E)
      with True show ?thesis using R [of ?n] bound by (force simp: E len split: if_splits)
    next
      case False
      with j have j': "entries s j = Some i" by (simp add: E)
      have "i < Suc ?n" using bound [OF j'] by simp
      moreover have "entries ?s ja = Some i \<Longrightarrow> ja = j" for ja
        using e j' bound [OF j'] unfolding entries_ok_def E by (auto split: if_splits)
      moreover have "ready (objs s ! i) \<Longrightarrow> \<exists>t. (j, response (objs s ! i), t) \<in> set lg \<and> expiresAt (objs s ! i) = t + ttl s"
        using e j' unfolding entries_ok_def by blast
      ultimately show ?thesis using O [OF bound [OF j']] by (simp add: len)
    qed
  qed
  moreover have P: "at ?cs d j (Producing i) \<longleftrightarrow> (if d = c then j = k \<and> i = ?n else at cs d j (Producing i))" for d j i
    by (simp add: at_update [OF l])
  have W: "at ?cs d j (Waiting i) \<Longrightarrow> at cs d j (Waiting i)" for d j i
    by (auto simp: at_update [OF l] split: if_splits)
  have NC: "at cs d j (Producing i) \<Longrightarrow> d \<noteq> c \<and> j \<noteq> k \<and> i < ?n \<and> entries s j = Some i \<and> \<not> ready (objs s ! i)" for d j i
    using f k bound at_fun [OF c] unfolding flight_ok_def by (metis pc.distinct(3))
  have "flight_ok ?s ?cs"
    unfolding flight_ok_def P
  proof (intro conjI allI impI)
    fix d j i assume a: "if d = c then j = k \<and> i = ?n else at cs d j (Producing i)"
    then consider "j = k" "i = ?n" | "j \<noteq> k" "i < ?n" "entries s j = Some i" "\<not> ready (objs s ! i)"
      using NC by metis
    then show "entries ?s j = Some i" "\<not> ready (objs ?s ! i)"
      by (cases; simp add: E R)+
  next
    fix d d' j i
    assume "(if d = c then j = k \<and> i = ?n else at cs d j (Producing i)) \<and>
      (if d' = c then j = k \<and> i = ?n else at cs d' j (Producing i))"
    then show "d = d'" using NC f unfolding flight_ok_def by (metis less_irrefl)
  next
    fix j i assume a: "entries ?s j = Some i \<and> \<not> ready (objs ?s ! i)"
    show "\<exists>d. if d = c then j = k \<and> i = ?n else at cs d j (Producing i)"
    proof (cases "j = k")
      case True
      with a show ?thesis by (auto simp: E intro: exI [of _ c])
    next
      case False
      with a have j': "entries s j = Some i" by (simp add: E)
      with a O [OF bound [OF j']] f obtain d where "at cs d j (Producing i)"
        unfolding flight_ok_def by metis
      with NC show ?thesis by (intro exI [of _ d]) auto
    qed
  next
    fix d j i assume "at ?cs d j (Waiting i)"
    then have "at cs d j (Waiting i)" by (rule W)
    with f have w: "i < ?n" "ready (objs s ! i) \<or> entries s j = Some i" by (auto simp: flight_ok_def)
    then show "i < length (objs ?s)" "ready (objs ?s ! i) \<or> entries ?s j = Some i"
      using k by (auto simp: len E O)
  qed
  ultimately show ?thesis by simp
qed

lemma callers_set_pc: "callers (set_pc c p w) = (callers w)[c := (fst (callers w ! c), p)]"
  "store (set_pc c p w) = store w" "log (set_pc c p w) = log w"
  by (simp_all add: set_pc_def)

lemma prepare_inv:
  assumes w: "idem_inv w" and c: "at (callers w) c k Looping"
  shows "idem_inv (do_prepare now ks c w)"
proof -
  let ?s = "gc now (store w)"
  have key: "fst (callers w ! c) = k" using c by (simp add: at_def)
  have e: "entries_ok ?s (log w)" and f: "flight_ok ?s (callers w)"
    using w entries_ok_shrinks [OF _ shrinks_gc] flight_ok_shrinks [OF _ shrinks_gc] by (auto simp: idem_inv_def)
  consider (replay) r where "prepareEntry now ks k (store w) = (Replay r, ?s)"
    | (wait) i where "prepareEntry now ks k (store w) = (Wait i, ?s)" "entries ?s k = Some i"
    | (create) "prepareEntry now ks k (store w) = (Produce (length (objs ?s)), enforceMaxKeys ks (insert_entry now k ?s))"
        "\<And>i. entries ?s k = Some i \<Longrightarrow> ready (objs ?s ! i)"
  proof (cases "entries ?s k")
    case None
    then show ?thesis by (intro that(3)) (simp_all add: prepareEntry_def Let_def)
  next
    case (Some i)
    then show ?thesis
      using that by (cases "replayResponse (objs ?s ! i) now"; cases "ready (objs ?s ! i)")
        (simp_all add: prepareEntry_def Let_def)
  qed
  then show ?thesis
  proof cases
    case (replay r)
    with e flight_ok_move [OF f c, of "Returned (Replayed r)"] key show ?thesis
      by (simp add: do_prepare_def idem_inv_def callers_set_pc)
  next
    case (wait i)
    then have "i < length (objs ?s)" using e by (auto simp: entries_ok_def)
    with wait e flight_ok_move [OF f c, of "Waiting i"] key show ?thesis
      by (simp add: do_prepare_def idem_inv_def callers_set_pc)
  next
    case create
    from insert_inv [OF e f c create(2), of now] create(1) key show ?thesis
      using entries_ok_shrinks [OF _ shrinks_enforce] flight_ok_shrinks [OF _ shrinks_enforce]
      by (simp add: do_prepare_def idem_inv_def callers_set_pc)
  qed
qed

lemma finish_inv:
  assumes w: "idem_inv w" and c: "at (callers w) c k (Producing i)"
  shows "idem_inv (do_finish now c i resp err w)"
proof -
  let ?s = "store w" and ?cs = "callers w"
  have e: "entries_ok ?s (log w)" and f: "flight_ok ?s ?cs" using w by (auto simp: idem_inv_def)
  have key: "fst (?cs ! c) = k" and l: "c < length ?cs" using c by (auto simp: at_def)
  have ki: "entries ?s k = Some i" "\<not> ready (objs ?s ! i)" using f c unfolding flight_ok_def by blast+
  have i: "i < length (objs ?s)" using e ki by (auto simp: entries_ok_def)
  have inj: "entries ?s j = Some i \<Longrightarrow> j = k" for j using e ki(1) unfolding entries_ok_def by blast
  have others: "at ?cs d j (Producing m) \<Longrightarrow> d \<noteq> c \<Longrightarrow> j \<noteq> k \<and> m \<noteq> i" for d j m
    using f c inj ki(1) unfolding flight_ok_def by (metis option.inject)
  define s' where "s' = finalizeEntry now k i resp err ?s"
  define o' where "o' = (case err of Some m \<Rightarrow> (objs ?s ! i)\<lparr>i_err := Some m, ready := True\<rparr>
     | None \<Rightarrow> (objs ?s ! i)\<lparr>response := resp, expiresAt := now + ttl ?s, i_err := None, ready := True\<rparr>)"
  have s': "objs s' = (objs ?s)[i := o']" "ttl s' = ttl ?s" "ready o'"
    "\<And>j. entries s' j = (if j = k \<and> err \<noteq> None then None else entries ?s j)"
    using ki(1) by (auto simp: s'_def o'_def finalizeEntry_def map_delete_apply split: option.split)
  have "entries_ok s' (if err = None then (k, resp, now) # log w else log w)"
    using e i inj unfolding entries_ok_def s' o'_def
    by (auto simp: nth_list_update split: option.splits if_splits) blast
  moreover have P: "at (?cs[c := (k, Returned (Fresh resp err))]) d j (Producing m) \<longleftrightarrow> d \<noteq> c \<and> at ?cs d j (Producing m)"
    and W: "at (?cs[c := (k, Returned (Fresh resp err))]) d j (Waiting m) \<longleftrightarrow> d \<noteq> c \<and> at ?cs d j (Waiting m)" for d j m
    by (auto simp: at_update [OF l])
  have "flight_ok s' (?cs[c := (k, Returned (Fresh resp err))])"
    unfolding flight_ok_def P W
  proof (intro conjI allI impI)
    fix d j m assume a: "d \<noteq> c \<and> at ?cs d j (Producing m)"
    then have "j \<noteq> k" "m \<noteq> i" using others by auto
    moreover have "entries ?s j = Some m \<and> \<not> ready (objs ?s ! m)" using f a unfolding flight_ok_def by blast
    ultimately show "entries s' j = Some m" "\<not> ready (objs s' ! m)" by (auto simp: s')
  next
    fix d d' j m assume "(d \<noteq> c \<and> at ?cs d j (Producing m)) \<and> d' \<noteq> c \<and> at ?cs d' j (Producing m)"
    then show "d = d'" using f unfolding flight_ok_def by blast
  next
    fix j m assume a: "entries s' j = Some m \<and> \<not> ready (objs s' ! m)"
    then have "m \<noteq> i" using s' i by auto
    with a have "entries ?s j = Some m" "\<not> ready (objs ?s ! m)" "j \<noteq> k"
      using ki(1) by (auto simp: s' split: if_splits)
    with f obtain d where "at ?cs d j (Producing m)" unfolding flight_ok_def by metis
    then show "\<exists>d. d \<noteq> c \<and> at ?cs d j (Producing m)"
      using at_fun [OF c] \<open>j \<noteq> k\<close> by (intro exI [of _ d]) auto
  next
    fix d j m assume "d \<noteq> c \<and> at ?cs d j (Waiting m)"
    with f have "m < length (objs ?s)" "ready (objs ?s ! m) \<or> entries ?s j = Some m" unfolding flight_ok_def by blast+
    then show "m < length (objs s')" "ready (objs s' ! m) \<or> entries s' j = Some m"
      using s' ki(1) i by (auto simp: nth_list_update)
  qed
  ultimately show ?thesis
    by (simp add: do_finish_def idem_inv_def callers_set_pc key s'_def)
qed

lemma idem_step_inv: "idem_step w w' \<Longrightarrow> idem_inv w \<Longrightarrow> idem_inv w'"
proof (induction rule: idem_step.induct)
  case (call key w)
  then show ?case by (simp add: idem_inv_def flight_ok_def at_append)
next
  case (prepare c w ks now)
  then show ?case by (intro prepare_inv [of w c "fst (callers w ! c)"]) (auto simp: at_def prod_eq_iff)
next
  case (wake c w i)
  then have "at (callers w) c (fst (callers w ! c)) (Waiting i)" by (auto simp: at_def prod_eq_iff)
  with wake show ?case
    using flight_ok_move [of "store w" "callers w" c "fst (callers w ! c)" "Waiting i" Looping]
    by (simp add: idem_inv_def callers_set_pc)
next
  case (cancel c w i)
  then have "at (callers w) c (fst (callers w ! c)) (Waiting i)" by (auto simp: at_def prod_eq_iff)
  with cancel show ?case
    using flight_ok_move [of "store w" "callers w" c "fst (callers w ! c)" "Waiting i" "Returned Cancelled"]
    by (simp add: idem_inv_def callers_set_pc)
next
  case (finish c w i now resp err)
  then show ?case by (intro finish_inv [of w c "fst (callers w ! c)"]) (auto simp: at_def prod_eq_iff)
qed

lemma idem_reachable_inv:
  assumes "idem_reachable (NewIdempotencyStore t mk) w"
  shows "idem_inv w"
  using assms
proof (induction rule: idem_reachable.induct)
  case start
  then show ?case
    by (simp add: idem_inv_def entries_ok_def flight_ok_def at_def NewIdempotencyStore_def)
next
  case (next_step w w')
  then show ?case using idem_step_inv by blast
qed

text \<open>What the bound guarantees: at most \<open>maxKeys\<close> entries stay, unless only entries in flight are left.\<close>

lemma victim_None: "victim s ks = None \<Longrightarrow> k \<in> set ks \<Longrightarrow> \<not> ready (entry_at s k)"
  unfolding victim_def
  by (induction ks rule: rev_induct) (auto split: if_splits option.splits)

lemma enumerates_remove:
  assumes "enumerates ks m" "k \<in> set ks"
  shows "enumerates (remove1 k ks) (map_delete k m)"
  using assms by (simp add: enumerates_def)

lemma enforceMaxKeys_bound:
  assumes "enumerates ks (entries s)"
  shows "card (dom (entries (enforceMaxKeys ks s))) \<le> maxKeys s \<or>
    (\<forall>k i. entries (enforceMaxKeys ks s) k = Some i \<longrightarrow> \<not> ready (objs s ! i))"
  using assms
proof (induction ks s rule: enforceMaxKeys.induct)
  case (1 ks s)
  show ?case
  proof (cases "length ks \<le> maxKeys s")
    case True
    with 1(2) show ?thesis by (subst (1 2) enforceMaxKeys.simps) (simp add: enumerates_length)
  next
    case False
    show ?thesis
    proof (cases "victim s ks")
      case None
      have "\<not> ready (objs s ! i)" if "entries s k = Some i" for k i
        using victim_None [OF None, of k] 1(2) that enumerates_mem [OF 1(2), of k] by (simp add: entry_at_def)
      with None False show ?thesis by (subst (1 2) enforceMaxKeys.simps) simp
    next
      case (Some k)
      have "enumerates (remove1 k ks) (map_delete k (entries s))"
        using enumerates_remove [OF 1(2)] victim_SomeD [OF Some] by blast
      from 1(1) [OF False Some] this Some False show ?thesis
        by (subst (1 2) enforceMaxKeys.simps) simp
    qed
  qed
qed

subsection \<open>Properties\<close>

text \<open>Property C5: single flight. However many callers run concurrently and whatever is evicted or expires,
  at most one producer runs per key, and every caller that waits on an unfinished entry has a running
  producer of the same key to wake it: an entry in flight is never dropped.\<close>

theorem idempotency_single_flight:
  assumes "idem_reachable (NewIdempotencyStore t mk) w"
  shows "(\<forall>c d k i j. at (callers w) c k (Producing i) \<and> at (callers w) d k (Producing j) \<longrightarrow> c = d) \<and>
         (\<forall>c k i. at (callers w) c k (Waiting i) \<and> \<not> ready (objs (store w) ! i) \<longrightarrow>
            (\<exists>d. at (callers w) d k (Producing i)))"
proof -
  have f: "flight_ok (store w) (callers w)" using idem_reachable_inv [OF assms] by (simp add: idem_inv_def)
  have "c = d" if "at (callers w) c k (Producing i)" "at (callers w) d k (Producing j)" for c d k i j
  proof -
    from f that have "entries (store w) k = Some i" "entries (store w) k = Some j" unfolding flight_ok_def by blast+
    then have "i = j" by simp
    with f that show ?thesis unfolding flight_ok_def by blast
  qed
  moreover have "\<exists>d. at (callers w) d k (Producing i)"
    if "at (callers w) c k (Waiting i)" "\<not> ready (objs (store w) ! i)" for c k i
    using f that unfolding flight_ok_def by blast
  ultimately show ?thesis by blast
qed

definition two_callers :: idem_sys where
  "two_callers = do_prepare 0 [''k''] 1 (do_prepare 0 [''k''] 0
     \<lparr>store = NewIdempotencyStore 5 9, callers = [(''k'', Looping), (''k'', Looping)], log = []\<rparr>)"

lemma two_callers_eq: "callers two_callers = [(''k'', Producing 0), (''k'', Waiting 0)]"
  "\<not> ready (objs (store two_callers) ! 0)"
  by (simp_all add: two_callers_def do_prepare_def prepareEntry_def gc_def NewIdempotencyStore_def insert_entry_def
      enforceMaxKeys.simps set_pc_def replayResponse_def Let_def)

lemma two_callers_reachable: "idem_reachable (NewIdempotencyStore 5 9) two_callers"
proof -
  let ?s = "NewIdempotencyStore 5 9"
  let ?w0 = "\<lparr>store = ?s, callers = [], log = []\<rparr>"
  let ?w1 = "?w0\<lparr>callers := callers ?w0 @ [(''k'', Looping)]\<rparr>"
  let ?w2 = "?w1\<lparr>callers := callers ?w1 @ [(''k'', Looping)]\<rparr>"
  have 1: "idem_reachable ?s ?w1"
    by (rule idem_reachable.next_step [OF idem_reachable.start], rule idem_step.call) simp
  have 2: "idem_reachable ?s ?w2"
    by (rule idem_reachable.next_step [OF 1], rule idem_step.call) simp
  have 3: "idem_reachable ?s (do_prepare 0 [''k''] 0 ?w2)"
    by (rule idem_reachable.next_step [OF 2], rule idem_step.prepare)
      (simp_all add: enumerates_def insert_entry_def gc_def NewIdempotencyStore_def)
  have "idem_reachable ?s (do_prepare 0 [''k''] 1 (do_prepare 0 [''k''] 0 ?w2))"
    by (rule idem_reachable.next_step [OF 3], rule idem_step.prepare)
      (simp_all add: enumerates_def insert_entry_def gc_def NewIdempotencyStore_def do_prepare_def prepareEntry_def
        enforceMaxKeys.simps set_pc_def Let_def dom_def)
  then show ?thesis by (simp add: two_callers_def)
qed

theorem idempotency_single_flight_witness:
  "at (callers two_callers) 1 ''k'' (Waiting 0) \<and> (\<exists>d. at (callers two_callers) d ''k'' (Producing 0))"
  using idempotency_single_flight [OF two_callers_reachable] two_callers_eq by (auto simp: at_def)

text \<open>Property C23: a replay is faithful and fresh. When \<open>Do\<close> replays a response at time \<open>now\<close>, that very
  response was successfully produced for the same key, less than the TTL ago.\<close>

theorem idempotency_replay_sound:
  assumes "idem_reachable (NewIdempotencyStore t mk) w"
    and "prepareEntry now ks k (store w) = (Replay r, s')"
  shows "\<exists>t. (k, r, t) \<in> set (log w) \<and> now < t + ttl (store w)"
proof -
  let ?s = "gc now (store w)"
  have e: "entries_ok ?s (log w)"
    using idem_reachable_inv [OF assms(1)] entries_ok_shrinks [OF _ shrinks_gc] by (auto simp: idem_inv_def)
  from assms(2) obtain i where "entries ?s k = Some i" "ready (objs ?s ! i)" "now < expiresAt (objs ?s ! i)"
    "r = response (objs ?s ! i)"
    by (auto simp: prepareEntry_def Let_def replayResponse_def split: option.splits if_splits)
  moreover from this e obtain t where "(k, response (objs ?s ! i), t) \<in> set (log w)" "expiresAt (objs ?s ! i) = t + ttl ?s"
    unfolding entries_ok_def by blast
  moreover have "ttl ?s = ttl (store w)" by (simp add: gc_def)
  ultimately show ?thesis by auto
qed

theorem idempotency_replay_sound_witness:
  "let w = do_finish 1 0 0 no_response None two_callers in
   \<exists>t. (''k'', no_response, t) \<in> set (log w) \<and> 2 < t + ttl (store w)"
proof -
  let ?w = "do_finish 1 0 0 no_response None two_callers"
  have r: "idem_reachable (NewIdempotencyStore 5 9) ?w"
    by (rule idem_reachable.next_step [OF two_callers_reachable], rule idem_step.finish) (simp_all add: two_callers_eq)
  have p: "prepareEntry 2 [] ''k'' (store ?w) = (Replay no_response, gc 2 (store ?w))"
    by (simp add: two_callers_def do_finish_def finalizeEntry_def do_prepare_def prepareEntry_def gc_def
        NewIdempotencyStore_def insert_entry_def enforceMaxKeys.simps set_pc_def replayResponse_def Let_def)
  show ?thesis using idempotency_replay_sound [OF r p] by (simp add: Let_def)
qed

end
