(* ===== verification/Lease.thy ===== *)
theory Lease
  imports Go_Strings
begin

section \<open>Session leases\<close>

text \<open>
  \<open>internal/ha/lease.go\<close>: issuing a lease with a signed reattach token and reattaching with it, over the
  in-memory lease store. The three library steps of the token format are parameters: \<open>enc\<close> (JSON and
  unpadded base64url of the claims), \<open>dec\<close> (its inverse, with an error) and \<open>mac\<close> (the base64url HMAC of
  the payload under the service's secret). What is relied on is stated where it is used: the encoding of
  the claims in question decodes to them, and neither it nor the signature contains a dot, which the
  base64url alphabet lacks.

  The locale \<open>lease_store\<close> is the store contract that \<open>Issue\<close> and \<open>Reattach\<close> rely on, interpreted on the
  memory store. The main results: a token works until its lease ends and renews it; and the clock-skew
  allowance after the end is void with the memory store, which has dropped the lease by then.
\<close>

record lease =
  LeaseID :: string
  l_StreamKey :: string
  TenantID :: string
  DeviceID :: string
  ViewerID :: string
  PreferredProtocol :: string
  LastKnownEndpoint :: string
  HLSURL :: string
  WebRTCURL :: string
  WebRTCOfferURL :: string
  l_IssuedAt :: time
  l_ExpiresAt :: time
  ControlPlaneBackend :: string

record lease_input =
  in_StreamKey :: string
  in_TenantID :: string
  in_DeviceID :: string
  in_ViewerID :: string
  in_PreferredProtocol :: string
  in_LastKnownEndpoint :: string
  in_HLSURL :: string
  in_WebRTCURL :: string
  in_WebRTCOfferURL :: string

record token_claims =
  tc_LeaseID :: string
  tc_StreamKey :: string
  tc_ViewerID :: string
  tc_IssuedAt :: int
  tc_ExpiresAt :: int

record lease_config =
  backend :: string
  l_ttl :: duration
  skew :: duration

datatype lease_err = ErrInvalidToken | ErrLeaseExpired | ErrLeaseMissing

definition NewLeaseService :: "string \<Rightarrow> duration \<Rightarrow> duration \<Rightarrow> lease_config" where
  "NewLeaseService be t sk = \<lparr>backend = be, l_ttl = (if t \<le> 0 then 90 * second else t), skew = (if sk < 0 then 0 else sk)\<rparr>"

subsection \<open>The memory store\<close>

type_synonym lease_items = "string \<rightharpoonup> lease"

definition lease_gc :: "time \<Rightarrow> lease_items \<Rightarrow> lease_items" where
  "lease_gc now s = (\<lambda>k. case s k of None \<Rightarrow> None | Some l \<Rightarrow> if now > l_ExpiresAt l then None else Some l)"

definition mem_save :: "time \<Rightarrow> lease \<Rightarrow> lease_items \<Rightarrow> lease_items" where
  "mem_save now l s = lease_gc now (s(LeaseID l \<mapsto> l))"

definition mem_get :: "time \<Rightarrow> string \<Rightarrow> lease_items \<Rightarrow> lease option \<times> lease_items" where
  "mem_get now k s = (let s' = lease_gc now s in (s' k, s'))"

subsection \<open>Tokens\<close>

definition signToken :: "(token_claims \<Rightarrow> string) \<Rightarrow> (string \<Rightarrow> string) \<Rightarrow> token_claims \<Rightarrow> string" where
  "signToken enc mac c = enc c @ ''.'' @ mac (enc c)"

definition parseToken :: "(string \<Rightarrow> token_claims option) \<Rightarrow> (string \<Rightarrow> string) \<Rightarrow> string \<Rightarrow> lease_err + token_claims" where
  "parseToken dec mac raw =
     (let parts = Split CHR ''.'' raw in
      if length parts \<noteq> 2 then Inl ErrInvalidToken
      else if mac (parts ! 0) \<noteq> parts ! 1 then Inl ErrInvalidToken
      else case dec (parts ! 0) of
        None \<Rightarrow> Inl ErrInvalidToken
      | Some c \<Rightarrow> if tc_LeaseID c = '''' \<or> tc_StreamKey c = '''' then Inl ErrInvalidToken else Inr c)"

definition claims_of :: "lease \<Rightarrow> token_claims" where
  "claims_of l = \<lparr>tc_LeaseID = LeaseID l, tc_StreamKey = l_StreamKey l, tc_ViewerID = ViewerID l,
     tc_IssuedAt = unix (l_IssuedAt l), tc_ExpiresAt = unix (l_ExpiresAt l)\<rparr>"

subsection \<open>Issue and Reattach\<close>

definition new_lease :: "lease_config \<Rightarrow> string \<Rightarrow> time \<Rightarrow> lease_input \<Rightarrow> lease" where
  "new_lease cfg uid now inp =
     (let l = \<lparr>LeaseID = uid, l_StreamKey = TrimSpace (in_StreamKey inp), TenantID = TrimSpace (in_TenantID inp),
        DeviceID = TrimSpace (in_DeviceID inp), ViewerID = TrimSpace (in_ViewerID inp),
        PreferredProtocol = TrimSpace (in_PreferredProtocol inp),
        LastKnownEndpoint = TrimSpace (in_LastKnownEndpoint inp), HLSURL = TrimSpace (in_HLSURL inp),
        WebRTCURL = TrimSpace (in_WebRTCURL inp), WebRTCOfferURL = TrimSpace (in_WebRTCOfferURL inp),
        l_IssuedAt = now, l_ExpiresAt = now + l_ttl cfg, ControlPlaneBackend = backend cfg\<rparr> in
      if PreferredProtocol l = '''' then l\<lparr>PreferredProtocol := ''hls''\<rparr> else l)"

definition Issue ::
  "(token_claims \<Rightarrow> string) \<Rightarrow> (string \<Rightarrow> string) \<Rightarrow> lease_config \<Rightarrow> string \<Rightarrow> time \<Rightarrow> lease_input \<Rightarrow> lease_items \<Rightarrow>
   (lease \<times> string) \<times> lease_items" where
  "Issue enc mac cfg uid now inp s =
     (let l = new_lease cfg uid now inp in ((l, signToken enc mac (claims_of l)), mem_save now l s))"

definition Reattach ::
  "(token_claims \<Rightarrow> string) \<Rightarrow> (string \<Rightarrow> token_claims option) \<Rightarrow> (string \<Rightarrow> string) \<Rightarrow> lease_config \<Rightarrow> time \<Rightarrow>
   string \<Rightarrow> lease_items \<Rightarrow> (lease_err + lease \<times> string) \<times> lease_items" where
  "Reattach enc dec mac cfg now token s =
     (case parseToken dec mac token of
        Inl e \<Rightarrow> (Inl e, s)
      | Inr c \<Rightarrow>
          if now < tc_IssuedAt c * second - skew cfg \<or> now > tc_ExpiresAt c * second + skew cfg
          then (Inl ErrLeaseExpired, s)
          else let (found, s1) = mem_get now (tc_LeaseID c) s in
            case found of
              None \<Rightarrow> (Inl ErrLeaseMissing, s1)
            | Some l \<Rightarrow>
                if l_StreamKey l \<noteq> tc_StreamKey c \<or> ViewerID l \<noteq> tc_ViewerID c then (Inl ErrInvalidToken, s1)
                else if now > l_ExpiresAt l + skew cfg then (Inl ErrLeaseExpired, s1)
                else let l' = l\<lparr>l_IssuedAt := now, l_ExpiresAt := now + l_ttl cfg\<rparr> in
                  (Inr (l', signToken enc mac (claims_of l')), mem_save now l' s1))"

subsection \<open>The store contract\<close>

locale lease_store =
  fixes save :: "time \<Rightarrow> lease \<Rightarrow> 'st \<Rightarrow> 'st"
    and get :: "time \<Rightarrow> string \<Rightarrow> 'st \<Rightarrow> lease option \<times> 'st"
  assumes get_saved: "now \<le> l_ExpiresAt l \<Longrightarrow> now' \<le> l_ExpiresAt l \<Longrightarrow> fst (get now' (LeaseID l) (save now l s)) = Some l"
    and get_expired: "now' > l_ExpiresAt l \<Longrightarrow> fst (get now' (LeaseID l) (save now l s)) = None"
begin

lemma get_saved_iff:
  "now \<le> l_ExpiresAt l \<Longrightarrow> fst (get now' (LeaseID l) (save now l s)) = (if now' \<le> l_ExpiresAt l then Some l else None)"
  by (cases "now' \<le> l_ExpiresAt l") (simp_all add: get_saved get_expired)

end

interpretation mem_leases: lease_store mem_save mem_get
  by unfold_locales (auto simp: mem_save_def mem_get_def lease_gc_def Let_def split: option.split if_splits)

subsection \<open>What the token format must provide\<close>

definition codec_ok :: "(token_claims \<Rightarrow> string) \<Rightarrow> (string \<Rightarrow> token_claims option) \<Rightarrow> (string \<Rightarrow> string) \<Rightarrow> token_claims \<Rightarrow> bool" where
  "codec_ok enc dec mac c \<longleftrightarrow> dec (enc c) = Some c \<and> CHR ''.'' \<notin> set (enc c) \<and> CHR ''.'' \<notin> set (mac (enc c))"

lemma parse_signed:
  assumes "codec_ok enc dec mac c" "tc_LeaseID c \<noteq> ''''" "tc_StreamKey c \<noteq> ''''"
  shows "parseToken dec mac (signToken enc mac c) = Inr c"
  using assms
  by (simp add: parseToken_def signToken_def codec_ok_def Split_append Split_none Let_def)

lemma parse_ok_signed:
  assumes "parseToken dec mac raw = Inr c"
  shows "\<exists>p. dec p = Some c \<and> Split CHR ''.'' raw = [p, mac p]"
proof -
  from assms obtain p q where "Split CHR ''.'' raw = [p, q]" "mac p = q" "dec p = Some c"
    by (auto simp: parseToken_def Let_def length_Suc_conv numeral_2_eq_2 split: if_splits option.splits)
  then show ?thesis by auto
qed

lemma new_lease_fields [simp]:
  "LeaseID (new_lease cfg uid now inp) = uid" "l_IssuedAt (new_lease cfg uid now inp) = now"
  "l_ExpiresAt (new_lease cfg uid now inp) = now + l_ttl cfg"
  "l_StreamKey (new_lease cfg uid now inp) = TrimSpace (in_StreamKey inp)"
  by (simp_all add: new_lease_def Let_def)

text \<open>Reattaching with the token of an issued lease, as far as the clock allows it.\<close>

lemma Reattach_issued:
  assumes i: "Issue enc mac cfg uid now inp s = ((l, tok), s')"
    and c: "codec_ok enc dec mac (claims_of l)" "uid \<noteq> ''''" "TrimSpace (in_StreamKey inp) \<noteq> ''''"
    and t: "0 \<le> l_ttl cfg" "0 \<le> skew cfg" "now \<le> now'" "now' \<le> unix (now + l_ttl cfg) * second + skew cfg"
  shows "fst (Reattach enc dec mac cfg now' tok s') =
     (if now' \<le> now + l_ttl cfg
      then let l' = l\<lparr>l_IssuedAt := now', l_ExpiresAt := now' + l_ttl cfg\<rparr> in Inr (l', signToken enc mac (claims_of l'))
      else Inl ErrLeaseMissing)"
proof -
  have l: "l = new_lease cfg uid now inp" "tok = signToken enc mac (claims_of l)" "s' = mem_save now l s"
    using i by (auto simp: Issue_def Let_def)
  have p: "parseToken dec mac tok = Inr (claims_of l)"
    unfolding l(2) by (rule parse_signed [OF c(1)]) (use c l(1) in \<open>simp_all add: claims_of_def\<close>)
  have "unix now * second \<le> now" by (rule unix_bounds)
  then have w: "\<not> now' < unix now * second - skew cfg" using t by linarith
  have g: "fst (mem_get now' (LeaseID l) s') = (if now' \<le> l_ExpiresAt l then Some l else None)"
    unfolding l(3) by (rule mem_leases.get_saved_iff) (use t l(1) in simp)
  obtain fd s1 where m: "mem_get now' (LeaseID l) s' = (fd, s1)" by fastforce
  have e: "l_ExpiresAt l = now + l_ttl cfg" "l_IssuedAt l = now" using l(1) by simp_all
  show ?thesis
    using g m w t e unfolding Reattach_def p
    by (auto simp: claims_of_def Let_def split: if_splits)
qed

subsection \<open>Properties\<close>

text \<open>The reattach round trip. A token issued for a lease, presented before the lease ends,
  returns the same lease (identity, stream, viewer and endpoints) with its time renewed by the full TTL,
  and a new token for it.\<close>

theorem lease_reattach_roundtrip:
  assumes "Issue enc mac cfg uid now inp s = ((l, tok), s')"
    and "codec_ok enc dec mac (claims_of l)" "uid \<noteq> ''''" "TrimSpace (in_StreamKey inp) \<noteq> ''''"
    and "0 \<le> l_ttl cfg" "0 \<le> skew cfg" "now \<le> now'" "now' \<le> unix (now + l_ttl cfg) * second"
  shows "\<exists>tok'. fst (Reattach enc dec mac cfg now' tok s') =
     Inr (l\<lparr>l_IssuedAt := now', l_ExpiresAt := now' + l_ttl cfg\<rparr>, tok')"
proof -
  have "now' \<le> now + l_ttl cfg" using assms(8) unix_bounds(1) [of "now + l_ttl cfg"] by linarith
  then show ?thesis using Reattach_issued [OF assms(1-7)] assms(6,8) by (simp add: Let_def)
qed

text \<open>With the memory store the skew allowance does not work. In the window between the end
  of the lease and the end plus the skew, which the code means to accept, \<open>Reattach\<close> answers that the
  lease is missing.\<close>

theorem lease_skew_window_void:
  assumes "Issue enc mac cfg uid now inp s = ((l, tok), s')"
    and "codec_ok enc dec mac (claims_of l)" "uid \<noteq> ''''" "TrimSpace (in_StreamKey inp) \<noteq> ''''"
    and "0 \<le> l_ttl cfg" "0 \<le> skew cfg" "l_ExpiresAt l < now'" "now' \<le> unix (l_ExpiresAt l) * second + skew cfg"
  shows "fst (Reattach enc dec mac cfg now' tok s') = Inl ErrLeaseMissing"
proof -
  have e: "l_ExpiresAt l = now + l_ttl cfg" using assms(1) by (auto simp: Issue_def Let_def)
  then have "now \<le> now'" "\<not> now' \<le> now + l_ttl cfg" using assms(5,7) by linarith+
  then show ?thesis using Reattach_issued [OF assms(1-6)] assms(8) e by simp
qed

definition sample_input :: lease_input where
  "sample_input = \<lparr>in_StreamKey = ''k'', in_TenantID = '''', in_DeviceID = '''', in_ViewerID = ''v'',
     in_PreferredProtocol = '''', in_LastKnownEndpoint = '''', in_HLSURL = '''', in_WebRTCURL = '''', in_WebRTCOfferURL = ''''\<rparr>"

definition sample_cfg :: lease_config where
  "sample_cfg = NewLeaseService ''memory'' (90 * second) (5 * second)"

lemma sample_codec:
  "codec_ok (\<lambda>_. ''p'') (\<lambda>_. Some c) (\<lambda>_. ''m'') c"
  by (simp add: codec_ok_def)

lemma sample_cfg_values [simp]: "l_ttl sample_cfg = 90 * second" "skew sample_cfg = 5 * second"
  by (simp_all add: sample_cfg_def NewLeaseService_def)

lemma sample_key_trimmed: "TrimSpace (in_StreamKey sample_input) \<noteq> ''''"
  by code_simp

theorem lease_reattach_roundtrip_witness:
  "let l = new_lease sample_cfg ''id'' 0 sample_input;
       s = snd (Issue (\<lambda>_. ''p'') (\<lambda>_. ''m'') sample_cfg ''id'' 0 sample_input Map.empty) in
   \<exists>tok'. fst (Reattach (\<lambda>_. ''p'') (\<lambda>_. Some (claims_of l)) (\<lambda>_. ''m'') sample_cfg second ''p.m'' s) =
     Inr (l\<lparr>l_IssuedAt := second, l_ExpiresAt := 91 * second\<rparr>, tok')"
proof -
  let ?l = "new_lease sample_cfg ''id'' 0 sample_input"
  have i: "Issue (\<lambda>_. ''p'') (\<lambda>_. ''m'') sample_cfg ''id'' 0 sample_input Map.empty =
      ((?l, ''p.m''), mem_save 0 ?l Map.empty)"
    by (simp add: Issue_def signToken_def Let_def)
  from lease_reattach_roundtrip [OF i sample_codec _ sample_key_trimmed, of second] i show ?thesis
    by (simp add: Let_def unix_def)
qed

theorem lease_skew_window_void_witness:
  "let l = new_lease sample_cfg ''id'' 0 sample_input;
       s = snd (Issue (\<lambda>_. ''p'') (\<lambda>_. ''m'') sample_cfg ''id'' 0 sample_input Map.empty) in
   fst (Reattach (\<lambda>_. ''p'') (\<lambda>_. Some (claims_of l)) (\<lambda>_. ''m'') sample_cfg (91 * second) ''p.m'' s) = Inl ErrLeaseMissing"
proof -
  let ?l = "new_lease sample_cfg ''id'' 0 sample_input"
  have i: "Issue (\<lambda>_. ''p'') (\<lambda>_. ''m'') sample_cfg ''id'' 0 sample_input Map.empty =
      ((?l, ''p.m''), mem_save 0 ?l Map.empty)"
    by (simp add: Issue_def signToken_def Let_def)
  from lease_skew_window_void [OF i sample_codec _ sample_key_trimmed, of "91 * second"] i show ?thesis
    by (simp add: Let_def unix_def)
qed

end
