(* ===== verification/Relay_Sessions.thy ===== *)
theory Relay_Sessions
  imports Go_Strings
begin

section \<open>Relay sessions\<close>

text \<open>
  \<open>internal/relay/*.go\<close> and the access checks of \<open>internal/api/relay_live.go\<close>: creating a viewer's
  session with its token, verifying the token, closing and reaping sessions. The JWT library is a
  parameter: \<open>jsign\<close> signs claims (\<open>None\<close> is its error) and \<open>jverify\<close> verifies a token at an instant. The law
  \<open>jwt_ok\<close> is what its documentation promises: a token it signed verifies, with the claims it was
  signed with, exactly before its expiry, which is kept in whole seconds.

  The main results: a session's token gives access to that session while it lasts and is used, and to
  nothing afterwards; and the negotiation follows the client's order, not the server's.
\<close>

datatype session_state = Creating | Active | DrainingSession | Closed

record session =
  RelaySessionID :: string
  s_StreamID :: string
  s_CamID :: string
  s_ProfileID :: string
  Protocol :: string
  Endpoint :: string
  Token :: string
  TokenExpiresAt :: time
  CreatedAt :: time
  LastActiveAt :: time
  s_state :: session_state

record create_request =
  rq_RelaySessionID :: string
  rq_StreamID :: string
  rq_CamID :: string
  rq_ProfileID :: string
  RequestedProtocols :: "string list"
  rq_TokenExpiresAt :: time

record relay_claims =
  rc_RelaySessionID :: string
  rc_StreamID :: string
  rc_CamID :: string
  rc_Protocol :: string
  rc_ExpiresAt :: int
  rc_IssuedAt :: int

type_synonym signer = "relay_claims \<Rightarrow> string option"
type_synonym verifier = "time \<Rightarrow> string \<Rightarrow> relay_claims option"

record relay_manager =
  rm_sessions :: "string \<rightharpoonup> session"
  baseURL :: string

abbreviation "ProtocolWebRTC \<equiv> ''webrtc''"
abbreviation "ProtocolHLS \<equiv> ''hls''"

definition StreamKey :: "session \<Rightarrow> string" where
  "StreamKey s = s_CamID s @ ''/'' @ s_ProfileID s"

text \<open>\<open>TokenService.Issue\<close>: \<open>NewNumericDate\<close> keeps whole seconds.\<close>

definition issue_claims :: "time \<Rightarrow> session \<Rightarrow> relay_claims" where
  "issue_claims now s = \<lparr>rc_RelaySessionID = RelaySessionID s, rc_StreamID = s_StreamID s, rc_CamID = s_CamID s,
     rc_Protocol = Protocol s, rc_ExpiresAt = unix (TokenExpiresAt s), rc_IssuedAt = unix now\<rparr>"

fun negotiate_protocol :: "string list \<Rightarrow> string" where
  "negotiate_protocol [] = ProtocolHLS"
| "negotiate_protocol (p # ps) = (if p = ProtocolWebRTC \<or> p = ProtocolHLS then p else negotiate_protocol ps)"

datatype relay_err = TokenSign | TokenInvalid | SessionMismatch | SessionNotFound

definition new_session :: "time \<Rightarrow> create_request \<Rightarrow> relay_manager \<Rightarrow> session" where
  "new_session now rq m =
     (let proto = negotiate_protocol (RequestedProtocols rq) in
      \<lparr>RelaySessionID = rq_RelaySessionID rq, s_StreamID = rq_StreamID rq, s_CamID = rq_CamID rq,
        s_ProfileID = rq_ProfileID rq, Protocol = proto,
        Endpoint = baseURL m @ ''/relay/live/'' @ proto @ ''/'' @ rq_RelaySessionID rq,
        Token = '''', TokenExpiresAt = rq_TokenExpiresAt rq, CreatedAt = now, LastActiveAt = now, s_state = Creating\<rparr>)"

definition Create :: "signer \<Rightarrow> time \<Rightarrow> create_request \<Rightarrow> relay_manager \<Rightarrow> (relay_err + session) \<times> relay_manager" where
  "Create jsign now rq m =
     (let s = new_session now rq m in
      case jsign (issue_claims now s) of
        None \<Rightarrow> (Inl TokenSign, m)
      | Some tok \<Rightarrow>
          (let s' = s\<lparr>Token := tok, s_state := Active\<rparr> in
           (Inr s', m\<lparr>rm_sessions := (rm_sessions m)(RelaySessionID s' \<mapsto> s')\<rparr>)))"

text \<open>The HTTP handler fills in an expiry of eight hours when none is given.\<close>

definition CreateSession :: "signer \<Rightarrow> time \<Rightarrow> create_request option \<Rightarrow> relay_manager \<Rightarrow> int \<times> relay_manager" where
  "CreateSession jsign now body m =
     (case body of
        None \<Rightarrow> (400, m)
      | Some rq \<Rightarrow>
          (let rq' = (if rq_TokenExpiresAt rq = 0 then rq\<lparr>rq_TokenExpiresAt := now + 8 * hour\<rparr> else rq);
               (r, m') = Create jsign now rq' m in
           case r of Inl e \<Rightarrow> (503, m') | Inr s \<Rightarrow> (201, m')))"

definition CloseRelay :: "string \<Rightarrow> relay_manager \<Rightarrow> relay_manager" where
  "CloseRelay i m = m\<lparr>rm_sessions := map_delete i (rm_sessions m)\<rparr>"

definition GetRelay :: "string \<Rightarrow> relay_manager \<Rightarrow> session option" where
  "GetRelay i m = rm_sessions m i"

definition VerifyAndGetSession ::
  "verifier \<Rightarrow> time \<Rightarrow> string \<Rightarrow> string \<Rightarrow> relay_manager \<Rightarrow> (relay_err + session) \<times> relay_manager" where
  "VerifyAndGetSession jverify now raw i m =
     (case jverify now raw of
        None \<Rightarrow> (Inl TokenInvalid, m)
      | Some c \<Rightarrow>
          if rc_RelaySessionID c \<noteq> i then (Inl SessionMismatch, m)
          else case rm_sessions m i of
            None \<Rightarrow> (Inl SessionNotFound, m)
          | Some s \<Rightarrow> (let s' = s\<lparr>LastActiveAt := now\<rparr> in (Inr s', m\<lparr>rm_sessions := (rm_sessions m)(i \<mapsto> s')\<rparr>)))"

definition ActiveCount :: "relay_manager \<Rightarrow> nat" where
  "ActiveCount m = card (dom (rm_sessions m))"

definition ReapIdle :: "time \<Rightarrow> duration \<Rightarrow> relay_manager \<Rightarrow> relay_manager" where
  "ReapIdle now maxIdle m = m\<lparr>rm_sessions := (\<lambda>i. case rm_sessions m i of
     None \<Rightarrow> None | Some s \<Rightarrow> if LastActiveAt s < now - maxIdle then None else Some s)\<rparr>"

text \<open>\<open>serveRelayLiveStream\<close>: the status, and the stream that is served with 200.\<close>

datatype served = Status int | ServeHLS string | ServeWebRTC string

definition serveRelayLiveStream ::
  "verifier \<Rightarrow> time \<Rightarrow> string \<Rightarrow> string \<Rightarrow> string \<Rightarrow> relay_manager option \<Rightarrow> served \<times> relay_manager option" where
  "serveRelayLiveStream jverify now auth protocol i mo =
     (if \<not> HasPrefix auth ''Bearer '' then (Status 401, mo)
      else let raw = TrimPrefix auth ''Bearer '' in
        case mo of
          None \<Rightarrow> (Status 503, mo)
        | Some m \<Rightarrow>
            (case VerifyAndGetSession jverify now raw i m of
               (Inl e, m') \<Rightarrow> (Status 401, Some m')
             | (Inr s, m') \<Rightarrow>
                 if Protocol s \<noteq> protocol then (Status 400, Some m')
                 else if protocol = ProtocolHLS then (ServeHLS (StreamKey s), Some m')
                 else if protocol = ProtocolWebRTC then (ServeWebRTC (StreamKey s), Some m')
                 else (Status 400, Some m')))"

subsection \<open>The token library\<close>

definition jwt_ok :: "signer \<Rightarrow> verifier \<Rightarrow> bool" where
  "jwt_ok jsign jverify \<longleftrightarrow> (\<forall>c tok now. jsign c = Some tok \<longrightarrow>
     jverify now tok = (if now < rc_ExpiresAt c * second then Some c else None))"

lemma negotiate_protocol_cases: "negotiate_protocol ps = ProtocolWebRTC \<or> negotiate_protocol ps = ProtocolHLS"
  by (induction ps) auto

text \<open>Reaping keeps what was active recently and nothing else.\<close>

lemma GetRelay_ReapIdle:
  "GetRelay i (ReapIdle now maxIdle m) =
     (case GetRelay i m of None \<Rightarrow> None | Some s \<Rightarrow> if LastActiveAt s < now - maxIdle then None else Some s)"
  by (simp add: GetRelay_def ReapIdle_def)

lemma GetRelay_verify:
  "GetRelay j (snd (VerifyAndGetSession jverify now raw i m)) =
     (if j = i \<and> (\<exists>c. jverify now raw = Some c \<and> rc_RelaySessionID c = i)
      then map_option (\<lambda>s. s\<lparr>LastActiveAt := now\<rparr>) (GetRelay j m) else GetRelay j m)"
  by (auto simp: VerifyAndGetSession_def GetRelay_def Let_def split: option.split)

text \<open>A viewer's requests: verifications and reaper runs at growing times. The session survives as long
  as no pause is longer than the idle limit.\<close>

datatype relay_event = Access time | Reap time

fun relay_run :: "verifier \<Rightarrow> string \<Rightarrow> string \<Rightarrow> duration \<Rightarrow> relay_event list \<Rightarrow> relay_manager \<Rightarrow> relay_manager" where
  "relay_run jverify tok i idle [] m = m"
| "relay_run jverify tok i idle (Access t # es) m = relay_run jverify tok i idle es (snd (VerifyAndGetSession jverify t tok i m))"
| "relay_run jverify tok i idle (Reap t # es) m = relay_run jverify tok i idle es (ReapIdle t idle m)"

fun never_idle :: "duration \<Rightarrow> time \<Rightarrow> relay_event list \<Rightarrow> bool" where
  "never_idle idle lst [] \<longleftrightarrow> True"
| "never_idle idle lst (Access t # es) \<longleftrightarrow> never_idle idle t es"
| "never_idle idle lst (Reap t # es) \<longleftrightarrow> t - lst \<le> idle \<and> never_idle idle lst es"

fun accesses_before :: "time \<Rightarrow> relay_event list \<Rightarrow> bool" where
  "accesses_before e [] \<longleftrightarrow> True"
| "accesses_before e (Access t # es) \<longleftrightarrow> t < e \<and> accesses_before e es"
| "accesses_before e (Reap t # es) \<longleftrightarrow> accesses_before e es"

lemma relay_run_keeps:
  assumes v: "\<And>t. t < e \<Longrightarrow> \<exists>c. jverify t tok = Some c \<and> rc_RelaySessionID c = i"
  shows "GetRelay i m = Some s \<Longrightarrow> never_idle idle (LastActiveAt s) es \<Longrightarrow> accesses_before e es \<Longrightarrow>
    \<exists>t. GetRelay i (relay_run jverify tok i idle es m) = Some (s\<lparr>LastActiveAt := t\<rparr>)"
proof (induction es arbitrary: m s)
  case Nil
  then show ?case by (auto intro: exI [of _ "LastActiveAt s"])
next
  case (Cons ev es)
  show ?case
  proof (cases ev)
    case (Access t)
    with Cons.prems v have "GetRelay i (snd (VerifyAndGetSession jverify t tok i m)) = Some (s\<lparr>LastActiveAt := t\<rparr>)"
      by (simp add: GetRelay_verify)
    from Cons.IH [OF this] Cons.prems Access show ?thesis by simp
  next
    case (Reap t)
    with Cons.prems have "GetRelay i (ReapIdle t idle m) = Some s"
      by (simp add: GetRelay_ReapIdle)
    from Cons.IH [OF this] Cons.prems Reap show ?thesis by simp
  qed
qed

subsection \<open>Properties\<close>

text \<open>Access with a relay token. As long as the viewer is never idle longer than the limit,
  the token returned by \<open>Create\<close> opens, until it expires, the created session: the same camera, profile,
  protocol and endpoint.\<close>

theorem relay_token_gives_access:
  assumes "jwt_ok jsign jverify" "Create jsign now rq m = (Inr s, m')"
    and "never_idle idle now es" "accesses_before (unix (rq_TokenExpiresAt rq) * second) es"
    and "t < unix (rq_TokenExpiresAt rq) * second"
  shows "\<exists>m''. VerifyAndGetSession jverify t (Token s) (rq_RelaySessionID rq)
       (relay_run jverify (Token s) (rq_RelaySessionID rq) idle es m') = (Inr (s\<lparr>LastActiveAt := t\<rparr>), m'')"
proof -
  let ?s = "new_session now rq m" and ?i = "rq_RelaySessionID rq"
  from assms(2) have tok: "jsign (issue_claims now ?s) = Some (Token s)" and s: "s = ?s\<lparr>Token := Token s, s_state := Active\<rparr>"
    and m': "GetRelay ?i m' = Some s"
    by (auto simp: Create_def Let_def GetRelay_def new_session_def split: option.splits)
  have v: "jverify t' (Token s) = Some (issue_claims now ?s) \<and> rc_RelaySessionID (issue_claims now ?s) = ?i"
    if "t' < unix (rq_TokenExpiresAt rq) * second" for t'
    using assms(1) tok that by (simp add: jwt_ok_def issue_claims_def new_session_def Let_def)
  have "LastActiveAt s = now" by (subst s) (simp add: new_session_def Let_def)
  with relay_run_keeps [of "unix (rq_TokenExpiresAt rq) * second" jverify "Token s" ?i m' s idle es] v m' assms(3,4)
  obtain t0 where "GetRelay ?i (relay_run jverify (Token s) ?i idle es m') = Some (s\<lparr>LastActiveAt := t0\<rparr>)" by blast
  with v [OF assms(5)] show ?thesis by (simp add: VerifyAndGetSession_def GetRelay_def Let_def)
qed

definition demo_request :: create_request where
  "demo_request = \<lparr>rq_RelaySessionID = ''r1'', rq_StreamID = ''s1'', rq_CamID = ''c1'', rq_ProfileID = ''main'',
     RequestedProtocols = [''hls'', ''webrtc''], rq_TokenExpiresAt = 100 * second\<rparr>"

definition demo_claims :: relay_claims where
  "demo_claims = issue_claims 0 (new_session 0 demo_request \<lparr>rm_sessions = Map.empty, baseURL = ''b''\<rparr>)"

definition demo_sgn :: signer where
  "demo_sgn c = (if c = demo_claims then Some ''tok'' else None)"

definition demo_vfy :: verifier where
  "demo_vfy now tok = (if tok = ''tok'' \<and> now < 100 * second then Some demo_claims else None)"

lemma demo_jwt_ok: "jwt_ok demo_sgn demo_vfy"
  by (auto simp: jwt_ok_def demo_sgn_def demo_vfy_def demo_claims_def issue_claims_def new_session_def
      demo_request_def unix_def Let_def)

theorem relay_token_gives_access_witness:
  "let (r, m') = Create demo_sgn 0 demo_request \<lparr>rm_sessions = Map.empty, baseURL = ''b''\<rparr> in
   \<exists>s m''. r = Inr s \<and> VerifyAndGetSession demo_vfy (9 * second) (Token s) ''r1''
     (relay_run demo_vfy (Token s) ''r1'' (5 * second) [Reap (4 * second), Access (5 * second), Reap (8 * second)] m')
     = (Inr (s\<lparr>LastActiveAt := 9 * second\<rparr>), m'')"
proof -
  let ?m = "\<lparr>rm_sessions = Map.empty, baseURL = ''b''\<rparr>"
  obtain s m' where c: "Create demo_sgn 0 demo_request ?m = (Inr s, m')"
    by (auto simp: Create_def Let_def demo_sgn_def demo_claims_def)
  have i: "rq_RelaySessionID demo_request = ''r1''" "rq_TokenExpiresAt demo_request = 100 * second"
    by (simp_all add: demo_request_def)
  from relay_token_gives_access [OF demo_jwt_ok c, of "5 * second" "[Reap (4 * second), Access (5 * second), Reap (8 * second)]" "9 * second"] i c
  show ?thesis by (simp add: unix_def)
qed

text \<open>Access ends. Once a session is closed, or reaped after a longer pause than the idle
  limit, or its token has expired, verification fails with every token and leaves no session behind.\<close>

theorem relay_access_ends:
  assumes "jwt_ok jsign jverify" "jsign c = Some tok"
  shows "(\<forall>s. fst (VerifyAndGetSession jverify t tok' i (CloseRelay i m)) \<noteq> Inr s) \<and>
     (rc_ExpiresAt c * second \<le> t \<longrightarrow> fst (VerifyAndGetSession jverify t tok i m) = Inl TokenInvalid) \<and>
     (\<forall>s0 s. GetRelay i m = Some s0 \<and> LastActiveAt s0 < t0 - idle \<longrightarrow>
         fst (VerifyAndGetSession jverify t tok' i (ReapIdle t0 idle m)) \<noteq> Inr s)"
  using assms
  by (auto simp: VerifyAndGetSession_def CloseRelay_def ReapIdle_def GetRelay_def jwt_ok_def Let_def split: option.splits)

theorem relay_access_ends_witness:
  "fst (VerifyAndGetSession demo_vfy (100 * second) ''tok'' ''r1'' \<lparr>rm_sessions = Map.empty, baseURL = ''b''\<rparr>) = Inl TokenInvalid"
proof -
  have c: "demo_sgn demo_claims = Some ''tok''" by (simp add: demo_sgn_def)
  have e: "rc_ExpiresAt demo_claims = 100"
    by (simp add: demo_claims_def issue_claims_def new_session_def demo_request_def unix_def Let_def)
  show ?thesis
    using relay_access_ends [OF demo_jwt_ok c, of "100 * second" "''tok''" "''r1''" "\<lparr>rm_sessions = Map.empty, baseURL = ''b''\<rparr>"] e
    by simp
qed

text \<open>The protocol is the first one of the client's list that the relay knows, and HLS if there
  is none. In particular a client that lists HLS before WebRTC gets HLS, although WebRTC is meant to be
  preferred.\<close>

theorem relay_protocol_client_order:
  assumes "Create jsign now rq m = (Inr s, m')"
  shows "Protocol s = (case find (\<lambda>p. p = ''webrtc'' \<or> p = ''hls'') (RequestedProtocols rq) of Some p \<Rightarrow> p | None \<Rightarrow> ''hls'')"
proof -
  have "negotiate_protocol ps = (case find (\<lambda>p. p = ''webrtc'' \<or> p = ''hls'') ps of Some p \<Rightarrow> p | None \<Rightarrow> ''hls'')" for ps
    by (induction ps) auto
  with assms show ?thesis by (auto simp: Create_def Let_def new_session_def split: option.splits)
qed

theorem relay_protocol_client_order_witness:
  "\<exists>s m'. Create demo_sgn 0 demo_request \<lparr>rm_sessions = Map.empty, baseURL = ''b''\<rparr> = (Inr s, m') \<and> Protocol s = ''hls''"
proof -
  obtain s m' where c: "Create demo_sgn 0 demo_request \<lparr>rm_sessions = Map.empty, baseURL = ''b''\<rparr> = (Inr s, m')"
    by (auto simp: Create_def Let_def demo_sgn_def demo_claims_def)
  with relay_protocol_client_order [OF c] show ?thesis by (simp add: demo_request_def)
qed

end
