(* ===== verification/Rbac.thy ===== *)
theory Rbac
  imports Prelude "HOL-Library.AList"
begin

section \<open>Role-based access control: the two stores and the write-through cache\<close>

text \<open>
  \<open>internal/auth/rbac_store.go\<close> (the in-memory store, L1), \<open>rbac_redis.go\<close> (the Redis store, L2) and
  \<open>rbac_layered.go\<close> (the cache over both), with the data of \<open>model.go\<close>.

  Redis itself is a key space of hashes and sets, as the store's comment lays it out; only the six
  commands the code sends are modelled. The network is a list of replies to the commands still to be
  sent: \<open>Ack\<close> is a reply, \<open>Lost b\<close> a command whose reply did not arrive and which the server did
  (\<open>b\<close>) or did not carry out; when the list is used up every command is answered. A \<open>created_at\<close>
  field holds an RFC 3339 text, which denotes an instant in whole seconds; the model keeps the instant.

  A Go map that the code ranges over is an association list, and a \<open>map[string]bool\<close> whose values are
  all true is a list without repetitions. The order of a range is unspecified in Go: no result below
  depends on it, they speak of the sets.

  The locale \<open>role_assignments\<close> is the contract of a store towards the service: what assigning and
  removing a role does to the users' roles. It is interpreted on the in-memory store and on the
  layered one. The main results: what the cache grants, Redis grants; and what a restart brings back.
\<close>

subsection \<open>The data\<close>

record permission =
  PermissionID :: string
  p_Name :: string
  p_Description :: string
  p_CreatedAt :: time

record role_model =
  RoleID :: string
  r_Name :: string
  r_Description :: string
  r_CreatedAt :: time

datatype rbac_err = PermMissing string | RoleMissing string | RedisFailed | WarmUnsupported

subsection \<open>The in-memory store\<close>

record inmem =
  permissions :: "(string \<times> permission) list"
  permsByName :: "string \<rightharpoonup> permission"
  roles :: "(string \<times> role_model) list"
  rolesByName :: "string \<rightharpoonup> role_model"
  rolePerms :: "string \<Rightarrow> string list"
  userRoles :: "string \<Rightarrow> string list"

definition NewInMemRBACStore :: inmem where
  "NewInMemRBACStore = \<lparr>permissions = [], permsByName = Map.empty, roles = [], rolesByName = Map.empty,
     rolePerms = (\<lambda>_. []), userRoles = (\<lambda>_. [])\<rparr>"

definition mem_SavePermission :: "permission \<Rightarrow> inmem \<Rightarrow> inmem" where
  "mem_SavePermission p m = m\<lparr>permissions := AList.update (PermissionID p) p (permissions m),
     permsByName := (permsByName m)(p_Name p \<mapsto> p)\<rparr>"

definition mem_GetPermissionByName :: "string \<Rightarrow> inmem \<Rightarrow> permission option" where
  "mem_GetPermissionByName n m = permsByName m n"

definition mem_ListPermissions :: "inmem \<Rightarrow> permission list" where
  "mem_ListPermissions m = map snd (permissions m)"

definition mem_SaveRole :: "role_model \<Rightarrow> inmem \<Rightarrow> inmem" where
  "mem_SaveRole r m = m\<lparr>roles := AList.update (RoleID r) r (roles m),
     rolesByName := (rolesByName m)(r_Name r \<mapsto> r)\<rparr>"

definition mem_GetRoleByName :: "string \<Rightarrow> inmem \<Rightarrow> role_model option" where
  "mem_GetRoleByName n m = rolesByName m n"

definition mem_ListRoles :: "inmem \<Rightarrow> role_model list" where
  "mem_ListRoles m = map snd (roles m)"

definition mem_AssignPermissionToRole :: "string \<Rightarrow> string \<Rightarrow> inmem \<Rightarrow> rbac_err option \<times> inmem" where
  "mem_AssignPermissionToRole rid pid m =
     (case map_of (permissions m) pid of
        None \<Rightarrow> (Some (PermMissing pid), m)
      | Some p \<Rightarrow>
          if map_of (roles m) rid = None then (Some (RoleMissing rid), m)
          else (None, m\<lparr>rolePerms := (rolePerms m)(rid := List.insert (p_Name p) (rolePerms m rid))\<rparr>))"

definition mem_RolePermissionNames :: "string \<Rightarrow> inmem \<Rightarrow> string list" where
  "mem_RolePermissionNames rid m = rolePerms m rid"

definition mem_AssignRoleToUser :: "string \<Rightarrow> string \<Rightarrow> inmem \<Rightarrow> rbac_err option \<times> inmem" where
  "mem_AssignRoleToUser u rid m =
     (if map_of (roles m) rid = None then (Some (RoleMissing rid), m)
      else (None, m\<lparr>userRoles := (userRoles m)(u := List.insert rid (userRoles m u))\<rparr>))"

definition mem_RemoveRoleFromUser :: "string \<Rightarrow> string \<Rightarrow> inmem \<Rightarrow> inmem" where
  "mem_RemoveRoleFromUser u rid m = m\<lparr>userRoles := (userRoles m)(u := removeAll rid (userRoles m u))\<rparr>"

definition mem_UserRoles :: "string \<Rightarrow> inmem \<Rightarrow> role_model list" where
  "mem_UserRoles u m = List.map_filter (map_of (roles m)) (userRoles m u)"

definition mem_UserHasPermission :: "string \<Rightarrow> string \<Rightarrow> inmem \<Rightarrow> bool" where
  "mem_UserHasPermission u perm m = list_ex (\<lambda>rid. perm \<in> set (rolePerms m rid)) (userRoles m u)"

subsection \<open>Redis: the key space, the commands, the network\<close>

datatype field = Text string | Stamp time

type_synonym hash = "(string \<times> field) list"

datatype redis_val = RHash hash | RSet "string list"

type_synonym keyspace = "string \<rightharpoonup> redis_val"

datatype reply = Ack | Lost bool

record redis =
  db :: keyspace
  net :: "reply list"

definition hset :: "string \<Rightarrow> hash \<Rightarrow> keyspace \<Rightarrow> keyspace option" where
  "hset k fs d = (case d k of None \<Rightarrow> Some (d(k \<mapsto> RHash fs))
     | Some (RHash g) \<Rightarrow> Some (d(k \<mapsto> RHash (AList.merge g fs))) | Some (RSet _) \<Rightarrow> None)"

definition sadd :: "string \<Rightarrow> string \<Rightarrow> keyspace \<Rightarrow> keyspace option" where
  "sadd k v d = (case d k of None \<Rightarrow> Some (d(k \<mapsto> RSet [v]))
     | Some (RSet s) \<Rightarrow> Some (d(k \<mapsto> RSet (List.insert v s))) | Some (RHash _) \<Rightarrow> None)"

definition srem :: "string \<Rightarrow> string \<Rightarrow> keyspace \<Rightarrow> keyspace option" where
  "srem k v d = (case d k of None \<Rightarrow> Some d
     | Some (RSet s) \<Rightarrow> Some (let s' = removeAll v s in if s' = [] then map_delete k d else d(k \<mapsto> RSet s'))
     | Some (RHash _) \<Rightarrow> None)"

definition smembers :: "string \<Rightarrow> keyspace \<Rightarrow> string list option" where
  "smembers k d = (case d k of None \<Rightarrow> Some [] | Some (RSet s) \<Rightarrow> Some s | Some (RHash _) \<Rightarrow> None)"

definition hgetall :: "string \<Rightarrow> keyspace \<Rightarrow> hash option" where
  "hgetall k d = (case d k of None \<Rightarrow> Some [] | Some (RHash h) \<Rightarrow> Some h | Some (RSet _) \<Rightarrow> None)"

text \<open>\<open>HGet\<close> of a missing field is the error \<open>redis.Nil\<close>.\<close>

definition hget :: "string \<Rightarrow> string \<Rightarrow> keyspace \<Rightarrow> field option" where
  "hget k f d = (case hgetall k d of None \<Rightarrow> None | Some h \<Rightarrow> map_of h f)"

definition pop :: "redis \<Rightarrow> reply \<times> redis" where
  "pop r = (case net r of [] \<Rightarrow> (Ack, r) | x # xs \<Rightarrow> (x, r\<lparr>net := xs\<rparr>))"

fun applied :: "reply \<Rightarrow> bool" where
  "applied Ack = True"
| "applied (Lost b) = b"

text \<open>A writing command: whether it returned without error, and Redis after it.\<close>

definition write_cmd :: "(keyspace \<Rightarrow> keyspace option) \<Rightarrow> redis \<Rightarrow> bool \<times> redis" where
  "write_cmd f r =
     (let (a, r') = pop r in
      case f (db r') of
        None \<Rightarrow> (False, r')
      | Some d \<Rightarrow> (a = Ack, if applied a then r'\<lparr>db := d\<rparr> else r'))"

definition read_cmd :: "(keyspace \<Rightarrow> 'a option) \<Rightarrow> redis \<Rightarrow> 'a option \<times> redis" where
  "read_cmd f r = (let (a, r') = pop r in (if a = Ack then f (db r') else None, r'))"

subsection \<open>The Redis store\<close>

definition keyPerm :: "string \<Rightarrow> string" where "keyPerm i = ''rbac:perm:'' @ i"
definition keyRole :: "string \<Rightarrow> string" where "keyRole i = ''rbac:role:'' @ i"
definition keyRolePerms :: "string \<Rightarrow> string" where "keyRolePerms i = ''rbac:role_perms:'' @ i"
definition keyUserRoles :: "string \<Rightarrow> string" where "keyUserRoles i = ''rbac:user_roles:'' @ i"
definition keyPerms :: string where "keyPerms = ''rbac:perms''"
definition keyRoles :: string where "keyRoles = ''rbac:roles''"

definition rfc3339 :: "time \<Rightarrow> time" where
  "rfc3339 t = unix t * second"

definition perm_hash :: "permission \<Rightarrow> hash" where
  "perm_hash p = [(''permission_id'', Text (PermissionID p)), (''name'', Text (p_Name p)),
     (''description'', Text (p_Description p)), (''created_at'', Stamp (rfc3339 (p_CreatedAt p)))]"

definition role_hash :: "role_model \<Rightarrow> hash" where
  "role_hash r = [(''role_id'', Text (RoleID r)), (''name'', Text (r_Name r)),
     (''description'', Text (r_Description r)), (''created_at'', Stamp (rfc3339 (r_CreatedAt r)))]"

text \<open>A missing field reads as the empty string, an unreadable time as the zero time.\<close>

definition text_of :: "field option \<Rightarrow> string" where
  "text_of f = (case f of Some (Text t) \<Rightarrow> t | _ \<Rightarrow> '''')"

definition stamp_of :: "field option \<Rightarrow> time" where
  "stamp_of f = (case f of Some (Stamp t) \<Rightarrow> t | _ \<Rightarrow> 0)"

definition perm_of_hash :: "hash \<Rightarrow> permission" where
  "perm_of_hash h = \<lparr>PermissionID = text_of (map_of h ''permission_id''), p_Name = text_of (map_of h ''name''),
     p_Description = text_of (map_of h ''description''), p_CreatedAt = stamp_of (map_of h ''created_at'')\<rparr>"

definition role_of_hash :: "hash \<Rightarrow> role_model" where
  "role_of_hash h = \<lparr>RoleID = text_of (map_of h ''role_id''), r_Name = text_of (map_of h ''name''),
     r_Description = text_of (map_of h ''description''), r_CreatedAt = stamp_of (map_of h ''created_at'')\<rparr>"

text \<open>A pipeline of two commands fails if one of them does.\<close>

definition redis_SavePermission :: "permission \<Rightarrow> redis \<Rightarrow> rbac_err option \<times> redis" where
  "redis_SavePermission p r =
     (let (a, r1) = write_cmd (hset (keyPerm (PermissionID p)) (perm_hash p)) r;
          (b, r2) = write_cmd (sadd keyPerms (PermissionID p)) r1 in
      (if a \<and> b then None else Some RedisFailed, r2))"

definition redis_SaveRole :: "role_model \<Rightarrow> redis \<Rightarrow> rbac_err option \<times> redis" where
  "redis_SaveRole x r =
     (let (a, r1) = write_cmd (hset (keyRole (RoleID x)) (role_hash x)) r;
          (b, r2) = write_cmd (sadd keyRoles (RoleID x)) r1 in
      (if a \<and> b then None else Some RedisFailed, r2))"

definition redis_AssignPermissionToRole :: "string \<Rightarrow> string \<Rightarrow> redis \<Rightarrow> rbac_err option \<times> redis" where
  "redis_AssignPermissionToRole rid pid r =
     (let (a, r1) = write_cmd (sadd (keyRolePerms rid) pid) r in (if a then None else Some RedisFailed, r1))"

definition redis_AssignRoleToUser :: "string \<Rightarrow> string \<Rightarrow> redis \<Rightarrow> rbac_err option \<times> redis" where
  "redis_AssignRoleToUser u rid r =
     (let (a, r1) = write_cmd (sadd (keyUserRoles u) rid) r in (if a then None else Some RedisFailed, r1))"

definition redis_RemoveRoleFromUser :: "string \<Rightarrow> string \<Rightarrow> redis \<Rightarrow> rbac_err option \<times> redis" where
  "redis_RemoveRoleFromUser u rid r =
     (let (a, r1) = write_cmd (srem (keyUserRoles u) rid) r in (if a then None else Some RedisFailed, r1))"

text \<open>The loop over ids that reads one hash each and skips the ids it cannot read.\<close>

fun read_hashes :: "(string \<Rightarrow> string) \<Rightarrow> string list \<Rightarrow> redis \<Rightarrow> hash list \<times> redis" where
  "read_hashes key [] r = ([], r)"
| "read_hashes key (i # is) r =
     (let (h, r1) = read_cmd (hgetall (key i)) r;
          (hs, r2) = read_hashes key is r1 in
      (case h of None \<Rightarrow> hs | Some x \<Rightarrow> if x = [] then hs else x # hs, r2))"

definition redis_ListPermissions :: "redis \<Rightarrow> permission list \<times> redis" where
  "redis_ListPermissions r =
     (let (ids, r1) = read_cmd (smembers keyPerms) r in
      case ids of None \<Rightarrow> ([], r1)
      | Some is \<Rightarrow> (let (hs, r2) = read_hashes keyPerm is r1 in (map perm_of_hash hs, r2)))"

definition redis_ListRoles :: "redis \<Rightarrow> role_model list \<times> redis" where
  "redis_ListRoles r =
     (let (ids, r1) = read_cmd (smembers keyRoles) r in
      case ids of None \<Rightarrow> ([], r1)
      | Some is \<Rightarrow> (let (hs, r2) = read_hashes keyRole is r1 in (map role_of_hash hs, r2)))"

definition redis_UserRoles :: "string \<Rightarrow> redis \<Rightarrow> role_model list \<times> redis" where
  "redis_UserRoles u r =
     (let (ids, r1) = read_cmd (smembers (keyUserRoles u)) r in
      case ids of None \<Rightarrow> ([], r1)
      | Some is \<Rightarrow> (let (hs, r2) = read_hashes keyRole is r1 in (map role_of_hash hs, r2)))"

definition redis_GetPermissionByName :: "string \<Rightarrow> redis \<Rightarrow> permission option \<times> redis" where
  "redis_GetPermissionByName n r =
     (let (ps, r1) = redis_ListPermissions r in (find (\<lambda>p. p_Name p = n) ps, r1))"

definition redis_GetRoleByName :: "string \<Rightarrow> redis \<Rightarrow> role_model option \<times> redis" where
  "redis_GetRoleByName n r =
     (let (rs, r1) = redis_ListRoles r in (find (\<lambda>x. r_Name x = n) rs, r1))"

fun read_names :: "string list \<Rightarrow> redis \<Rightarrow> string list \<times> redis" where
  "read_names [] r = ([], r)"
| "read_names (i # is) r =
     (let (n, r1) = read_cmd (hget (keyPerm i) ''name'') r;
          (ns, r2) = read_names is r1 in
      (if text_of n \<noteq> '''' then text_of n # ns else ns, r2))"

definition redis_RolePermissionNames :: "string \<Rightarrow> redis \<Rightarrow> string list \<times> redis" where
  "redis_RolePermissionNames rid r =
     (let (ids, r1) = read_cmd (smembers (keyRolePerms rid)) r in
      case ids of None \<Rightarrow> ([], r1) | Some is \<Rightarrow> read_names is r1)"

fun perm_search :: "string \<Rightarrow> string list \<Rightarrow> redis \<Rightarrow> bool \<times> redis" where
  "perm_search perm [] r = (False, r)"
| "perm_search perm (i # is) r =
     (let (n, r1) = read_cmd (hget (keyPerm i) ''name'') r in
      if n = Some (Text perm) then (True, r1) else perm_search perm is r1)"

fun role_search :: "string \<Rightarrow> string list \<Rightarrow> redis \<Rightarrow> bool \<times> redis" where
  "role_search perm [] r = (False, r)"
| "role_search perm (i # is) r =
     (let (ids, r1) = read_cmd (smembers (keyRolePerms i)) r in
      case ids of None \<Rightarrow> role_search perm is r1
      | Some ps \<Rightarrow> (let (found, r2) = perm_search perm ps r1 in
          if found then (True, r2) else role_search perm is r2))"

definition redis_UserHasPermission :: "string \<Rightarrow> string \<Rightarrow> redis \<Rightarrow> bool \<times> redis" where
  "redis_UserHasPermission u perm r =
     (let (ids, r1) = read_cmd (smembers (keyUserRoles u)) r in
      case ids of None \<Rightarrow> (False, r1) | Some is \<Rightarrow> role_search perm is r1)"

text \<open>Redis is the source of the data and cannot itself be warmed.\<close>

definition redis_WarmFrom :: "redis \<Rightarrow> rbac_err option \<times> redis" where
  "redis_WarmFrom r = (Some WarmUnsupported, r)"

subsection \<open>Warming the cache, the layered store, the interface\<close>

text \<open>\<open>InMemRBACStore.WarmFrom\<close>, called with the Redis store: permissions, roles and their permissions.
  An unknown permission name is skipped and the error of an assignment is ignored.\<close>

fun warm_names :: "string \<Rightarrow> string list \<Rightarrow> inmem \<Rightarrow> inmem" where
  "warm_names rid [] m = m"
| "warm_names rid (n # ns) m =
     warm_names rid ns (case mem_GetPermissionByName n m of None \<Rightarrow> m
       | Some p \<Rightarrow> snd (mem_AssignPermissionToRole rid (PermissionID p) m))"

fun warm_roles :: "role_model list \<Rightarrow> inmem \<Rightarrow> redis \<Rightarrow> inmem \<times> redis" where
  "warm_roles [] m r = (m, r)"
| "warm_roles (x # xs) m r =
     (let (ns, r1) = redis_RolePermissionNames (RoleID x) r in
      warm_roles xs (warm_names (RoleID x) ns (mem_SaveRole x m)) r1)"

definition mem_WarmFrom :: "inmem \<Rightarrow> redis \<Rightarrow> inmem \<times> redis" where
  "mem_WarmFrom m r =
     (let (ps, r1) = redis_ListPermissions r;
          (rs, r2) = redis_ListRoles r1 in
      warm_roles rs (fold mem_SavePermission ps m) r2)"

record layered =
  l_mem :: inmem
  l_redis :: redis

definition NewLayeredRBACStore :: "inmem \<Rightarrow> redis \<Rightarrow> layered" where
  "NewLayeredRBACStore m r = \<lparr>l_mem = m, l_redis = r\<rparr>"

text \<open>The shape of the five writing methods: Redis first, and memory only if Redis returned no error.\<close>

definition write_through ::
  "(redis \<Rightarrow> rbac_err option \<times> redis) \<Rightarrow> (inmem \<Rightarrow> rbac_err option \<times> inmem) \<Rightarrow> layered \<Rightarrow> rbac_err option \<times> layered" where
  "write_through l2 l1 s =
     (let (e, r) = l2 (l_redis s) in
      case e of Some x \<Rightarrow> (Some x, s\<lparr>l_redis := r\<rparr>)
      | None \<Rightarrow> (let (e', m) = l1 (l_mem s) in (e', \<lparr>l_mem = m, l_redis = r\<rparr>)))"

definition layered_SavePermission :: "permission \<Rightarrow> layered \<Rightarrow> rbac_err option \<times> layered" where
  "layered_SavePermission p = write_through (redis_SavePermission p) (\<lambda>m. (None, mem_SavePermission p m))"

definition layered_SaveRole :: "role_model \<Rightarrow> layered \<Rightarrow> rbac_err option \<times> layered" where
  "layered_SaveRole x = write_through (redis_SaveRole x) (\<lambda>m. (None, mem_SaveRole x m))"

definition layered_AssignPermissionToRole :: "string \<Rightarrow> string \<Rightarrow> layered \<Rightarrow> rbac_err option \<times> layered" where
  "layered_AssignPermissionToRole rid pid =
     write_through (redis_AssignPermissionToRole rid pid) (mem_AssignPermissionToRole rid pid)"

definition layered_AssignRoleToUser :: "string \<Rightarrow> string \<Rightarrow> layered \<Rightarrow> rbac_err option \<times> layered" where
  "layered_AssignRoleToUser u rid = write_through (redis_AssignRoleToUser u rid) (mem_AssignRoleToUser u rid)"

definition layered_RemoveRoleFromUser :: "string \<Rightarrow> string \<Rightarrow> layered \<Rightarrow> rbac_err option \<times> layered" where
  "layered_RemoveRoleFromUser u rid =
     write_through (redis_RemoveRoleFromUser u rid) (\<lambda>m. (None, mem_RemoveRoleFromUser u rid m))"

definition layered_WarmFrom :: "layered \<Rightarrow> layered" where
  "layered_WarmFrom s = (let (m, r) = mem_WarmFrom (l_mem s) (l_redis s) in \<lparr>l_mem = m, l_redis = r\<rparr>)"

text \<open>The interface \<open>RBACStore\<close> as the service holds it: the in-memory store alone, or the layered one.
  Both read from memory.\<close>

datatype rbac = InMem inmem | Layered layered

fun cache :: "rbac \<Rightarrow> inmem" where
  "cache (InMem m) = m"
| "cache (Layered s) = l_mem s"

fun SavePermission :: "permission \<Rightarrow> rbac \<Rightarrow> rbac_err option \<times> rbac" where
  "SavePermission p (InMem m) = (None, InMem (mem_SavePermission p m))"
| "SavePermission p (Layered s) = map_prod id Layered (layered_SavePermission p s)"

fun SaveRole :: "role_model \<Rightarrow> rbac \<Rightarrow> rbac_err option \<times> rbac" where
  "SaveRole x (InMem m) = (None, InMem (mem_SaveRole x m))"
| "SaveRole x (Layered s) = map_prod id Layered (layered_SaveRole x s)"

fun AssignPermissionToRole :: "string \<Rightarrow> string \<Rightarrow> rbac \<Rightarrow> rbac_err option \<times> rbac" where
  "AssignPermissionToRole rid pid (InMem m) = map_prod id InMem (mem_AssignPermissionToRole rid pid m)"
| "AssignPermissionToRole rid pid (Layered s) = map_prod id Layered (layered_AssignPermissionToRole rid pid s)"

fun AssignRoleToUser :: "string \<Rightarrow> string \<Rightarrow> rbac \<Rightarrow> rbac_err option \<times> rbac" where
  "AssignRoleToUser u rid (InMem m) = map_prod id InMem (mem_AssignRoleToUser u rid m)"
| "AssignRoleToUser u rid (Layered s) = map_prod id Layered (layered_AssignRoleToUser u rid s)"

fun RemoveRoleFromUser :: "string \<Rightarrow> string \<Rightarrow> rbac \<Rightarrow> rbac_err option \<times> rbac" where
  "RemoveRoleFromUser u rid (InMem m) = (None, InMem (mem_RemoveRoleFromUser u rid m))"
| "RemoveRoleFromUser u rid (Layered s) = map_prod id Layered (layered_RemoveRoleFromUser u rid s)"

definition GetPermissionByName :: "string \<Rightarrow> rbac \<Rightarrow> permission option" where
  "GetPermissionByName n s = mem_GetPermissionByName n (cache s)"

definition GetRoleByName :: "string \<Rightarrow> rbac \<Rightarrow> role_model option" where
  "GetRoleByName n s = mem_GetRoleByName n (cache s)"

definition RolePermissionNames :: "string \<Rightarrow> rbac \<Rightarrow> string list" where
  "RolePermissionNames rid s = mem_RolePermissionNames rid (cache s)"

definition UserRoles :: "string \<Rightarrow> rbac \<Rightarrow> role_model list" where
  "UserRoles u s = mem_UserRoles u (cache s)"

definition UserHasPermission :: "string \<Rightarrow> string \<Rightarrow> rbac \<Rightarrow> bool" where
  "UserHasPermission u perm s = mem_UserHasPermission u perm (cache s)"

subsection \<open>The contract of a store, and the loops over it\<close>

text \<open>The two loops of the service: over assignments, stopping at the first error, and over removals,
  ignoring errors.\<close>

fun each_until_err :: "('a \<Rightarrow> 's \<Rightarrow> 'e option \<times> 's) \<Rightarrow> 'a list \<Rightarrow> 's \<Rightarrow> 'e option \<times> 's" where
  "each_until_err f [] s = (None, s)"
| "each_until_err f (x # xs) s =
     (case f x s of (Some e, s') \<Rightarrow> (Some e, s') | (None, s') \<Rightarrow> each_until_err f xs s')"

definition each_ignoring :: "('a \<Rightarrow> 's \<Rightarrow> 'e option \<times> 's) \<Rightarrow> 'a list \<Rightarrow> 's \<Rightarrow> 's" where
  "each_ignoring f xs s = fold (\<lambda>x s. snd (f x s)) xs s"

lemma each_ignoring_simps [simp]:
  "each_ignoring f [] s = s"
  "each_ignoring f (x # xs) s = each_ignoring f xs (snd (f x s))"
  by (simp_all add: each_ignoring_def)

text \<open>\<open>rids\<close> are the roles of each user, \<open>defs\<close> all that assignments must not touch (role and permission
  definitions), \<open>known\<close> the roles that may be assigned.\<close>

locale role_assignments =
  fixes assign remove :: "string \<Rightarrow> string \<Rightarrow> 's \<Rightarrow> 'e option \<times> 's"
    and rids :: "'s \<Rightarrow> string \<Rightarrow> string set"
    and defs :: "'s \<Rightarrow> 'd"
    and known :: "'d \<Rightarrow> string set"
  assumes assign_done: "assign u x s = (None, s') \<Longrightarrow> rids s' = (rids s)(u := insert x (rids s u)) \<and> x \<in> known (defs s)"
    and assign_failed: "assign u x s = (Some e, s') \<Longrightarrow> rids s' = rids s"
    and remove_done: "remove u x s = (None, s') \<Longrightarrow> rids s' = (rids s)(u := rids s u - {x})"
    and remove_failed: "remove u x s = (Some e, s') \<Longrightarrow> rids s' = rids s"
    and assign_defs [simp]: "defs (snd (assign u x s)) = defs s"
    and remove_defs [simp]: "defs (snd (remove u x s)) = defs s"
begin

lemma assign_rids:
  "rids (snd (assign u x s)) = (rids s)(u := rids s u \<union> (if fst (assign u x s) = None then {x} else {}))"
  using assign_done [of u x s] assign_failed [of u x s]
  by (cases "assign u x s"; cases "fst (assign u x s)") auto

lemma remove_rids:
  "rids (snd (remove u x s)) = (rids s)(u := rids s u - (if fst (remove u x s) = None then {x} else {}))"
  using remove_done [of u x s] remove_failed [of u x s]
  by (cases "remove u x s"; cases "fst (remove u x s)") auto

lemma each_assign:
  assumes "each_until_err (assign u) xs s = (e, s')"
  shows "defs s' = defs s \<and> rids s u \<subseteq> rids s' u \<and> rids s' u \<subseteq> rids s u \<union> set xs
         \<and> (\<forall>v. v \<noteq> u \<longrightarrow> rids s' v = rids s v) \<and> (e = None \<longrightarrow> rids s' u = rids s u \<union> set xs \<and> set xs \<subseteq> known (defs s))"
  using assms
proof (induction xs arbitrary: s)
  case (Cons x xs)
  obtain a t where a: "assign u x s = (a, t)" by (cases "assign u x s")
  have t: "defs t = defs s" "rids t = (rids s)(u := rids s u \<union> (if a = None then {x} else {}))"
    using assign_defs [of u x s] assign_rids [of u x s] by (simp_all add: a)
  show ?case
  proof (cases a)
    case None
    with a Cons.prems have "each_until_err (assign u) xs t = (e, s')" by simp
    from Cons.IH [OF this] t None assign_done [of u x s t] a show ?thesis by auto
  next
    case (Some y)
    with a Cons.prems have "e = Some y" "s' = t" by auto
    with t Some show ?thesis by auto
  qed
qed simp

lemma each_remove:
  "defs (each_ignoring (remove u) xs s) = defs s
   \<and> (\<forall>v. v \<noteq> u \<longrightarrow> rids (each_ignoring (remove u) xs s) v = rids s v)
   \<and> rids s u - set xs \<subseteq> rids (each_ignoring (remove u) xs s) u \<and> rids (each_ignoring (remove u) xs s) u \<subseteq> rids s u"
proof (induction xs arbitrary: s)
  case (Cons x xs)
  have "defs (snd (remove u x s)) = defs s" by simp
  with Cons.IH [of "snd (remove u x s)"] remove_rids [of u x s] show ?case
    by (auto split: if_splits)
qed simp

end

text \<open>A store that carries out every request it is able to carry out: memory, or Redis with no reply lost.\<close>

locale reliable_assignments = role_assignments assign remove rids defs known
  for assign remove :: "string \<Rightarrow> string \<Rightarrow> 's \<Rightarrow> 'e option \<times> 's"
    and rids :: "'s \<Rightarrow> string \<Rightarrow> string set" and defs :: "'s \<Rightarrow> 'd" and known :: "'d \<Rightarrow> string set" +
  fixes reliable :: "'s \<Rightarrow> bool"
  assumes assign_works: "reliable s \<Longrightarrow> x \<in> known (defs s) \<Longrightarrow> fst (assign u x s) = None"
    and remove_works: "reliable s \<Longrightarrow> fst (remove u x s) = None"
    and assign_reliable: "reliable s \<Longrightarrow> reliable (snd (assign u x s))"
    and remove_reliable: "reliable s \<Longrightarrow> reliable (snd (remove u x s))"
begin

lemma each_remove_exact:
  "reliable s \<Longrightarrow> reliable (each_ignoring (remove u) xs s) \<and>
   rids (each_ignoring (remove u) xs s) = (rids s)(u := rids s u - set xs)"
proof (induction xs arbitrary: s)
  case (Cons x xs)
  have "reliable (snd (remove u x s))" using Cons.prems by (rule remove_reliable)
  from Cons.IH [OF this] show ?case
    using remove_works [OF Cons.prems, of u x] remove_rids [of u x s]
    by (simp add: Diff_insert2 [symmetric] insert_commute fun_eq_iff)
qed simp

lemma each_assign_works:
  "reliable s \<Longrightarrow> set xs \<subseteq> known (defs s) \<Longrightarrow>
   fst (each_until_err (assign u) xs s) = None \<and> reliable (snd (each_until_err (assign u) xs s))"
proof (induction xs arbitrary: s)
  case (Cons x xs)
  obtain t where t: "assign u x s = (None, t)"
    using assign_works [of s x u] Cons.prems by (cases "assign u x s") auto
  have "reliable t" "defs t = defs s"
    using assign_reliable [of s u x] assign_defs [of u x s] Cons.prems t by auto
  with Cons.IH [of t] Cons.prems t show ?case by simp
qed simp

text \<open>The two loops together, as a role update runs them, leave exactly the new roles.\<close>

lemma replace_roles:
  assumes "reliable s" "set xs \<subseteq> known (defs s)" "rids s u \<subseteq> set old"
  shows "\<exists>s'. each_until_err (assign u) xs (each_ignoring (remove u) old s) = (None, s')
           \<and> rids s' = (rids s)(u := set xs) \<and> defs s' = defs s \<and> reliable s'"
proof -
  let ?t = "each_ignoring (remove u) old s"
  have e: "rids s u - set old = {}" using assms(3) by blast
  have t: "reliable ?t" "rids ?t = (rids s)(u := {})" "defs ?t = defs s"
    using each_remove_exact [OF assms(1), of u old, unfolded e] each_remove [of u old s] by simp_all
  obtain s' where s': "each_until_err (assign u) xs ?t = (None, s')" "reliable s'"
    using each_assign_works [of ?t xs u] t assms(2) by (cases "each_until_err (assign u) xs ?t") auto
  from each_assign [OF s'(1)] t have "rids s' = (rids s)(u := set xs)" "defs s' = defs s"
    by (auto simp: fun_eq_iff)
  with s' show ?thesis by blast
qed

end

subsection \<open>What single commands and writes do\<close>

lemma keys_distinct [simp]:
  "keyPerm i \<noteq> keyPerms" "keyPerm i \<noteq> keyRoles" "keyPerm i \<noteq> keyRole j" "keyPerm i \<noteq> keyRolePerms j"
  "keyPerm i \<noteq> keyUserRoles j" "keyRole i \<noteq> keyPerms" "keyRole i \<noteq> keyRoles" "keyRole i \<noteq> keyRolePerms j"
  "keyRole i \<noteq> keyUserRoles j" "keyRolePerms i \<noteq> keyPerms" "keyRolePerms i \<noteq> keyRoles"
  "keyRolePerms i \<noteq> keyUserRoles j" "keyUserRoles i \<noteq> keyPerms" "keyUserRoles i \<noteq> keyRoles" "keyPerms \<noteq> keyRoles"
  by (simp_all add: keyPerm_def keyPerms_def keyRoles_def keyRole_def keyRolePerms_def keyUserRoles_def)

lemmas keys_distinct' [simp] = keys_distinct [symmetric]

lemma keys_inj [simp]:
  "keyPerm i = keyPerm j \<longleftrightarrow> i = j" "keyRole i = keyRole j \<longleftrightarrow> i = j"
  "keyRolePerms i = keyRolePerms j \<longleftrightarrow> i = j" "keyUserRoles i = keyUserRoles j \<longleftrightarrow> i = j"
  by (simp_all add: keyPerm_def keyRole_def keyRolePerms_def keyUserRoles_def)

text \<open>The members of a set key, the hash of a hash key.\<close>

definition sset :: "string \<Rightarrow> keyspace \<Rightarrow> string set" where
  "sset k d = (case d k of Some (RSet s) \<Rightarrow> set s | _ \<Rightarrow> {})"

definition set_key :: "string \<Rightarrow> bool" where
  "set_key k \<longleftrightarrow> k \<in> {keyPerms, keyRoles} \<union> range keyRolePerms \<union> range keyUserRoles"

lemma set_keys [simp]: "set_key keyPerms" "set_key keyRoles" "set_key (keyRolePerms i)" "set_key (keyUserRoles i)"
  "\<not> set_key (keyPerm i)" "\<not> set_key (keyRole i)"
  by (auto simp: set_key_def)

text \<open>The keys hold values of their type, and the hashes are those that the store writes.\<close>

definition perm_at :: "keyspace \<Rightarrow> string \<Rightarrow> bool" where
  "perm_at d i \<longleftrightarrow> d (keyPerm i) = None \<or> (\<exists>p. d (keyPerm i) = Some (RHash (perm_hash p)) \<and> PermissionID p = i)"

definition role_at :: "keyspace \<Rightarrow> string \<Rightarrow> bool" where
  "role_at d i \<longleftrightarrow> d (keyRole i) = None \<or> (\<exists>x. d (keyRole i) = Some (RHash (role_hash x)) \<and> RoleID x = i)"

definition set_at :: "keyspace \<Rightarrow> string \<Rightarrow> bool" where
  "set_at d k \<longleftrightarrow> d k = None \<or> (\<exists>s. d k = Some (RSet s))"

definition typed :: "keyspace \<Rightarrow> bool" where
  "typed d \<longleftrightarrow> (\<forall>i. perm_at d i) \<and> (\<forall>i. role_at d i) \<and> (\<forall>k. set_key k \<longrightarrow> set_at d k)"

lemma typed_set: "typed d \<Longrightarrow> set_key k \<Longrightarrow> d k = None \<or> (\<exists>s. d k = Some (RSet s))"
  unfolding typed_def set_at_def by blast

lemma typed_perm: "typed d \<Longrightarrow> d (keyPerm i) = None \<or> (\<exists>p. d (keyPerm i) = Some (RHash (perm_hash p)) \<and> PermissionID p = i)"
  unfolding typed_def perm_at_def by blast

lemma typed_role: "typed d \<Longrightarrow> d (keyRole i) = None \<or> (\<exists>x. d (keyRole i) = Some (RHash (role_hash x)) \<and> RoleID x = i)"
  unfolding typed_def role_at_def by blast

lemma typed_empty [simp]: "typed Map.empty"
  by (simp add: typed_def perm_at_def role_at_def set_at_def)

lemma typed_upd:
  assumes "typed d" and "\<And>j. j \<noteq> k \<Longrightarrow> d' j = d j"
    and "\<And>i. k = keyPerm i \<Longrightarrow> perm_at d' i" "\<And>i. k = keyRole i \<Longrightarrow> role_at d' i" "set_key k \<Longrightarrow> set_at d' k"
  shows "typed d'"
  unfolding typed_def
proof (intro conjI allI impI)
  fix i show "perm_at d' i"
    using typed_perm [OF assms(1), of i] assms(2) [of "keyPerm i"] assms(3) [of i]
    by (cases "k = keyPerm i") (simp_all add: perm_at_def)
  show "role_at d' i"
    using typed_role [OF assms(1), of i] assms(2) [of "keyRole i"] assms(4) [of i]
    by (cases "k = keyRole i") (simp_all add: role_at_def)
next
  fix j assume "set_key j"
  then show "set_at d' j"
    using typed_set [OF assms(1), of j] assms(2) [of j] assms(5) by (cases "k = j") (simp_all add: set_at_def)
qed

lemma typed_upd_set: "typed d \<Longrightarrow> set_key k \<Longrightarrow> typed (d(k \<mapsto> RSet s))"
  by (rule typed_upd [of d k]) (auto simp: set_at_def)

lemma typed_delete: "typed d \<Longrightarrow> set_key k \<Longrightarrow> typed (map_delete k d)"
  by (rule typed_upd [of d k]) (auto simp: set_at_def)

lemma typed_hset_perm: "typed d \<Longrightarrow> typed (d(keyPerm (PermissionID p) \<mapsto> RHash (perm_hash p)))"
  by (rule typed_upd [of d "keyPerm (PermissionID p)"]) (auto simp: perm_at_def)

lemma typed_hset_role: "typed d \<Longrightarrow> typed (d(keyRole (RoleID x) \<mapsto> RHash (role_hash x)))"
  by (rule typed_upd [of d "keyRole (RoleID x)"]) (auto simp: role_at_def)

lemma hash_overwrites [simp]:
  "AList.merge (perm_hash q) (perm_hash p) = perm_hash p" "AList.merge (role_hash y) (role_hash x) = role_hash x"
  by (simp_all add: perm_hash_def role_hash_def)

lemma hset_perm: "typed d \<Longrightarrow> hset (keyPerm (PermissionID p)) (perm_hash p) d = Some (d(keyPerm (PermissionID p) \<mapsto> RHash (perm_hash p)))"
  using typed_perm [of d "PermissionID p"] by (auto simp: hset_def)

lemma hset_role: "typed d \<Longrightarrow> hset (keyRole (RoleID x)) (role_hash x) d = Some (d(keyRole (RoleID x) \<mapsto> RHash (role_hash x)))"
  using typed_role [of d "RoleID x"] by (auto simp: hset_def)

lemma sadd_typed:
  "typed d \<Longrightarrow> set_key k \<Longrightarrow> \<exists>s. sadd k v d = Some (d(k \<mapsto> RSet s)) \<and> set s = insert v (sset k d)"
  using typed_set [of d k] by (auto simp: sadd_def sset_def)

lemma srem_typed:
  assumes "typed d" "set_key k"
  shows "\<exists>d'. srem k v d = Some d' \<and> typed d' \<and> sset k d' = sset k d - {v} \<and> (\<forall>j. j \<noteq> k \<longrightarrow> d' j = d j)"
proof (cases "d k")
  case None
  then show ?thesis using assms by (auto simp: srem_def sset_def)
next
  case (Some a)
  with typed_set [OF assms] obtain s where "d k = Some (RSet s)" by auto
  moreover have "removeAll v s = [] \<Longrightarrow> set s \<subseteq> {v}"
    by (metis Diff_eq_empty_iff list.set(1) set_removeAll)
  ultimately show ?thesis
    using assms by (auto simp: srem_def Let_def sset_def typed_upd_set typed_delete)
qed

lemma sset_upd [simp]: "sset k (d(k \<mapsto> RSet s)) = set s" "sset k (d(k \<mapsto> RHash h)) = {}"
  "j \<noteq> k \<Longrightarrow> sset j (d(k \<mapsto> x)) = sset j d"
  by (simp_all add: sset_def)

text \<open>A command was carried out or not; without an error it was, and a reply that is not lost after the
  command was carried out tells the truth.\<close>

lemma write_cmd_cases:
  assumes "write_cmd f r = (ok, r')" "f (db r) = Some d"
  shows "db r' = d \<or> db r' = db r" and "ok \<Longrightarrow> db r' = d"
    and "fst (pop r) \<noteq> Lost True \<Longrightarrow> \<not> ok \<Longrightarrow> db r' = db r"
    and "net r = [] \<Longrightarrow> ok \<and> net r' = []"
proof -
  obtain a q where q: "pop r = (a, q)" by (cases "pop r")
  then have "db q = db r" and n: "net r = [] \<Longrightarrow> a = Ack \<and> net q = []"
    by (auto simp: pop_def split: list.splits)
  with assms q have r': "ok = (a = Ack)" "r' = (if applied a then q\<lparr>db := d\<rparr> else q)"
    by (auto simp: write_cmd_def)
  from r' \<open>db q = db r\<close> show "db r' = d \<or> db r' = db r" "ok \<Longrightarrow> db r' = d"
    by auto
  show "fst (pop r) \<noteq> Lost True \<Longrightarrow> \<not> ok \<Longrightarrow> db r' = db r"
    using r' q \<open>db q = db r\<close> by (cases a) auto
  show "net r = [] \<Longrightarrow> ok \<and> net r' = []"
    using r' n by auto
qed

text \<open>A key space that has grown: no set lost a member, no permission its name, no role its hash.\<close>

definition perm_name :: "keyspace \<Rightarrow> string \<Rightarrow> field option" where
  "perm_name d i = hget (keyPerm i) ''name'' d"

definition extends :: "keyspace \<Rightarrow> keyspace \<Rightarrow> bool" where
  "extends d d' \<longleftrightarrow> (\<forall>k. sset k d \<subseteq> sset k d') \<and> (\<forall>i n. perm_name d i = Some n \<longrightarrow> perm_name d' i = Some n)
     \<and> (\<forall>i. d (keyRole i) \<noteq> None \<longrightarrow> d' (keyRole i) \<noteq> None)"

lemma extends_refl [simp]: "extends d d"
  by (simp add: extends_def)

lemma extends_trans: "extends a b \<Longrightarrow> extends b c \<Longrightarrow> extends a c"
  unfolding extends_def by blast

lemma perm_name_upd [simp]:
  "perm_name (d(keyPerm i \<mapsto> RHash (perm_hash p))) j = (if i = j then Some (Text (p_Name p)) else perm_name d j)"
  "k \<noteq> keyPerm j \<Longrightarrow> perm_name (d(k \<mapsto> v)) j = perm_name d j"
  by (simp_all add: perm_name_def hget_def hgetall_def perm_hash_def)

lemma set_key_not_hash: "set_key k \<Longrightarrow> k \<noteq> keyPerm i \<and> k \<noteq> keyRole i"
  using set_keys by blast

lemma write_cmd_grows:
  assumes "write_cmd f r = (ok, r')" "f (db r) = Some d" "typed (db r)" "typed d" "extends (db r) d" "R d"
  shows "typed (db r') \<and> extends (db r) (db r') \<and> (ok \<longrightarrow> R (db r')) \<and> (net r = [] \<longrightarrow> ok \<and> net r' = [])"
  using write_cmd_cases [OF assms(1,2)] assms(3-6) extends_refl by metis

lemma sadd_cmd:
  assumes "write_cmd (sadd k v) r = (ok, r')" "typed (db r)" "set_key k"
  shows "typed (db r') \<and> extends (db r) (db r') \<and> (ok \<longrightarrow> v \<in> sset k (db r')) \<and> (net r = [] \<longrightarrow> ok \<and> net r' = [])"
proof -
  obtain s where s: "sadd k v (db r) = Some ((db r)(k \<mapsto> RSet s))" "set s = insert v (sset k (db r))"
    using sadd_typed [OF assms(2,3)] by blast
  let ?d = "(db r)(k \<mapsto> RSet s)"
  have t: "typed ?d" using assms(2,3) by (rule typed_upd_set)
  have "sset j (db r) \<subseteq> sset j ?d" for j
    using s(2) by (cases "j = k") auto
  moreover have "perm_name ?d i = perm_name (db r) i" "?d (keyRole i) = db r (keyRole i)" for i
    using set_key_not_hash [OF assms(3)] by (metis perm_name_upd(2), metis fun_upd_other)
  ultimately have e: "extends (db r) ?d" unfolding extends_def by metis
  have "v \<in> sset k ?d" using s(2) by simp
  from write_cmd_grows [where R = "\<lambda>d. v \<in> sset k d", OF assms(1) s(1) assms(2) t e this] show ?thesis .
qed

lemma srem_cmd:
  assumes "write_cmd (srem k v) r = (ok, r')" "typed (db r)" "set_key k"
  shows "typed (db r') \<and> (\<forall>j. j \<noteq> k \<longrightarrow> db r' j = db r j) \<and> sset k (db r) - {v} \<subseteq> sset k (db r')
     \<and> (fst (pop r) \<noteq> Lost True \<longrightarrow> \<not> ok \<longrightarrow> db r' = db r) \<and> (net r = [] \<longrightarrow> ok \<and> net r' = [])"
proof -
  obtain d where d: "srem k v (db r) = Some d" "typed d" "sset k d = sset k (db r) - {v}"
      "\<forall>j. j \<noteq> k \<longrightarrow> d j = db r j"
    using srem_typed [OF assms(2,3)] by blast
  note c = write_cmd_cases [OF assms(1) d(1)]
  show ?thesis
    using c(1) c(3,4) d(2,3,4) assms(2) by (elim disjE) simp_all
qed

lemma hset_perm_cmd:
  assumes "write_cmd (hset (keyPerm (PermissionID p)) (perm_hash p)) r = (ok, r')" "typed (db r)"
    and "perm_name (db r) (PermissionID p) \<in> {None, Some (Text (p_Name p))}"
  shows "typed (db r') \<and> extends (db r) (db r') \<and> (ok \<longrightarrow> perm_name (db r') (PermissionID p) = Some (Text (p_Name p)))
     \<and> (net r = [] \<longrightarrow> ok \<and> net r' = [])"
proof -
  let ?k = "keyPerm (PermissionID p)" and ?d = "(db r)(keyPerm (PermissionID p) \<mapsto> RHash (perm_hash p))"
  have "sset ?k (db r) = {}" using typed_perm [OF assms(2), of "PermissionID p"] by (auto simp: sset_def)
  then have "sset j (db r) \<subseteq> sset j ?d" for j by (cases "j = ?k") auto
  moreover have "perm_name (db r) i = Some n \<Longrightarrow> perm_name ?d i = Some n" for i n using assms(3) by auto
  ultimately have e: "extends (db r) ?d" unfolding extends_def by simp
  have "perm_name ?d (PermissionID p) = Some (Text (p_Name p))" by simp
  from write_cmd_grows [where R = "\<lambda>d. perm_name d (PermissionID p) = Some (Text (p_Name p))",
      OF assms(1) hset_perm [OF assms(2)] assms(2) typed_hset_perm [OF assms(2)] e this]
  show ?thesis .
qed

lemma hset_role_cmd:
  assumes "write_cmd (hset (keyRole (RoleID x)) (role_hash x)) r = (ok, r')" "typed (db r)"
  shows "typed (db r') \<and> extends (db r) (db r') \<and> (ok \<longrightarrow> db r' (keyRole (RoleID x)) \<noteq> None)
     \<and> (net r = [] \<longrightarrow> ok \<and> net r' = [])"
proof -
  let ?k = "keyRole (RoleID x)" and ?d = "(db r)(keyRole (RoleID x) \<mapsto> RHash (role_hash x))"
  have "sset ?k (db r) = {}" using typed_role [OF assms(2), of "RoleID x"] by (auto simp: sset_def)
  then have "sset j (db r) \<subseteq> sset j ?d" for j by (cases "j = ?k") auto
  then have e: "extends (db r) ?d" unfolding extends_def by simp
  have "?d ?k \<noteq> None" by simp
  from write_cmd_grows [where R = "\<lambda>d. d ?k \<noteq> None",
      OF assms(1) hset_role [OF assms(2)] assms(2) typed_hset_role [OF assms(2)] e this]
  show ?thesis .
qed

subsection \<open>The stores meet the contract\<close>

definition mem_rids :: "inmem \<Rightarrow> string \<Rightarrow> string set" where
  "mem_rids m u = set (userRoles m u)"

definition mem_defs :: "inmem \<Rightarrow> inmem" where
  "mem_defs m = m\<lparr>userRoles := (\<lambda>_. [])\<rparr>"

definition known_roles :: "inmem \<Rightarrow> string set" where
  "known_roles m = dom (map_of (roles m))"

lemma known_mem_defs [simp]: "known_roles (mem_defs m) = known_roles m"
  by (simp add: known_roles_def mem_defs_def)

interpretation mem_roles: reliable_assignments mem_AssignRoleToUser
  "\<lambda>u x m. (None :: rbac_err option, mem_RemoveRoleFromUser u x m)" mem_rids mem_defs known_roles "\<lambda>_. True"
  by unfold_locales
     (auto simp: mem_AssignRoleToUser_def mem_RemoveRoleFromUser_def mem_rids_def mem_defs_def known_roles_def fun_eq_iff
       split: if_splits)

fun reliable :: "rbac \<Rightarrow> bool" where
  "reliable (InMem m) \<longleftrightarrow> True"
| "reliable (Layered s) \<longleftrightarrow> net (l_redis s) = [] \<and> typed (db (l_redis s))"

lemma write_through_cases:
  assumes "write_through l2 l1 s = (e, s')"
  obtains (rejected) x r where "l2 (l_redis s) = (Some x, r)" "e = Some x" "s' = s\<lparr>l_redis := r\<rparr>"
    | (through) m r where "l2 (l_redis s) = (None, r)" "l1 (l_mem s) = (e, m)" "s' = \<lparr>l_mem = m, l_redis = r\<rparr>"
  using assms by (auto simp: write_through_def split: prod.splits option.splits)

lemma redis_assign_role:
  assumes "redis_AssignRoleToUser u x r = (e, r')" "typed (db r)"
  shows "typed (db r') \<and> extends (db r) (db r') \<and> (e = None \<longrightarrow> x \<in> sset (keyUserRoles u) (db r'))
     \<and> (net r = [] \<longrightarrow> e = None \<and> net r' = [])"
  using assms sadd_cmd [of "keyUserRoles u" x r]
  by (auto simp: redis_AssignRoleToUser_def split: prod.splits if_splits)

lemma redis_assign_perm:
  assumes "redis_AssignPermissionToRole x p r = (e, r')" "typed (db r)"
  shows "typed (db r') \<and> extends (db r) (db r') \<and> (e = None \<longrightarrow> p \<in> sset (keyRolePerms x) (db r'))
     \<and> (net r = [] \<longrightarrow> e = None \<and> net r' = [])"
  using assms sadd_cmd [of "keyRolePerms x" p r]
  by (auto simp: redis_AssignPermissionToRole_def split: prod.splits if_splits)

lemma redis_remove_role:
  assumes "redis_RemoveRoleFromUser u x r = (e, r')" "typed (db r)"
  shows "typed (db r') \<and> (\<forall>j. j \<noteq> keyUserRoles u \<longrightarrow> db r' j = db r j)
     \<and> sset (keyUserRoles u) (db r) - {x} \<subseteq> sset (keyUserRoles u) (db r')
     \<and> (fst (pop r) \<noteq> Lost True \<longrightarrow> e \<noteq> None \<longrightarrow> db r' = db r) \<and> (net r = [] \<longrightarrow> e = None \<and> net r' = [])"
  using assms srem_cmd [of "keyUserRoles u" x r]
  by (auto simp: redis_RemoveRoleFromUser_def split: prod.splits if_splits)

lemma redis_save_perm:
  assumes "redis_SavePermission p r = (e, r')" "typed (db r)"
    and "perm_name (db r) (PermissionID p) \<in> {None, Some (Text (p_Name p))}"
  shows "typed (db r') \<and> extends (db r) (db r') \<and> (net r = [] \<longrightarrow> e = None \<and> net r' = [])
     \<and> (e = None \<longrightarrow> perm_name (db r') (PermissionID p) = Some (Text (p_Name p)) \<and> PermissionID p \<in> sset keyPerms (db r'))"
proof -
  obtain a r1 b r2 where c: "write_cmd (hset (keyPerm (PermissionID p)) (perm_hash p)) r = (a, r1)"
      "write_cmd (sadd keyPerms (PermissionID p)) r1 = (b, r2)"
    by (meson surj_pair)
  then have e: "e = (if a \<and> b then None else Some RedisFailed)" "r' = r2"
    using assms(1) by (auto simp: redis_SavePermission_def)
  note h = hset_perm_cmd [OF c(1) assms(2,3)]
  note t = sadd_cmd [OF c(2)]
  have "extends (db r) (db r2)" using extends_trans [of "db r" "db r1" "db r2"] h t by simp
  moreover have "perm_name (db r1) (PermissionID p) = Some (Text (p_Name p)) \<Longrightarrow>
      perm_name (db r2) (PermissionID p) = Some (Text (p_Name p))"
    using t h unfolding extends_def by simp
  ultimately show ?thesis using h t e by auto
qed

lemma redis_save_role:
  assumes "redis_SaveRole x r = (e, r')" "typed (db r)"
  shows "typed (db r') \<and> extends (db r) (db r') \<and> (net r = [] \<longrightarrow> e = None \<and> net r' = [])
     \<and> (e = None \<longrightarrow> db r' (keyRole (RoleID x)) \<noteq> None \<and> RoleID x \<in> sset keyRoles (db r'))"
proof -
  obtain a r1 b r2 where c: "write_cmd (hset (keyRole (RoleID x)) (role_hash x)) r = (a, r1)"
      "write_cmd (sadd keyRoles (RoleID x)) r1 = (b, r2)"
    by (meson surj_pair)
  then have e: "e = (if a \<and> b then None else Some RedisFailed)" "r' = r2"
    using assms(1) by (auto simp: redis_SaveRole_def)
  note h = hset_role_cmd [OF c(1) assms(2)]
  note t = sadd_cmd [OF c(2)]
  have "extends (db r) (db r2)" using extends_trans [of "db r" "db r1" "db r2"] h t by simp
  moreover have "db r1 (keyRole (RoleID x)) \<noteq> None \<Longrightarrow> db r2 (keyRole (RoleID x)) \<noteq> None"
    using t h unfolding extends_def by simp
  ultimately show ?thesis using h t e by auto
qed

definition store_rids :: "rbac \<Rightarrow> string \<Rightarrow> string set" where
  "store_rids s = mem_rids (cache s)"

definition store_defs :: "rbac \<Rightarrow> inmem" where
  "store_defs s = mem_defs (cache s)"

lemma layered_assign_cache:
  assumes "layered_AssignRoleToUser u x s = (e, s')"
  shows "l_mem s' = l_mem s \<and> e \<noteq> None \<or> mem_AssignRoleToUser u x (l_mem s) = (e, l_mem s')"
  using assms unfolding layered_AssignRoleToUser_def by (cases rule: write_through_cases) auto

lemma layered_remove_cache:
  assumes "layered_RemoveRoleFromUser u x s = (e, s')"
  shows "l_mem s' = l_mem s \<and> e \<noteq> None \<or> e = None \<and> l_mem s' = mem_RemoveRoleFromUser u x (l_mem s)"
  using assms unfolding layered_RemoveRoleFromUser_def by (cases rule: write_through_cases) auto

lemma store_assign_cache:
  assumes "AssignRoleToUser u x s = (e, s')"
  shows "cache s' = cache s \<and> e \<noteq> None \<or> mem_AssignRoleToUser u x (cache s) = (e, cache s')"
proof (cases s)
  case (InMem m)
  then show ?thesis using assms by (cases "mem_AssignRoleToUser u x m") auto
next
  case (Layered t)
  then show ?thesis using assms layered_assign_cache [of u x t]
    by (cases "layered_AssignRoleToUser u x t") auto
qed

lemma store_remove_cache:
  assumes "RemoveRoleFromUser u x s = (e, s')"
  shows "cache s' = cache s \<and> e \<noteq> None \<or> e = None \<and> cache s' = mem_RemoveRoleFromUser u x (cache s)"
proof (cases s)
  case (InMem m)
  then show ?thesis using assms by auto
next
  case (Layered t)
  then show ?thesis using assms layered_remove_cache [of u x t]
    by (cases "layered_RemoveRoleFromUser u x t") auto
qed

lemma store_assign_reliable:
  assumes "reliable s" "AssignRoleToUser u x s = (e, s')"
  shows "reliable s' \<and> mem_AssignRoleToUser u x (cache s) = (e, cache s')"
proof (cases s)
  case (InMem m)
  then show ?thesis using assms by (cases "mem_AssignRoleToUser u x m") auto
next
  case (Layered t)
  obtain a t' where t': "layered_AssignRoleToUser u x t = (a, t')" by (cases "layered_AssignRoleToUser u x t")
  then have "e = a" "s' = Layered t'" using assms(2) Layered by auto
  moreover obtain b r where r: "redis_AssignRoleToUser u x (l_redis t) = (b, r)"
    by (cases "redis_AssignRoleToUser u x (l_redis t)")
  moreover have "b = None \<and> net r = [] \<and> typed (db r)"
    using redis_assign_role [OF r] assms(1) Layered by simp
  ultimately show ?thesis
    using t' Layered by (auto simp: layered_AssignRoleToUser_def write_through_def split: prod.splits)
qed

lemma store_remove_reliable:
  assumes "reliable s" "RemoveRoleFromUser u x s = (e, s')"
  shows "reliable s' \<and> e = None"
proof (cases s)
  case (InMem m)
  then show ?thesis using assms by auto
next
  case (Layered t)
  obtain b r where r: "redis_RemoveRoleFromUser u x (l_redis t) = (b, r)"
    by (cases "redis_RemoveRoleFromUser u x (l_redis t)")
  moreover have "b = None \<and> net r = [] \<and> typed (db r)"
    using redis_remove_role [OF r] assms(1) Layered by simp
  ultimately show ?thesis
    using assms(2) Layered by (auto simp: layered_RemoveRoleFromUser_def write_through_def)
qed

lemma store_assign_defs: "store_defs (snd (AssignRoleToUser u x s)) = store_defs s"
  using store_assign_cache [of u x s]
  by (cases "AssignRoleToUser u x s") (metis mem_roles.assign_defs snd_conv store_defs_def)

lemma store_remove_defs: "store_defs (snd (RemoveRoleFromUser u x s)) = store_defs s"
  using store_remove_cache [of u x s]
  by (cases "RemoveRoleFromUser u x s") (auto simp: store_defs_def mem_defs_def mem_RemoveRoleFromUser_def)

interpretation store_roles: reliable_assignments AssignRoleToUser RemoveRoleFromUser store_rids store_defs known_roles reliable
proof
  fix u x s s' e
  show "AssignRoleToUser u x s = (None, s') \<Longrightarrow>
    store_rids s' = (store_rids s)(u := insert x (store_rids s u)) \<and> x \<in> known_roles (store_defs s)"
    using store_assign_cache [of u x s None s'] mem_roles.assign_done [of u x "cache s" "cache s'"]
    by (simp add: store_rids_def store_defs_def)
  show "AssignRoleToUser u x s = (Some e, s') \<Longrightarrow> store_rids s' = store_rids s"
    using store_assign_cache [of u x s "Some e" s'] mem_roles.assign_failed [of u x "cache s" e "cache s'"]
    by (auto simp: store_rids_def)
  show "RemoveRoleFromUser u x s = (None, s') \<Longrightarrow> store_rids s' = (store_rids s)(u := store_rids s u - {x})"
    using store_remove_cache [of u x s None s']
    by (auto simp: store_rids_def mem_rids_def mem_RemoveRoleFromUser_def fun_eq_iff)
  show "RemoveRoleFromUser u x s = (Some e, s') \<Longrightarrow> store_rids s' = store_rids s"
    using store_remove_cache [of u x s "Some e" s'] by (auto simp: store_rids_def)
  show "store_defs (snd (AssignRoleToUser u x s)) = store_defs s" by (rule store_assign_defs)
  show "store_defs (snd (RemoveRoleFromUser u x s)) = store_defs s" by (rule store_remove_defs)
  show "reliable s \<Longrightarrow> x \<in> known_roles (store_defs s) \<Longrightarrow> fst (AssignRoleToUser u x s) = None"
    using store_assign_reliable [of s u x] mem_roles.assign_works [of x "cache s" u]
    by (cases "AssignRoleToUser u x s") (auto simp: store_defs_def)
  show "reliable s \<Longrightarrow> fst (RemoveRoleFromUser u x s) = None"
    using store_remove_reliable [of s u x] by (cases "RemoveRoleFromUser u x s") auto
  show "reliable s \<Longrightarrow> reliable (snd (AssignRoleToUser u x s))"
    using store_assign_reliable [of s u x] by (cases "AssignRoleToUser u x s") auto
  show "reliable s \<Longrightarrow> reliable (snd (RemoveRoleFromUser u x s))"
    using store_remove_reliable [of s u x] by (cases "RemoveRoleFromUser u x s") auto
qed

subsection \<open>What the cache holds, Redis holds\<close>

definition covers :: "inmem \<Rightarrow> keyspace \<Rightarrow> bool" where
  "covers m d \<longleftrightarrow>
     (\<forall>i p. map_of (permissions m) i = Some p \<longrightarrow> perm_name d i = Some (Text (p_Name p)) \<and> i \<in> sset keyPerms d) \<and>
     (\<forall>x n. n \<in> set (rolePerms m x) \<longrightarrow> (\<exists>i \<in> sset (keyRolePerms x) d \<inter> sset keyPerms d. perm_name d i = Some (Text n))) \<and>
     (\<forall>x. map_of (roles m) x \<noteq> None \<longrightarrow> d (keyRole x) \<noteq> None \<and> x \<in> sset keyRoles d) \<and>
     (\<forall>u x. x \<in> set (userRoles m u) \<longrightarrow> x \<in> sset (keyUserRoles u) d)"

lemma coversI:
  assumes "\<And>i p. map_of (permissions m) i = Some p \<Longrightarrow> perm_name d i = Some (Text (p_Name p)) \<and> i \<in> sset keyPerms d"
    and "\<And>x n. n \<in> set (rolePerms m x) \<Longrightarrow> \<exists>i \<in> sset (keyRolePerms x) d \<inter> sset keyPerms d. perm_name d i = Some (Text n)"
    and "\<And>x. map_of (roles m) x \<noteq> None \<Longrightarrow> d (keyRole x) \<noteq> None \<and> x \<in> sset keyRoles d"
    and "\<And>u x. x \<in> set (userRoles m u) \<Longrightarrow> x \<in> sset (keyUserRoles u) d"
  shows "covers m d"
  using assms unfolding covers_def by blast

lemma coversD:
  assumes "covers m d"
  shows "map_of (permissions m) i = Some p \<Longrightarrow> perm_name d i = Some (Text (p_Name p)) \<and> i \<in> sset keyPerms d"
    and "n \<in> set (rolePerms m x) \<Longrightarrow> \<exists>i \<in> sset (keyRolePerms x) d \<inter> sset keyPerms d. perm_name d i = Some (Text n)"
    and "map_of (roles m) x \<noteq> None \<Longrightarrow> d (keyRole x) \<noteq> None \<and> x \<in> sset keyRoles d"
    and "x \<in> set (userRoles m u) \<Longrightarrow> x \<in> sset (keyUserRoles u) d"
  using assms unfolding covers_def by blast+

lemma covers_extends:
  assumes "covers m d" "extends d d'"
  shows "covers m d'"
proof (rule coversI)
  fix i p assume "map_of (permissions m) i = Some p"
  then show "perm_name d' i = Some (Text (p_Name p)) \<and> i \<in> sset keyPerms d'"
    using coversD(1) [OF assms(1)] assms(2) unfolding extends_def by blast
next
  fix x n assume "n \<in> set (rolePerms m x)"
  then show "\<exists>i \<in> sset (keyRolePerms x) d' \<inter> sset keyPerms d'. perm_name d' i = Some (Text n)"
    using coversD(2) [OF assms(1), of n x] assms(2) unfolding extends_def by (meson IntD1 IntD2 IntI subsetD)
next
  fix x assume "map_of (roles m) x \<noteq> None"
  then show "d' (keyRole x) \<noteq> None \<and> x \<in> sset keyRoles d'"
    using coversD(3) [OF assms(1)] assms(2) unfolding extends_def by blast
next
  fix u x assume "x \<in> set (userRoles m u)"
  then show "x \<in> sset (keyUserRoles u) d'"
    using coversD(4) [OF assms(1)] assms(2) unfolding extends_def by blast
qed

lemma covers_save_perm:
  "covers m d \<Longrightarrow> perm_name d (PermissionID p) = Some (Text (p_Name p)) \<Longrightarrow> PermissionID p \<in> sset keyPerms d \<Longrightarrow>
   covers (mem_SavePermission p m) d"
  unfolding covers_def by (auto simp: mem_SavePermission_def update_conv' split: if_splits)

lemma covers_save_role:
  "covers m d \<Longrightarrow> d (keyRole (RoleID x)) \<noteq> None \<Longrightarrow> RoleID x \<in> sset keyRoles d \<Longrightarrow> covers (mem_SaveRole x m) d"
  unfolding covers_def by (auto simp: mem_SaveRole_def update_conv' split: if_splits)

lemma covers_assign_perm:
  assumes "covers m d" "i \<in> sset (keyRolePerms x) d"
  shows "covers (snd (mem_AssignPermissionToRole x i m)) d"
proof (cases "map_of (permissions m) i")
  case (Some p)
  with coversD(1) [OF assms(1)] have "perm_name d i = Some (Text (p_Name p))" "i \<in> sset keyPerms d" by blast+
  with assms Some show ?thesis
    unfolding covers_def by (auto simp: mem_AssignPermissionToRole_def)
qed (use assms in \<open>simp add: mem_AssignPermissionToRole_def\<close>)

lemma covers_assign_role:
  "covers m d \<Longrightarrow> x \<in> sset (keyUserRoles u) d \<Longrightarrow> covers (snd (mem_AssignRoleToUser u x m)) d"
  unfolding covers_def by (auto simp: mem_AssignRoleToUser_def)

lemma covers_remove_role:
  assumes "covers m d" "\<And>j. j \<noteq> keyUserRoles u \<Longrightarrow> d' j = d j"
    and "sset (keyUserRoles u) d - {x} \<subseteq> sset (keyUserRoles u) d'"
  shows "covers (mem_RemoveRoleFromUser u x m) d'"
proof -
  have n: "perm_name d' i = perm_name d i" for i
    using assms(2) [of "keyPerm i"] by (simp add: perm_name_def hget_def hgetall_def)
  have s: "k \<noteq> keyUserRoles u \<Longrightarrow> sset k d' = sset k d" for k
    using assms(2) [of k] by (simp add: sset_def)
  have r: "d' (keyRole i) = d (keyRole i)" for i using assms(2) by simp
  show ?thesis
  proof (rule coversI)
    fix v y assume "y \<in> set (userRoles (mem_RemoveRoleFromUser u x m) v)"
    then show "y \<in> sset (keyUserRoles v) d'"
      using coversD(4) [OF assms(1), of y v] assms(3) s [of "keyUserRoles v"]
      by (cases "v = u") (auto simp: mem_RemoveRoleFromUser_def)
  qed (use coversD(1-3) [OF assms(1)] n s r in \<open>auto simp: mem_RemoveRoleFromUser_def\<close>)
qed

text \<open>The states of a layered store: from the empty stores, with any network, through any sequence of
  writes. Two assumptions on the environment: a permission is not saved under a new name (the service
  saves each with a fresh id), and no removal is carried out with its reply lost.\<close>

inductive layered_reach :: "layered \<Rightarrow> bool" where
  start: "layered_reach (NewLayeredRBACStore NewInMemRBACStore \<lparr>db = Map.empty, net = ns\<rparr>)"
| save_permission: "layered_reach s \<Longrightarrow> perm_name (db (l_redis s)) (PermissionID p) \<in> {None, Some (Text (p_Name p))} \<Longrightarrow>
    layered_reach (snd (layered_SavePermission p s))"
| save_role: "layered_reach s \<Longrightarrow> layered_reach (snd (layered_SaveRole x s))"
| assign_permission: "layered_reach s \<Longrightarrow> layered_reach (snd (layered_AssignPermissionToRole x i s))"
| assign_role: "layered_reach s \<Longrightarrow> layered_reach (snd (layered_AssignRoleToUser u x s))"
| remove_role: "layered_reach s \<Longrightarrow> fst (pop (l_redis s)) \<noteq> Lost True \<Longrightarrow>
    layered_reach (snd (layered_RemoveRoleFromUser u x s))"

definition coherent :: "layered \<Rightarrow> bool" where
  "coherent s \<longleftrightarrow> typed (db (l_redis s)) \<and> covers (l_mem s) (db (l_redis s))"

text \<open>A write that goes through: enough that the Redis part keeps the types and extends the key space, and
  that the memory part is covered if Redis returned no error.\<close>

lemma coherent_write:
  assumes "coherent s" "write_through l2 l1 s = (e, s')"
    and "\<And>a r. l2 (l_redis s) = (a, r) \<Longrightarrow> typed (db r) \<and> extends (db (l_redis s)) (db r)"
    and "\<And>r. l2 (l_redis s) = (None, r) \<Longrightarrow> covers (l_mem s) (db r) \<Longrightarrow> covers (snd (l1 (l_mem s))) (db r)"
  shows "coherent s'"
  using assms(2)
proof (cases rule: write_through_cases)
  case (rejected x r)
  with assms(1) assms(3) [of "Some x" r] show ?thesis
    by (auto simp: coherent_def intro: covers_extends)
next
  case (through m r)
  with assms(3) [of None r] assms(1) have "typed (db r)" "covers (l_mem s) (db r)"
    by (auto simp: coherent_def intro: covers_extends)
  with through assms(4) [of r] show ?thesis by (simp add: coherent_def)
qed

lemma reach_coherent: "layered_reach s \<Longrightarrow> coherent s"
proof (induction rule: layered_reach.induct)
  case (start ns)
  show ?case by (simp add: coherent_def NewLayeredRBACStore_def NewInMemRBACStore_def covers_def)
next
  case (save_permission s p)
  note t = redis_save_perm [OF _ _ save_permission.hyps(2)]
  have ty: "typed (db (l_redis s))" using save_permission.IH by (simp add: coherent_def)
  show ?case unfolding layered_SavePermission_def
    by (rule coherent_write [OF save_permission.IH, where e = "fst _", OF prod.collapse [symmetric]])
       (use t ty covers_save_perm in auto)
next
  case (save_role s x)
  have ty: "typed (db (l_redis s))" using save_role.IH by (simp add: coherent_def)
  show ?case unfolding layered_SaveRole_def
    by (rule coherent_write [OF save_role.IH, where e = "fst _", OF prod.collapse [symmetric]])
       (use redis_save_role ty covers_save_role in auto)
next
  case (assign_permission s x i)
  have ty: "typed (db (l_redis s))" using assign_permission.IH by (simp add: coherent_def)
  show ?case unfolding layered_AssignPermissionToRole_def
    by (rule coherent_write [OF assign_permission.IH, where e = "fst _", OF prod.collapse [symmetric]])
       (use redis_assign_perm ty covers_assign_perm in auto)
next
  case (assign_role s u x)
  have ty: "typed (db (l_redis s))" using assign_role.IH by (simp add: coherent_def)
  show ?case unfolding layered_AssignRoleToUser_def
    by (rule coherent_write [OF assign_role.IH, where e = "fst _", OF prod.collapse [symmetric]])
       (use redis_assign_role ty covers_assign_role in auto)
next
  case (remove_role s u x)
  obtain e s' where s': "layered_RemoveRoleFromUser u x s = (e, s')" by (cases "layered_RemoveRoleFromUser u x s")
  have c: "typed (db (l_redis s))" "covers (l_mem s) (db (l_redis s))"
    using remove_role.IH by (simp_all add: coherent_def)
  from s' have "coherent s'" unfolding layered_RemoveRoleFromUser_def
  proof (cases rule: write_through_cases)
    case (rejected y r)
    with redis_remove_role [OF rejected(1) c(1)] remove_role.hyps(2) c show ?thesis by (simp add: coherent_def)
  next
    case (through m r)
    note d = redis_remove_role [OF through(1) c(1)]
    have "covers (mem_RemoveRoleFromUser u x (l_mem s)) (db r)"
      by (rule covers_remove_role [OF c(2)]) (use d in auto)
    with through d show ?thesis by (simp add: coherent_def)
  qed
  with s' show ?case by simp
qed

lemma read_cmd_quiet: "net r = [] \<Longrightarrow> read_cmd f r = (f (db r), r)"
  by (simp add: read_cmd_def pop_def)

lemma perm_search_quiet: "net r = [] \<Longrightarrow> perm_search perm is r = (\<exists>i \<in> set is. perm_name (db r) i = Some (Text perm), r)"
  by (induction "is") (auto simp: read_cmd_quiet perm_name_def)

lemma smembers_typed: "typed d \<Longrightarrow> set_key k \<Longrightarrow> \<exists>xs. smembers k d = Some xs \<and> set xs = sset k d"
  using typed_set [of d k] by (auto simp: smembers_def sset_def)

lemma role_search_quiet:
  assumes "net r = []" "typed (db r)"
  shows "role_search perm is r =
    (\<exists>x \<in> set is. \<exists>i \<in> sset (keyRolePerms x) (db r). perm_name (db r) i = Some (Text perm), r)"
proof (induction "is")
  case (Cons x xs)
  obtain ps where "smembers (keyRolePerms x) (db r) = Some ps" "set ps = sset (keyRolePerms x) (db r)"
    using smembers_typed [OF assms(2)] by (meson set_keys(3))
  with Cons show ?case by (auto simp: read_cmd_quiet perm_search_quiet assms)
qed simp

lemma redis_grants:
  assumes "net r = []" "typed (db r)"
  shows "fst (redis_UserHasPermission u perm r) \<longleftrightarrow>
    (\<exists>x \<in> sset (keyUserRoles u) (db r). \<exists>i \<in> sset (keyRolePerms x) (db r). perm_name (db r) i = Some (Text perm))"
proof -
  obtain xs where "smembers (keyUserRoles u) (db r) = Some xs" "set xs = sset (keyUserRoles u) (db r)"
    using smembers_typed [OF assms(2)] by (meson set_keys(4))
  then show ?thesis by (simp add: redis_UserHasPermission_def read_cmd_quiet role_search_quiet assms)
qed

lemma cache_grants: "covers m d \<Longrightarrow> mem_UserHasPermission u perm m \<Longrightarrow>
  \<exists>x \<in> sset (keyUserRoles u) d. \<exists>i \<in> sset (keyRolePerms x) d. perm_name d i = Some (Text perm)"
  unfolding mem_UserHasPermission_def list_ex_iff using coversD(2,4) [of m d] by blast

text \<open>Property C6: the cache never grants more than Redis. In every state reached from the empty stores by any
  sequence of the cache's writes, under any losses of commands and replies (but no permission renamed and
  no removal that was carried out and went unanswered), a permission that the in-memory store grants to
  a user is also granted by the Redis store when it can be read.\<close>

theorem rbac_cache_sound:
  assumes "layered_reach s" "mem_UserHasPermission u perm (l_mem s)"
  shows "fst (redis_UserHasPermission u perm ((l_redis s)\<lparr>net := []\<rparr>))"
proof -
  have c: "typed (db (l_redis s))" "covers (l_mem s) (db (l_redis s))"
    using reach_coherent [OF assms(1)] by (simp_all add: coherent_def)
  from cache_grants [OF c(2) assms(2)] show ?thesis
    by (simp add: redis_grants c(1))
qed

subsection \<open>What a restart brings back\<close>

lemma hash_roundtrip [simp]:
  "PermissionID (perm_of_hash (perm_hash p)) = PermissionID p" "p_Name (perm_of_hash (perm_hash p)) = p_Name p"
  "RoleID (role_of_hash (role_hash x)) = RoleID x" "r_Name (role_of_hash (role_hash x)) = r_Name x"
  "perm_hash p \<noteq> []" "role_hash x \<noteq> []"
  by (simp_all add: perm_of_hash_def perm_hash_def role_of_hash_def role_hash_def text_of_def)

lemma read_hashes_eq:
  assumes "net r = []"
  shows "read_hashes key ids r = (filter (\<lambda>h. h \<noteq> []) (List.map_filter (\<lambda>i. hgetall (key i) (db r)) ids), r)"
proof (induction ids)
  case (Cons i ids)
  then show ?case by (cases "hgetall (key i) (db r)") (simp_all add: read_cmd_quiet assms)
qed simp

lemma read_hashes_quiet:
  "net r = [] \<Longrightarrow> snd (read_hashes key ids r) = r \<and>
   set (fst (read_hashes key ids r)) = {h. h \<noteq> [] \<and> (\<exists>i \<in> set ids. hgetall (key i) (db r) = Some h)}"
  by (auto simp: read_hashes_eq map_filter_def image_iff)

lemma hgetall_perm: "typed d \<Longrightarrow> h \<noteq> [] \<Longrightarrow> hgetall (keyPerm i) d = Some h \<longleftrightarrow>
  (\<exists>p. h = perm_hash p \<and> PermissionID p = i \<and> d (keyPerm i) = Some (RHash (perm_hash p)))"
  using typed_perm [of d i] by (auto simp: hgetall_def)

lemma hgetall_role: "typed d \<Longrightarrow> h \<noteq> [] \<Longrightarrow> hgetall (keyRole i) d = Some h \<longleftrightarrow>
  (\<exists>p. h = role_hash p \<and> RoleID p = i \<and> d (keyRole i) = Some (RHash (role_hash p)))"
  using typed_role [of d i] by (auto simp: hgetall_def)

text \<open>The name that Redis keeps for a permission id.\<close>

definition kept_name :: "keyspace \<Rightarrow> string \<Rightarrow> string" where
  "kept_name d i = text_of (perm_name d i)"

lemma perm_name_of_hash: "d (keyPerm i) = Some (RHash (perm_hash p)) \<Longrightarrow> perm_name d i = Some (Text (p_Name p))"
  by (simp add: perm_name_def hget_def hgetall_def perm_hash_def)

lemma perm_name_SomeD:
  "typed d \<Longrightarrow> perm_name d i = Some n \<Longrightarrow>
   \<exists>p. d (keyPerm i) = Some (RHash (perm_hash p)) \<and> PermissionID p = i \<and> n = Text (p_Name p)"
  using typed_perm [of d i] by (auto simp: perm_name_of_hash) (simp add: perm_name_def hget_def hgetall_def)

lemma list_permissions_quiet:
  assumes "net r = []" "typed (db r)"
  shows "snd (redis_ListPermissions r) = r"
    and "p \<in> set (fst (redis_ListPermissions r)) \<Longrightarrow> p_Name p = kept_name (db r) (PermissionID p)"
    and "i \<in> sset keyPerms (db r) \<Longrightarrow> perm_name (db r) i = Some (Text n) \<Longrightarrow>
      n \<in> p_Name ` set (fst (redis_ListPermissions r))"
proof -
  obtain ids where ids: "smembers keyPerms (db r) = Some ids" "set ids = sset keyPerms (db r)"
    using smembers_typed [OF assms(2)] by (meson set_keys(1))
  obtain hs r' where hs: "read_hashes keyPerm ids r = (hs, r')" by (cases "read_hashes keyPerm ids r")
  with read_hashes_quiet [OF assms(1), of keyPerm ids]
  have r': "r' = r" and h: "set hs = {h. h \<noteq> [] \<and> (\<exists>i \<in> set ids. hgetall (keyPerm i) (db r) = Some h)}" by auto
  have l: "redis_ListPermissions r = (map perm_of_hash hs, r)"
    using ids hs r' by (simp add: redis_ListPermissions_def read_cmd_quiet assms(1))
  then show "snd (redis_ListPermissions r) = r" by simp
  show "p \<in> set (fst (redis_ListPermissions r)) \<Longrightarrow> p_Name p = kept_name (db r) (PermissionID p)"
    using l h hgetall_perm [OF assms(2)] by (auto simp: kept_name_def text_of_def perm_name_of_hash)
  assume i: "i \<in> sset keyPerms (db r)" "perm_name (db r) i = Some (Text n)"
  then obtain p where p: "db r (keyPerm i) = Some (RHash (perm_hash p))" "n = p_Name p"
    using perm_name_SomeD [OF assms(2), of i "Text n"] by blast
  then have "hgetall (keyPerm i) (db r) = Some (perm_hash p)" by (simp add: hgetall_def)
  then have "perm_hash p \<in> set hs" using h ids(2) i(1) by auto
  then show "n \<in> p_Name ` set (fst (redis_ListPermissions r))"
    using l p(2) hash_roundtrip(2) [of p] by (auto simp: image_iff intro!: bexI [of _ "perm_hash p"])
qed

lemma list_roles_quiet:
  assumes "net r = []" "typed (db r)"
  shows "snd (redis_ListRoles r) = r"
    and "RoleID ` set (fst (redis_ListRoles r)) = {x \<in> sset keyRoles (db r). db r (keyRole x) \<noteq> None}"
proof -
  obtain ids where ids: "smembers keyRoles (db r) = Some ids" "set ids = sset keyRoles (db r)"
    using smembers_typed [OF assms(2)] by (meson set_keys(2))
  obtain hs r' where hs: "read_hashes keyRole ids r = (hs, r')" by (cases "read_hashes keyRole ids r")
  with read_hashes_quiet [OF assms(1), of keyRole ids]
  have r': "r' = r" and h: "set hs = {h. h \<noteq> [] \<and> (\<exists>i \<in> set ids. hgetall (keyRole i) (db r) = Some h)}" by auto
  have l: "redis_ListRoles r = (map role_of_hash hs, r)"
    using ids hs r' by (simp add: redis_ListRoles_def read_cmd_quiet assms(1))
  then show "snd (redis_ListRoles r) = r" by simp
  show "RoleID ` set (fst (redis_ListRoles r)) = {x \<in> sset keyRoles (db r). db r (keyRole x) \<noteq> None}"
  proof (intro equalityI subsetI)
    fix x assume "x \<in> RoleID ` set (fst (redis_ListRoles r))"
    then show "x \<in> {x \<in> sset keyRoles (db r). db r (keyRole x) \<noteq> None}"
      using l h ids(2) hgetall_role [OF assms(2)] by auto
  next
    fix x assume "x \<in> {x \<in> sset keyRoles (db r). db r (keyRole x) \<noteq> None}"
    then obtain y where "x \<in> set ids" "db r (keyRole x) = Some (RHash (role_hash y))" "RoleID y = x"
      using ids(2) typed_role [OF assms(2), of x] by auto
    then have "x \<in> set ids" "hgetall (keyRole x) (db r) = Some (role_hash y)" "RoleID y = x" by (simp_all add: hgetall_def)
    then have "role_hash y \<in> set hs" "RoleID (role_of_hash (role_hash y)) = x"
      using h by auto
    then show "x \<in> RoleID ` set (fst (redis_ListRoles r))" unfolding l
      by (metis fst_conv image_eqI list.set_map)
  qed
qed

lemma read_names_quiet: "net r = [] \<Longrightarrow> snd (read_names ids r) = r \<and>
  set (fst (read_names ids r)) = kept_name (db r) ` set ids - {''''}"
  by (induction ids) (auto simp: read_cmd_quiet kept_name_def perm_name_def split: prod.splits)

lemma role_names_quiet:
  assumes "net r = []" "typed (db r)"
  shows "snd (redis_RolePermissionNames x r) = r \<and> set (fst (redis_RolePermissionNames x r)) =
    kept_name (db r) ` sset (keyRolePerms x) (db r) - {''''}"
proof -
  obtain ids where "smembers (keyRolePerms x) (db r) = Some ids" "set ids = sset (keyRolePerms x) (db r)"
    using smembers_typed [OF assms(2)] by (meson set_keys(3))
  then show ?thesis
    using read_names_quiet [OF assms(1), of ids] by (simp add: redis_RolePermissionNames_def read_cmd_quiet assms(1))
qed

text \<open>The index by name points to permissions of that name, whose id has that name in the index by id.\<close>

definition name_index_ok :: "inmem \<Rightarrow> bool" where
  "name_index_ok m \<longleftrightarrow> (\<forall>n p. permsByName m n = Some p \<longrightarrow>
     (\<exists>q. map_of (permissions m) (PermissionID p) = Some q \<and> p_Name q = n))"

lemma warm_permissions:
  assumes "\<And>p. p \<in> set ps \<Longrightarrow> p_Name p = nm (PermissionID p)"
    and "\<And>i q. map_of (permissions m) i = Some q \<Longrightarrow> p_Name q = nm i" "name_index_ok m"
  shows "name_index_ok (fold mem_SavePermission ps m) \<and> dom (permsByName (fold mem_SavePermission ps m)) = dom (permsByName m) \<union> p_Name ` set ps
    \<and> rolePerms (fold mem_SavePermission ps m) = rolePerms m \<and> userRoles (fold mem_SavePermission ps m) = userRoles m
    \<and> roles (fold mem_SavePermission ps m) = roles m"
  using assms
proof (induction ps arbitrary: m)
  case (Cons p ps)
  let ?m = "mem_SavePermission p m"
  have a: "\<And>i q. map_of (permissions ?m) i = Some q \<Longrightarrow> p_Name q = nm i"
    using Cons.prems(1) [of p] Cons.prems(2) by (auto simp: mem_SavePermission_def update_conv' split: if_splits)
  have "name_index_ok ?m" unfolding name_index_ok_def
  proof (intro allI impI)
    fix n q assume q: "permsByName ?m n = Some q"
    show "\<exists>q'. map_of (permissions ?m) (PermissionID q) = Some q' \<and> p_Name q' = n"
    proof (cases "n = p_Name p")
      case True
      with q show ?thesis by (auto simp: mem_SavePermission_def update_conv')
    next
      case False
      with q Cons.prems(3) obtain q' where "map_of (permissions m) (PermissionID q) = Some q'" "p_Name q' = n"
        by (auto simp: mem_SavePermission_def name_index_ok_def)
      then show ?thesis
        using Cons.prems(1) [of p] Cons.prems(2) by (auto simp: mem_SavePermission_def update_conv')
    qed
  qed
  from Cons.IH [OF _ a this] Cons.prems(1) show ?case
    by (auto simp: mem_SavePermission_def)
qed simp

lemma warm_names_spec:
  assumes "name_index_ok m" "map_of (roles m) x \<noteq> None"
  shows "\<exists>ns'. set ns' = set (rolePerms m x) \<union> {n \<in> set ns. permsByName m n \<noteq> None}
     \<and> warm_names x ns m = m\<lparr>rolePerms := (rolePerms m)(x := ns')\<rparr>"
  using assms
proof (induction ns arbitrary: m)
  case Nil
  show ?case by (intro exI [of _ "rolePerms m x"]) simp
next
  case (Cons n ns)
  show ?case
  proof (cases "permsByName m n")
    case None
    with Cons.IH [OF Cons.prems] show ?thesis by (auto simp: mem_GetPermissionByName_def)
  next
    case (Some p)
    with Cons.prems(1) obtain q where q: "map_of (permissions m) (PermissionID p) = Some q" "p_Name q = n"
      by (auto simp: name_index_ok_def)
    let ?m = "m\<lparr>rolePerms := (rolePerms m)(x := List.insert n (rolePerms m x))\<rparr>"
    have "warm_names x (n # ns) m = warm_names x ns ?m"
      using Some q Cons.prems(2) by (auto simp: mem_GetPermissionByName_def mem_AssignPermissionToRole_def)
    moreover have "name_index_ok ?m" "map_of (roles ?m) x \<noteq> None"
      using Cons.prems by (simp_all add: name_index_ok_def)
    then obtain ns' where "set ns' = set (rolePerms ?m x) \<union> {n \<in> set ns. permsByName ?m n \<noteq> None}"
        "warm_names x ns ?m = ?m\<lparr>rolePerms := (rolePerms ?m)(x := ns')\<rparr>"
      using Cons.IH [of ?m] by blast
    ultimately have "warm_names x (n # ns) m = m\<lparr>rolePerms := (rolePerms m)(x := ns')\<rparr>"
      "set ns' = set (rolePerms m x) \<union> {k \<in> set (n # ns). permsByName m k \<noteq> None}"
      using Some by (simp, auto)
    then show ?thesis by blast
  qed
qed

lemma warm_roles_spec:
  assumes "net r = []" "typed (db r)" "name_index_ok m"
  shows "snd (warm_roles xs m r) = r \<and> userRoles (fst (warm_roles xs m r)) = userRoles m
    \<and> dom (map_of (roles (fst (warm_roles xs m r)))) = dom (map_of (roles m)) \<union> RoleID ` set xs
    \<and> (\<forall>x. set (rolePerms (fst (warm_roles xs m r)) x) = set (rolePerms m x) \<union>
         (if x \<in> RoleID ` set xs then {n \<in> set (fst (redis_RolePermissionNames x r)). permsByName m n \<noteq> None} else {}))"
  using assms(3)
proof (induction xs arbitrary: m)
  case (Cons y ys)
  let ?x = "RoleID y" and ?m = "mem_SaveRole y m"
  obtain ns where ns: "redis_RolePermissionNames ?x r = (ns, r)"
    using role_names_quiet [OF assms(1,2), of ?x] by (cases "redis_RolePermissionNames ?x r") auto
  have "name_index_ok ?m" "map_of (roles ?m) ?x \<noteq> None"
    using Cons.prems by (simp_all add: name_index_ok_def mem_SaveRole_def update_conv')
  then obtain ns' where w: "set ns' = set (rolePerms m ?x) \<union> {n \<in> set ns. permsByName m n \<noteq> None}"
      "warm_names ?x ns ?m = ?m\<lparr>rolePerms := (rolePerms m)(?x := ns')\<rparr>"
    using warm_names_spec [of ?m ?x ns] by (auto simp: mem_SaveRole_def)
  let ?n = "?m\<lparr>rolePerms := (rolePerms m)(?x := ns')\<rparr>"
  have "name_index_ok ?n" using Cons.prems by (simp add: name_index_ok_def mem_SaveRole_def)
  note IH = Cons.IH [OF this]
  define M where "M = warm_roles (y # ys) m r"
  define N where "N x = {n \<in> set (fst (redis_RolePermissionNames x r)). permsByName m n \<noteq> None}" for x
  have n: "dom (map_of (roles ?n)) = insert ?x (dom (map_of (roles m)))" "userRoles ?n = userRoles m"
    "permsByName ?n = permsByName m" by (simp_all add: mem_SaveRole_def update_conv')
  have p: "set (rolePerms ?n x) = set (rolePerms m x) \<union> (if x = ?x then N x else {})" for x
    using w(1) ns by (simp add: N_def)
  have M: "M = warm_roles ys ?n r" using ns w(2) by (simp add: M_def)
  have "set (rolePerms (fst M) x) = set (rolePerms ?n x) \<union> (if x \<in> RoleID ` set ys then N x else {})" for x
    using IH unfolding M n(3) N_def by blast
  then have "set (rolePerms (fst M) x) = set (rolePerms m x) \<union> (if x \<in> RoleID ` set (y # ys) then N x else {})" for x
    using p [of x] by (cases "x = ?x"; cases "x \<in> RoleID ` set ys") auto
  moreover have "snd M = r" "userRoles (fst M) = userRoles m"
    "dom (map_of (roles (fst M))) = dom (map_of (roles m)) \<union> RoleID ` set (y # ys)"
    using IH unfolding M n(1,2) by auto
  ultimately show ?case unfolding M_def N_def by blast
qed simp

lemma warm_from_spec:
  assumes "net r = []" "typed (db r)"
  defines "m \<equiv> fst (mem_WarmFrom NewInMemRBACStore r)"
  shows "dom (map_of (roles m)) = {x \<in> sset keyRoles (db r). db r (keyRole x) \<noteq> None}"
    and "userRoles m = (\<lambda>_. [])"
    and "n \<in> set (rolePerms m x) \<Longrightarrow> \<exists>i \<in> sset (keyRolePerms x) (db r). perm_name (db r) i = Some (Text n)"
    and "map_of (roles m) x \<noteq> None \<Longrightarrow> n \<noteq> '''' \<Longrightarrow> i \<in> sset (keyRolePerms x) (db r) \<inter> sset keyPerms (db r) \<Longrightarrow>
      perm_name (db r) i = Some (Text n) \<Longrightarrow> n \<in> set (rolePerms m x)"
proof -
  obtain ps where ps: "redis_ListPermissions r = (ps, r)"
    using list_permissions_quiet(1) [OF assms(1,2)] by (cases "redis_ListPermissions r") auto
  obtain xs where xs: "redis_ListRoles r = (xs, r)"
    using list_roles_quiet(1) [OF assms(1,2)] by (cases "redis_ListRoles r") auto
  let ?m1 = "fold mem_SavePermission ps NewInMemRBACStore"
  have nm: "\<And>p. p \<in> set ps \<Longrightarrow> p_Name p = kept_name (db r) (PermissionID p)"
    using list_permissions_quiet(2) [OF assms(1,2)] ps by simp
  have m1: "name_index_ok ?m1" "dom (permsByName ?m1) = p_Name ` set ps" "rolePerms ?m1 = (\<lambda>_. [])"
      "userRoles ?m1 = (\<lambda>_. [])" "roles ?m1 = []"
    using warm_permissions [of ps "kept_name (db r)" NewInMemRBACStore] nm
    by (simp_all add: NewInMemRBACStore_def name_index_ok_def)
  have m: "m = fst (warm_roles xs ?m1 r)" by (simp add: m_def mem_WarmFrom_def ps xs)
  have W: "userRoles m = userRoles ?m1" "dom (map_of (roles m)) = dom (map_of (roles ?m1)) \<union> RoleID ` set xs"
      "\<And>x. set (rolePerms m x) = set (rolePerms ?m1 x) \<union>
        (if x \<in> RoleID ` set xs then {n \<in> set (fst (redis_RolePermissionNames x r)). permsByName ?m1 n \<noteq> None} else {})"
    using warm_roles_spec [OF assms(1,2) m1(1), of xs] unfolding m by blast+
  have R: "set (fst (redis_RolePermissionNames x r)) = kept_name (db r) ` sset (keyRolePerms x) (db r) - {''''}" for x
    using role_names_quiet [OF assms(1,2)] by blast
  show D: "dom (map_of (roles m)) = {x \<in> sset keyRoles (db r). db r (keyRole x) \<noteq> None}"
    using W(2) m1(5) list_roles_quiet(2) [OF assms(1,2)] xs by simp
  show "userRoles m = (\<lambda>_. [])" using W(1) m1(4) by simp
  show "\<exists>i \<in> sset (keyRolePerms x) (db r). perm_name (db r) i = Some (Text n)" if "n \<in> set (rolePerms m x)"
  proof -
    from that W(3) [of x] m1(3) R [of x] obtain i where i: "i \<in> sset (keyRolePerms x) (db r)" "kept_name (db r) i = n" "n \<noteq> ''''"
      by (auto split: if_splits)
    then obtain t where "perm_name (db r) i = Some t" by (cases "perm_name (db r) i") (auto simp: kept_name_def text_of_def)
    with perm_name_SomeD [OF assms(2) this] i(2) have "perm_name (db r) i = Some (Text n)"
      by (auto simp: kept_name_def text_of_def)
    with i(1) show ?thesis by blast
  qed
  show "n \<in> set (rolePerms m x)" if x: "map_of (roles m) x \<noteq> None" "n \<noteq> ''''"
      and i: "i \<in> sset (keyRolePerms x) (db r) \<inter> sset keyPerms (db r)" "perm_name (db r) i = Some (Text n)"
  proof -
    have "x \<in> RoleID ` set xs" using x(1) W(2) m1(5) by (auto simp: domI domIff)
    moreover have "n \<in> set (fst (redis_RolePermissionNames x r))"
      using R [of x] i x(2) by (force simp: kept_name_def text_of_def)
    moreover have "permsByName ?m1 n \<noteq> None"
      using list_permissions_quiet(3) [OF assms(1,2), of i n] i ps m1(2) by auto
    ultimately show ?thesis using W(3) [of x] by auto
  qed
qed

text \<open>A restart. Warming an empty cache from Redis brings back every role the old cache knew, with
  at least the permissions it had there and none that Redis does not list for it. It brings back no
  assignment of roles to users: after it no user has a role or a permission, although the interface
  says that all RBAC data is copied.\<close>

theorem rbac_restart_restores_roles_only:
  assumes "layered_reach s"
  shows "let m = fst (mem_WarmFrom NewInMemRBACStore ((l_redis s)\<lparr>net := []\<rparr>)) in
     (\<forall>x. map_of (roles (l_mem s)) x \<noteq> None \<longrightarrow> map_of (roles m) x \<noteq> None
        \<and> set (rolePerms (l_mem s) x) - {''''} \<subseteq> set (rolePerms m x))
     \<and> (\<forall>x. set (rolePerms m x) \<subseteq> kept_name (db (l_redis s)) ` sset (keyRolePerms x) (db (l_redis s)))
     \<and> (\<forall>u perm. mem_UserRoles u m = [] \<and> \<not> mem_UserHasPermission u perm m)"
proof -
  let ?r = "(l_redis s)\<lparr>net := []\<rparr>"
  let ?m = "fst (mem_WarmFrom NewInMemRBACStore ?r)"
  have c: "typed (db ?r)" "covers (l_mem s) (db ?r)"
    using reach_coherent [OF assms] by (simp_all add: coherent_def)
  note W = warm_from_spec [OF _ c(1), simplified]
  have known: "map_of (roles ?m) x \<noteq> None" if "map_of (roles (l_mem s)) x \<noteq> None" for x
  proof -
    from that c(2) have "x \<in> sset keyRoles (db ?r)" "db ?r (keyRole x) \<noteq> None" using coversD(3) by auto
    then have "x \<in> dom (map_of (roles ?m))" using W(1) by simp
    then show ?thesis by blast
  qed
  moreover have "set (rolePerms (l_mem s) x) - {''''} \<subseteq> set (rolePerms ?m x)"
    if "map_of (roles (l_mem s)) x \<noteq> None" for x
  proof
    fix n assume "n \<in> set (rolePerms (l_mem s) x) - {''''}"
    then obtain i where "n \<noteq> ''''" "i \<in> sset (keyRolePerms x) (db ?r) \<inter> sset keyPerms (db ?r)" "perm_name (db ?r) i = Some (Text n)"
      using coversD(2) [OF c(2), of n x] by auto
    with warm_from_spec(4) [OF _ c(1)] known [OF that] show "n \<in> set (rolePerms ?m x)" by simp
  qed
  moreover have "set (rolePerms ?m x) \<subseteq> kept_name (db (l_redis s)) ` sset (keyRolePerms x) (db (l_redis s))" for x
    using warm_from_spec(3) [OF _ c(1)] by (force simp: kept_name_def text_of_def)
  moreover have "mem_UserRoles u ?m = []" "\<not> mem_UserHasPermission u perm ?m" for u perm
    using warm_from_spec(2) [OF _ c(1)] by (simp_all add: mem_UserRoles_def mem_UserHasPermission_def map_filter_def)
  ultimately show ?thesis unfolding Let_def by blast
qed

subsection \<open>A sample store\<close>

text \<open>One permission, one role, one user; the network loses a first attempt to assign the role.\<close>

definition sample_perm :: permission where
  "sample_perm = \<lparr>PermissionID = ''p1'', p_Name = ''camera:view'', p_Description = '''', p_CreatedAt = 7\<rparr>"

definition sample_role :: role_model where
  "sample_role = \<lparr>RoleID = ''r1'', r_Name = ''operator'', r_Description = '''', r_CreatedAt = 7\<rparr>"

definition sample_layered :: layered where
  "sample_layered =
     snd (layered_AssignRoleToUser ''u1'' ''r1'' (snd (layered_AssignRoleToUser ''u1'' ''r1''
       (snd (layered_AssignPermissionToRole ''r1'' ''p1'' (snd (layered_SaveRole sample_role
         (snd (layered_SavePermission sample_perm
           (NewLayeredRBACStore NewInMemRBACStore \<lparr>db = Map.empty, net = [Ack, Ack, Ack, Ack, Ack, Lost False]\<rparr>))))))))))"

lemma sample_layered_reach: "layered_reach sample_layered"
  unfolding sample_layered_def
  by (intro layered_reach.intros) (simp add: NewLayeredRBACStore_def perm_name_def hget_def hgetall_def)

lemma sample_layered_mem: "mem_UserHasPermission ''u1'' ''camera:view'' (l_mem sample_layered)"
  "map_of (roles (l_mem sample_layered)) ''r1'' \<noteq> None" "''camera:view'' \<in> set (rolePerms (l_mem sample_layered) ''r1'')"
  by code_simp+

theorem rbac_cache_sound_witness:
  "fst (redis_UserHasPermission ''u1'' ''camera:view'' ((l_redis sample_layered)\<lparr>net := []\<rparr>))"
  by (rule rbac_cache_sound [OF sample_layered_reach sample_layered_mem(1)])

theorem rbac_restart_restores_roles_only_witness:
  "let m = fst (mem_WarmFrom NewInMemRBACStore ((l_redis sample_layered)\<lparr>net := []\<rparr>)) in
   ''camera:view'' \<in> set (rolePerms m ''r1'') \<and> \<not> mem_UserHasPermission ''u1'' ''camera:view'' m"
  using rbac_restart_restores_roles_only [OF sample_layered_reach] sample_layered_mem(2,3)
  by (simp add: Let_def) blast

text \<open>A write that the cache rejects is already in Redis: assigning an unknown role fails, and Redis keeps it.\<close>

theorem layered_rejected_write_persists:
  assumes "net (l_redis s) = []" "typed (db (l_redis s))" "map_of (roles (l_mem s)) x = None"
  shows "fst (layered_AssignRoleToUser u x s) = Some (RoleMissing x)"
    and "x \<in> sset (keyUserRoles u) (db (l_redis (snd (layered_AssignRoleToUser u x s))))"
proof -
  obtain e r where r: "redis_AssignRoleToUser u x (l_redis s) = (e, r)" by (cases "redis_AssignRoleToUser u x (l_redis s)")
  with redis_assign_role [OF r assms(2)] assms(1,3)
  show "fst (layered_AssignRoleToUser u x s) = Some (RoleMissing x)"
    and "x \<in> sset (keyUserRoles u) (db (l_redis (snd (layered_AssignRoleToUser u x s))))"
    by (simp_all add: layered_AssignRoleToUser_def write_through_def mem_AssignRoleToUser_def)
qed

subsection \<open>The indexes of the cache\<close>

text \<open>Every role found by name can be assigned, every role is stored under its own id, and users have known
  roles only. All writes keep this, through memory alone or through the layers.\<close>

definition mem_inv :: "inmem \<Rightarrow> bool" where
  "mem_inv m \<longleftrightarrow> (\<forall>n x. rolesByName m n = Some x \<longrightarrow> RoleID x \<in> known_roles m \<and> r_Name x = n)
     \<and> (\<forall>i x. map_of (roles m) i = Some x \<longrightarrow> RoleID x = i) \<and> (\<forall>u. mem_rids m u \<subseteq> known_roles m)"

lemma mem_invD:
  assumes "mem_inv m"
  shows "rolesByName m n = Some x \<Longrightarrow> RoleID x \<in> known_roles m \<and> r_Name x = n"
    and "map_of (roles m) i = Some x \<Longrightarrow> RoleID x = i" and "mem_rids m u \<subseteq> known_roles m"
  using assms unfolding mem_inv_def by blast+

lemma mem_inv_new [simp]: "mem_inv NewInMemRBACStore"
  by (simp add: mem_inv_def NewInMemRBACStore_def mem_rids_def)

lemma mem_inv_SavePermission [inv_intros]: "mem_inv m \<Longrightarrow> mem_inv (mem_SavePermission p m)"
  by (simp add: mem_inv_def mem_SavePermission_def known_roles_def mem_rids_def)

lemma mem_inv_SaveRole [inv_intros]: "mem_inv m \<Longrightarrow> mem_inv (mem_SaveRole x m)"
  unfolding mem_inv_def known_roles_def mem_rids_def
  by (auto simp: mem_SaveRole_def update_conv' domI split: if_splits)

lemma mem_inv_AssignPermission [inv_intros]: "mem_inv m \<Longrightarrow> mem_inv (snd (mem_AssignPermissionToRole x i m))"
  by (auto simp: mem_inv_def mem_AssignPermissionToRole_def known_roles_def mem_rids_def split: option.splits)

lemma mem_inv_AssignRole [inv_intros]: "mem_inv m \<Longrightarrow> mem_inv (snd (mem_AssignRoleToUser u x m))"
  unfolding mem_inv_def known_roles_def mem_rids_def by (auto simp: mem_AssignRoleToUser_def)

lemma mem_inv_RemoveRole [inv_intros]: "mem_inv m \<Longrightarrow> mem_inv (mem_RemoveRoleFromUser u x m)"
  unfolding mem_inv_def known_roles_def mem_rids_def by (auto simp: mem_RemoveRoleFromUser_def)

lemma write_through_mem: "l_mem (snd (write_through l2 l1 s)) \<in> {l_mem s, snd (l1 (l_mem s))}"
  by (auto simp: write_through_def split: prod.splits option.splits)

lemma cache_after:
  "cache (snd (SavePermission p s)) \<in> {cache s, mem_SavePermission p (cache s)}"
  "cache (snd (SaveRole x s)) \<in> {cache s, mem_SaveRole x (cache s)}"
  "cache (snd (AssignPermissionToRole y i s)) \<in> {cache s, snd (mem_AssignPermissionToRole y i (cache s))}"
  "cache (snd (AssignRoleToUser u y s)) \<in> {cache s, snd (mem_AssignRoleToUser u y (cache s))}"
  "cache (snd (RemoveRoleFromUser u y s)) \<in> {cache s, mem_RemoveRoleFromUser u y (cache s)}"
  using write_through_mem
  by (cases s; fastforce simp: layered_SavePermission_def layered_SaveRole_def layered_AssignPermissionToRole_def
    layered_AssignRoleToUser_def layered_RemoveRoleFromUser_def)+

lemma cache_inv [inv_intros]:
  assumes "mem_inv (cache s)"
  shows "mem_inv (cache (snd (SavePermission p s)))" "mem_inv (cache (snd (SaveRole x s)))"
    "mem_inv (cache (snd (AssignPermissionToRole y i s)))" "mem_inv (cache (snd (AssignRoleToUser u y s)))"
    "mem_inv (cache (snd (RemoveRoleFromUser u y s)))"
  using cache_after(1) [of p s] cache_after(2) [of x s] cache_after(3) [of y i s] cache_after(4) [of u y s]
    cache_after(5) [of u y s] assms
  by (auto intro: inv_intros)

text \<open>\<open>UserRoles\<close> lists exactly the user's roles, and a permission is granted iff one of them has it.\<close>

lemma UserRoles_ids: "mem_inv (cache s) \<Longrightarrow> RoleID ` set (UserRoles u s) = store_rids s u"
proof -
  assume i: "mem_inv (cache s)"
  let ?f = "map_of (roles (cache s))"
  have k: "x \<in> store_rids s u \<Longrightarrow> \<exists>y. ?f x = Some y \<and> RoleID y = x" for x
    using mem_invD(3) [OF i, of u] mem_invD(2) [OF i] by (auto simp: store_rids_def known_roles_def)
  have "set (UserRoles u s) = {y. \<exists>x \<in> store_rids s u. ?f x = Some y}"
    by (force simp: UserRoles_def mem_UserRoles_def map_filter_def store_rids_def mem_rids_def)
  with k show ?thesis by (auto simp: image_iff) (metis option.inject)+
qed

lemma UserHasPermission_iff:
  "UserHasPermission u perm s \<longleftrightarrow> (\<exists>x \<in> store_rids s u. perm \<in> set (RolePermissionNames x s))"
  by (auto simp: UserHasPermission_def mem_UserHasPermission_def list_ex_iff store_rids_def mem_rids_def
    RolePermissionNames_def mem_RolePermissionNames_def)

lemma reach_mem_inv: "layered_reach s \<Longrightarrow> mem_inv (l_mem s)"
proof (induction rule: layered_reach.induct)
  case (start ns)
  show ?case by (simp add: NewLayeredRBACStore_def)
next
  case (save_permission s p)
  then show ?case using cache_inv(1) [of "Layered s" p] by simp
next
  case (save_role s x)
  then show ?case using cache_inv(2) [of "Layered s" x] by simp
next
  case (assign_permission s x i)
  then show ?case using cache_inv(3) [of "Layered s" x i] by simp
next
  case (assign_role s u x)
  then show ?case using cache_inv(4) [of "Layered s" u x] by simp
next
  case (remove_role s u x)
  then show ?case using cache_inv(5) [of "Layered s" u x] by simp
qed

end
