(* ===== verification/Auth_Service.thy ===== *)
theory Auth_Service
  imports Rbac Go_Strings
begin

section \<open>Users, sessions and the permission gate\<close>

text \<open>
  \<open>internal/auth/store.go\<close>, \<open>jwt.go\<close>, \<open>service.go\<close>, \<open>middleware.go\<close>, \<open>handlers.go\<close> and the user handlers of
  \<open>internal/api/user_handler.go\<close>. Parameters stand for the libraries: \<open>jsign\<close> and \<open>jverify\<close> for the JWT
  library (\<open>jverify\<close> at an instant), \<open>bhash\<close> and \<open>bcmp\<close> for bcrypt. The clock, fresh ids and token ids are
  arguments; a list of ids stands for successive calls of \<open>uuid.NewV7\<close>, the empty list for its error.
  The role store is the interface \<open>rbac\<close> of the theory \<open>Rbac\<close>, with its network; what the service needs of it
  comes from the contract \<open>role_assignments\<close>. A user is never modified after its creation and a token only
  by its invalidation, so the two maps to users hold values.

  The main results: a session token that was revoked never becomes valid again, whatever happens; a
  user who was created, logged in and presents the token passes exactly the permissions of the roles
  given; a role update is exact if the role store is reliable, and silently not otherwise; and seeding.
\<close>

subsection \<open>Data\<close>

record user =
  UserID :: string
  Username :: string
  PasswordHash :: string
  u_CreatedAt :: time
  u_UpdatedAt :: time
  IsActive :: bool

record session_token =
  TokenID :: string
  t_UserID :: string
  RoleNames :: "string list"
  t_IssuedAt :: time
  t_ExpiresAt :: time
  InvalidatedAt :: "time option"

record jwt_claims =
  jc_ID :: string
  jc_Subject :: string
  jc_IssuedAt :: int
  jc_ExpiresAt :: int
  jc_Roles :: "string list"

record login_response =
  lr_Token :: string
  lr_ExpiresAt :: time
  lr_UserID :: string
  lr_Username :: string
  lr_Roles :: "string list"

record session_info =
  si_UserID :: string
  si_Username :: string
  si_Roles :: "string list"
  si_Permissions :: "string list"
  si_ExpiresAt :: time

record create_user_request =
  cr_Username :: string
  cr_Password :: string
  cr_Roles :: "string list"

record user_detail =
  d_UserID :: string
  d_Username :: string
  d_Roles :: "string list"
  d_IsActive :: bool
  d_CreatedAt :: time
  d_UpdatedAt :: time

datatype auth_err =
  ErrInvalidCredentials | ErrAccountDisabled | ErrTokenInvalid | ErrTokenExpired | ErrUserNotFound
| ErrUserAlreadyExists | ErrRoleNotFound string | ErrHash | ErrNewID | ErrSign | ErrRbac rbac_err
| ErrSeedPermission string string | ErrNoAdminRole | NilUserPanic

subsection \<open>The store\<close>

record auth_store =
  users :: "string \<rightharpoonup> user"
  byID :: "(string \<times> user) list"
  tokens :: "(string \<times> session_token) list"

definition NewStore :: auth_store where
  "NewStore = \<lparr>users = Map.empty, byID = [], tokens = []\<rparr>"

definition AddUser :: "user \<Rightarrow> auth_store \<Rightarrow> bool \<times> auth_store" where
  "AddUser u s = (if users s (Username u) \<noteq> None then (False, s)
     else (True, s\<lparr>users := (users s)(Username u \<mapsto> u), byID := AList.update (UserID u) u (byID s)\<rparr>))"

definition GetByUsername :: "string \<Rightarrow> auth_store \<Rightarrow> user option" where
  "GetByUsername n s = users s n"

definition GetByID :: "string \<Rightarrow> auth_store \<Rightarrow> user option" where
  "GetByID i s = map_of (byID s) i"

definition ListUsers :: "auth_store \<Rightarrow> user list" where
  "ListUsers s = map snd (byID s)"

definition store_DeleteUser :: "string \<Rightarrow> auth_store \<Rightarrow> bool \<times> auth_store" where
  "store_DeleteUser i s = (case map_of (byID s) i of
       None \<Rightarrow> (False, s)
     | Some u \<Rightarrow> (True, s\<lparr>byID := AList.delete i (byID s), users := map_delete (Username u) (users s)\<rparr>))"

definition SaveToken :: "session_token \<Rightarrow> auth_store \<Rightarrow> auth_store" where
  "SaveToken t s = s\<lparr>tokens := AList.update (TokenID t) t (tokens s)\<rparr>"

definition GetToken :: "string \<Rightarrow> auth_store \<Rightarrow> session_token option" where
  "GetToken i s = map_of (tokens s) i"

definition InvalidateToken :: "time \<Rightarrow> string \<Rightarrow> auth_store \<Rightarrow> bool \<times> auth_store" where
  "InvalidateToken now i s = (case map_of (tokens s) i of
       None \<Rightarrow> (False, s)
     | Some t \<Rightarrow> if InvalidatedAt t \<noteq> None then (False, s)
         else (True, s\<lparr>tokens := AList.update i (t\<lparr>InvalidatedAt := Some now\<rparr>) (tokens s)\<rparr>))"

definition store_ActiveCount :: "time \<Rightarrow> auth_store \<Rightarrow> nat" where
  "store_ActiveCount now s = length (filter (\<lambda>(_, t). InvalidatedAt t = None \<and> now < t_ExpiresAt t) (tokens s))"

subsection \<open>Tokens\<close>

type_synonym jwt_signer = "jwt_claims \<Rightarrow> string option"
type_synonym jwt_verifier = "time \<Rightarrow> string \<Rightarrow> jwt_claims option"

definition NewJWTService :: "int \<Rightarrow> duration" where
  "NewJWTService ttlHours = (if ttlHours \<le> 0 then 8 else ttlHours) * hour"

definition auth_claims :: "duration \<Rightarrow> time \<Rightarrow> string \<Rightarrow> string \<Rightarrow> string list \<Rightarrow> jwt_claims" where
  "auth_claims ttl now tokenID userID roleNames = \<lparr>jc_ID = tokenID, jc_Subject = userID, jc_IssuedAt = unix now,
     jc_ExpiresAt = unix (now + ttl), jc_Roles = roleNames\<rparr>"

definition auth_Issue :: "jwt_signer \<Rightarrow> duration \<Rightarrow> time \<Rightarrow> string \<Rightarrow> user \<Rightarrow> string list \<Rightarrow> (session_token \<times> string) option" where
  "auth_Issue jsign ttl now tokenID u roleNames =
     (case jsign (auth_claims ttl now tokenID (UserID u) roleNames) of
        None \<Rightarrow> None
      | Some raw \<Rightarrow> Some (\<lparr>TokenID = tokenID, t_UserID = UserID u, RoleNames = roleNames, t_IssuedAt = now,
          t_ExpiresAt = now + ttl, InvalidatedAt = None\<rparr>, raw))"

subsection \<open>The service\<close>

record service =
  sv_store :: auth_store
  sv_ttl :: duration
  sv_rbac :: rbac

definition NewService :: "auth_store \<Rightarrow> duration \<Rightarrow> rbac \<Rightarrow> service" where
  "NewService st ttl rb = \<lparr>sv_store = st, sv_ttl = ttl, sv_rbac = rb\<rparr>"

abbreviation "dummy_hash \<equiv> ''$2a$10$invalidhashfornonexistentuser000000000000000000000000''"

text \<open>\<open>Login\<close> compares with a dummy hash for an unknown user. If that comparison succeeded, the code would
  go on to read a field of the nil user.\<close>

definition Login ::
  "jwt_signer \<Rightarrow> (string \<Rightarrow> string \<Rightarrow> bool) \<Rightarrow> time \<Rightarrow> string \<Rightarrow> string \<Rightarrow> string \<Rightarrow> service
     \<Rightarrow> (auth_err + login_response \<times> session_token) \<times> service" where
  "Login jsign bcmp now tokenID username password s =
     (let found = GetByUsername username (sv_store s);
          hash = (case found of Some u \<Rightarrow> PasswordHash u | None \<Rightarrow> dummy_hash) in
      if \<not> bcmp hash password then (Inl ErrInvalidCredentials, s)
      else case found of
        None \<Rightarrow> (Inl NilUserPanic, s)
      | Some u \<Rightarrow>
          if \<not> IsActive u then (Inl ErrAccountDisabled, s)
          else let roleNames = map r_Name (UserRoles (UserID u) (sv_rbac s)) in
            case auth_Issue jsign (sv_ttl s) now tokenID u roleNames of
              None \<Rightarrow> (Inl ErrSign, s)
            | Some (sess, raw) \<Rightarrow>
                (Inr (\<lparr>lr_Token = raw, lr_ExpiresAt = t_ExpiresAt sess, lr_UserID = UserID u, lr_Username = Username u,
                       lr_Roles = roleNames\<rparr>, sess),
                 s\<lparr>sv_store := SaveToken sess (sv_store s)\<rparr>))"

definition ValidateToken :: "jwt_verifier \<Rightarrow> time \<Rightarrow> string \<Rightarrow> service \<Rightarrow> auth_err + session_token \<times> user" where
  "ValidateToken jverify now raw s =
     (case jverify now raw of
        None \<Rightarrow> Inl ErrTokenInvalid
      | Some claims \<Rightarrow>
          (case GetToken (jc_ID claims) (sv_store s) of
             None \<Rightarrow> Inl ErrTokenInvalid
           | Some sess \<Rightarrow>
               if InvalidatedAt sess \<noteq> None then Inl ErrTokenInvalid
               else if t_ExpiresAt sess < now then Inl ErrTokenExpired
               else (case GetByID (t_UserID sess) (sv_store s) of
                       None \<Rightarrow> Inl ErrTokenInvalid
                     | Some u \<Rightarrow> if \<not> IsActive u then Inl ErrTokenInvalid else Inr (sess, u))))"

definition Logout :: "time \<Rightarrow> string \<Rightarrow> service \<Rightarrow> service" where
  "Logout now tokenID s = s\<lparr>sv_store := snd (InvalidateToken now tokenID (sv_store s))\<rparr>"

definition GetSessionInfo :: "session_token \<Rightarrow> user \<Rightarrow> service \<Rightarrow> session_info" where
  "GetSessionInfo sess u s =
     (let rs = UserRoles (UserID u) (sv_rbac s) in
      \<lparr>si_UserID = UserID u, si_Username = Username u, si_Roles = map r_Name rs,
       si_Permissions = remdups (concat (map (\<lambda>r. RolePermissionNames (RoleID r) (sv_rbac s)) rs)),
       si_ExpiresAt = t_ExpiresAt sess\<rparr>)"

definition userDetail :: "user \<Rightarrow> service \<Rightarrow> user_detail" where
  "userDetail u s = \<lparr>d_UserID = UserID u, d_Username = Username u, d_Roles = map r_Name (UserRoles (UserID u) (sv_rbac s)),
     d_IsActive = IsActive u, d_CreatedAt = u_CreatedAt u, d_UpdatedAt = u_UpdatedAt u\<rparr>"

fun resolveRoles :: "string list \<Rightarrow> rbac \<Rightarrow> auth_err + role_model list" where
  "resolveRoles [] rb = Inr []"
| "resolveRoles (n # ns) rb =
     (case GetRoleByName n rb of
        None \<Rightarrow> Inl (ErrRoleNotFound n)
      | Some r \<Rightarrow> (case resolveRoles ns rb of Inl e \<Rightarrow> Inl e | Inr rs \<Rightarrow> Inr (r # rs)))"

text \<open>The loop that assigns roles, and what follows it in \<open>CreateUser\<close> and \<open>UpdateUserRoles\<close>.\<close>

definition assign_then_detail :: "string \<Rightarrow> user \<Rightarrow> role_model list \<Rightarrow> service \<Rightarrow> (auth_err + user_detail) \<times> service" where
  "assign_then_detail i u rs s =
     (let (e, rb) = each_until_err (AssignRoleToUser i) (map RoleID rs) (sv_rbac s);
          s' = s\<lparr>sv_rbac := rb\<rparr> in
      case e of Some x \<Rightarrow> (Inl (ErrRbac x), s') | None \<Rightarrow> (Inr (userDetail u s'), s'))"

definition new_user :: "time \<Rightarrow> string \<Rightarrow> string \<Rightarrow> string \<Rightarrow> user" where
  "new_user now i n h = \<lparr>UserID = i, Username = n, PasswordHash = h, u_CreatedAt = now, u_UpdatedAt = now, IsActive = True\<rparr>"

definition CreateUser ::
  "(string \<Rightarrow> string option) \<Rightarrow> time \<Rightarrow> string option \<Rightarrow> create_user_request \<Rightarrow> service \<Rightarrow> (auth_err + user_detail) \<times> service" where
  "CreateUser bhash now newID req s =
     (if cr_Username req = '''' then (Inl ErrInvalidCredentials, s)
      else if length (cr_Password req) < 8 then (Inl ErrInvalidCredentials, s)
      else if GetByUsername (cr_Username req) (sv_store s) \<noteq> None then (Inl ErrUserAlreadyExists, s)
      else
        let roleNames = (if cr_Roles req = [] then [''operator''] else cr_Roles req) in
        case resolveRoles roleNames (sv_rbac s) of
          Inl e \<Rightarrow> (Inl e, s)
        | Inr rs \<Rightarrow>
            (case bhash (cr_Password req) of
               None \<Rightarrow> (Inl ErrHash, s)
             | Some h \<Rightarrow>
                 (case newID of
                    None \<Rightarrow> (Inl ErrNewID, s)
                  | Some i \<Rightarrow>
                      (let u = new_user now i (cr_Username req) h;
                           (added, st) = AddUser u (sv_store s) in
                       if \<not> added then (Inl ErrUserAlreadyExists, s)
                       else assign_then_detail (UserID u) u rs (s\<lparr>sv_store := st\<rparr>)))))"

definition GetUser :: "string \<Rightarrow> service \<Rightarrow> auth_err + user_detail" where
  "GetUser i s = (case GetByID i (sv_store s) of None \<Rightarrow> Inl ErrUserNotFound | Some u \<Rightarrow> Inr (userDetail u s))"

definition ListAllUsers :: "service \<Rightarrow> user_detail list" where
  "ListAllUsers s = map (\<lambda>u. userDetail u s) (ListUsers (sv_store s))"

definition remove_all_roles :: "string \<Rightarrow> service \<Rightarrow> service" where
  "remove_all_roles i s = s\<lparr>sv_rbac :=
     each_ignoring (RemoveRoleFromUser i) (map RoleID (UserRoles i (sv_rbac s))) (sv_rbac s)\<rparr>"

definition DeleteUser :: "string \<Rightarrow> service \<Rightarrow> auth_err option \<times> service" where
  "DeleteUser i s =
     (let s1 = remove_all_roles i s;
          (ok, st) = store_DeleteUser i (sv_store s1) in
      if \<not> ok then (Some ErrUserNotFound, s1) else (None, s1\<lparr>sv_store := st\<rparr>))"

definition UpdateUserRoles :: "string \<Rightarrow> string list \<Rightarrow> service \<Rightarrow> (auth_err + user_detail) \<times> service" where
  "UpdateUserRoles i roleNames s =
     (case GetByID i (sv_store s) of
        None \<Rightarrow> (Inl ErrUserNotFound, s)
      | Some u \<Rightarrow>
          (case resolveRoles roleNames (sv_rbac s) of
             Inl e \<Rightarrow> (Inl e, s)
           | Inr rs \<Rightarrow> assign_then_detail i u rs (remove_all_roles i s)))"

subsection \<open>Seeding\<close>

definition permSeeds :: "(string \<times> string) list" where
  "permSeeds = [(''camera:view'', ''View camera feeds and live sessions''),
     (''camera:manage'', ''Create, update, and delete cameras''),
     (''relay:manage'', ''Manage relay sessions''),
     (''user:manage'', ''Create, update, and delete users'')]"

definition roleSeeds :: "(string \<times> string \<times> string list) list" where
  "roleSeeds = [(''admin'', ''Full system access'', [''camera:view'', ''camera:manage'', ''relay:manage'', ''user:manage'']),
     (''operator'', ''Camera viewing access'', [''camera:view''])]"

text \<open>The first loop of \<open>SeedRBAC\<close>. The ids that are left over are handed on.\<close>

fun seed_perms :: "time \<Rightarrow> (string \<times> string) list \<Rightarrow> string list \<Rightarrow> rbac \<Rightarrow> auth_err option \<times> string list \<times> rbac" where
  "seed_perms now [] ids rb = (None, ids, rb)"
| "seed_perms now ((n, d) # ps) ids rb =
     (if GetPermissionByName n rb \<noteq> None then seed_perms now ps ids rb
      else case ids of
        [] \<Rightarrow> (Some ErrNewID, [], rb)
      | i # ids' \<Rightarrow>
          (case SavePermission \<lparr>PermissionID = i, p_Name = n, p_Description = d, p_CreatedAt = now\<rparr> rb of
             (Some e, rb') \<Rightarrow> (Some (ErrRbac e), ids', rb')
           | (None, rb') \<Rightarrow> seed_perms now ps ids' rb'))"

fun seed_role_perms :: "string \<Rightarrow> string \<Rightarrow> string list \<Rightarrow> rbac \<Rightarrow> auth_err option \<times> rbac" where
  "seed_role_perms rid rname [] rb = (None, rb)"
| "seed_role_perms rid rname (n # ns) rb =
     (case GetPermissionByName n rb of
        None \<Rightarrow> (Some (ErrSeedPermission n rname), rb)
      | Some p \<Rightarrow>
          (case AssignPermissionToRole rid (PermissionID p) rb of
             (Some e, rb') \<Rightarrow> (Some (ErrRbac e), rb')
           | (None, rb') \<Rightarrow> seed_role_perms rid rname ns rb'))"

fun seed_roles :: "time \<Rightarrow> (string \<times> string \<times> string list) list \<Rightarrow> string list \<Rightarrow> rbac \<Rightarrow> auth_err option \<times> string list \<times> rbac" where
  "seed_roles now [] ids rb = (None, ids, rb)"
| "seed_roles now ((n, d, ps) # rs) ids rb =
     (if GetRoleByName n rb \<noteq> None then seed_roles now rs ids rb
      else case ids of
        [] \<Rightarrow> (Some ErrNewID, [], rb)
      | i # ids' \<Rightarrow>
          (case SaveRole \<lparr>RoleID = i, r_Name = n, r_Description = d, r_CreatedAt = now\<rparr> rb of
             (Some e, rb') \<Rightarrow> (Some (ErrRbac e), ids', rb')
           | (None, rb') \<Rightarrow>
               (case seed_role_perms i n ps rb' of
                  (Some e, rb'') \<Rightarrow> (Some e, ids', rb'')
                | (None, rb'') \<Rightarrow> seed_roles now rs ids' rb'')))"

definition SeedRBAC :: "time \<Rightarrow> string list \<Rightarrow> service \<Rightarrow> auth_err option \<times> service" where
  "SeedRBAC now ids s =
     (case seed_perms now permSeeds ids (sv_rbac s) of
        (Some e, _, rb) \<Rightarrow> (Some e, s\<lparr>sv_rbac := rb\<rparr>)
      | (None, ids', rb) \<Rightarrow>
          (case seed_roles now roleSeeds ids' rb of (e, _, rb') \<Rightarrow> (e, s\<lparr>sv_rbac := rb'\<rparr>)))"

text \<open>\<open>SeedAdmin\<close>; \<open>random\<close> is the generated password (24 hexadecimal digits of 12 random bytes).\<close>

definition SeedAdmin ::
  "(string \<Rightarrow> string option) \<Rightarrow> time \<Rightarrow> string option \<Rightarrow> bytes \<Rightarrow> string \<Rightarrow> string \<Rightarrow> service \<Rightarrow> (auth_err + string) \<times> service" where
  "SeedAdmin bhash now newID random username password s =
     (if GetByUsername username (sv_store s) \<noteq> None then (Inr '''', s)
      else
        let pw = (if password = '''' then hex_encode random else password) in
        case bhash pw of
          None \<Rightarrow> (Inl ErrHash, s)
        | Some h \<Rightarrow>
            (case newID of
               None \<Rightarrow> (Inl ErrNewID, s)
             | Some i \<Rightarrow>
                 (let (added, st) = AddUser (new_user now i username h) (sv_store s);
                      s1 = s\<lparr>sv_store := st\<rparr> in
                  if \<not> added then (Inl ErrUserAlreadyExists, s)
                  else case GetRoleByName ''admin'' (sv_rbac s1) of
                    None \<Rightarrow> (Inl ErrNoAdminRole, s1)
                  | Some r \<Rightarrow>
                      (case AssignRoleToUser i (RoleID r) (sv_rbac s1) of
                         (Some e, rb) \<Rightarrow> (Inl (ErrRbac e), s1\<lparr>sv_rbac := rb\<rparr>)
                       | (None, rb) \<Rightarrow> (Inr pw, s1\<lparr>sv_rbac := rb\<rparr>)))))"

subsection \<open>Middleware and handlers\<close>

text \<open>A middleware either answers with a status or hands the request on, with the session and the user in
  the context.\<close>

datatype passage = Reject int string | Pass session_token user

definition extractBearer :: "string \<Rightarrow> string" where
  "extractBearer h = (if take 7 h = ''Bearer '' then drop 7 h else '''')"

definition Middleware :: "jwt_verifier \<Rightarrow> time \<Rightarrow> string \<Rightarrow> service \<Rightarrow> passage" where
  "Middleware jverify now header s =
     (let raw = extractBearer header in
      if raw = '''' then Reject 401 ''unauthorized''
      else case ValidateToken jverify now raw s of
        Inl e \<Rightarrow> Reject 401 ''unauthorized''
      | Inr (sess, u) \<Rightarrow> Pass sess u)"

definition RequirePermission :: "string \<Rightarrow> service \<Rightarrow> passage \<Rightarrow> passage" where
  "RequirePermission perm s ctx =
     (case ctx of
        Reject c m \<Rightarrow> Reject c m
      | Pass sess u \<Rightarrow> if \<not> UserHasPermission (UserID u) perm (sv_rbac s) then Reject 403 ''forbidden'' else Pass sess u)"

text \<open>The HTTP handlers: the status they answer with, and the service after them. An undecodable body is \<open>None\<close>.\<close>

definition handle_Login ::
  "jwt_signer \<Rightarrow> (string \<Rightarrow> string \<Rightarrow> bool) \<Rightarrow> time \<Rightarrow> string \<Rightarrow> (string \<times> string) option \<Rightarrow> service \<Rightarrow> int \<times> service" where
  "handle_Login jsign bcmp now tokenID body s =
     (case body of
        None \<Rightarrow> (400, s)
      | Some (username, password) \<Rightarrow>
          if username = '''' \<or> password = '''' then (400, s)
          else case Login jsign bcmp now tokenID username password s of
            (Inl ErrInvalidCredentials, s') \<Rightarrow> (401, s')
          | (Inl ErrAccountDisabled, s') \<Rightarrow> (403, s')
          | (Inl _, s') \<Rightarrow> (500, s')
          | (Inr _, s') \<Rightarrow> (200, s'))"

definition handle_Logout :: "time \<Rightarrow> session_token option \<Rightarrow> service \<Rightarrow> int \<times> service" where
  "handle_Logout now ctx s = (case ctx of None \<Rightarrow> (204, s) | Some sess \<Rightarrow> (204, Logout now (TokenID sess) s))"

definition createUser_status :: "auth_err + user_detail \<Rightarrow> int" where
  "createUser_status r =
     (case r of
        Inl ErrUserAlreadyExists \<Rightarrow> 409 | Inl (ErrRoleNotFound _) \<Rightarrow> 400 | Inl ErrInvalidCredentials \<Rightarrow> 400
      | Inl _ \<Rightarrow> 500 | Inr _ \<Rightarrow> 201)"

definition createUser ::
  "(string \<Rightarrow> string option) \<Rightarrow> time \<Rightarrow> string option \<Rightarrow> create_user_request option \<Rightarrow> service \<Rightarrow> int \<times> service" where
  "createUser bhash now newID body s =
     (case body of None \<Rightarrow> (400, s)
      | Some req \<Rightarrow> (let (r, s') = CreateUser bhash now newID req s in (createUser_status r, s')))"

definition getUser :: "string \<Rightarrow> service \<Rightarrow> int" where
  "getUser i s = (case GetUser i s of Inl ErrUserNotFound \<Rightarrow> 404 | Inl _ \<Rightarrow> 500 | Inr _ \<Rightarrow> 200)"

definition deleteUser :: "string \<Rightarrow> service \<Rightarrow> int \<times> service" where
  "deleteUser i s = (let (e, s') = DeleteUser i s in
     (case e of None \<Rightarrow> 204 | Some ErrUserNotFound \<Rightarrow> 404 | Some _ \<Rightarrow> 500, s'))"

definition updateUserRoles :: "string \<Rightarrow> string list option \<Rightarrow> service \<Rightarrow> int \<times> service" where
  "updateUserRoles i body s =
     (case body of
        None \<Rightarrow> (400, s)
      | Some roleNames \<Rightarrow>
          if roleNames = [] then (400, s)
          else let (r, s') = UpdateUserRoles i roleNames s in
            (case r of Inl ErrUserNotFound \<Rightarrow> 404 | Inl (ErrRoleNotFound _) \<Rightarrow> 400 | Inl _ \<Rightarrow> 500 | Inr _ \<Rightarrow> 200, s'))"

subsection \<open>The store's indexes\<close>

text \<open>The two indexes hold the same users, each under its own name and id, and a token is stored under its id.\<close>

definition store_ok :: "auth_store \<Rightarrow> bool" where
  "store_ok st \<longleftrightarrow>
     (\<forall>n u. users st n = Some u \<longrightarrow> Username u = n \<and> map_of (byID st) (UserID u) = Some u) \<and>
     (\<forall>i u. map_of (byID st) i = Some u \<longrightarrow> UserID u = i \<and> users st (Username u) = Some u) \<and>
     (\<forall>i t. map_of (tokens st) i = Some t \<longrightarrow> TokenID t = i)"

lemma store_okD:
  assumes "store_ok st"
  shows "users st n = Some u \<Longrightarrow> Username u = n \<and> map_of (byID st) (UserID u) = Some u"
    and "map_of (byID st) i = Some u \<Longrightarrow> UserID u = i \<and> users st (Username u) = Some u"
    and "map_of (tokens st) i = Some t \<Longrightarrow> TokenID t = i"
  using assms unfolding store_ok_def by blast+

lemma store_ok_new [simp]: "store_ok NewStore"
  by (simp add: store_ok_def NewStore_def)

lemma store_ok_AddUser [inv_intros]:
  assumes "store_ok st" "map_of (byID st) (UserID u) = None"
  shows "store_ok (snd (AddUser u st))"
proof (cases "users st (Username u)")
  case None
  with assms show ?thesis
    unfolding store_ok_def by (auto simp: AddUser_def update_conv') (metis option.distinct(1))+
qed (use assms in \<open>simp add: AddUser_def\<close>)

lemma store_ok_DeleteUser [inv_intros]:
  assumes "store_ok st"
  shows "store_ok (snd (store_DeleteUser i st))"
proof (cases "map_of (byID st) i")
  case (Some u)
  let ?st = "snd (store_DeleteUser i st)"
  have st: "users ?st = map_delete (Username u) (users st)" "map_of (byID ?st) = map_delete i (map_of (byID st))"
    "tokens ?st = tokens st"
    using Some by (simp_all add: store_DeleteUser_def delete_conv' map_delete_def)
  show ?thesis unfolding store_ok_def
  proof (intro conjI allI impI)
    fix n v assume "users ?st n = Some v"
    then have v: "n \<noteq> Username u" "users st n = Some v" unfolding st by (metis map_delete_SomeD)+
    then have "UserID v \<noteq> i" using store_okD(1) [OF assms v(2)] Some by auto
    then show "Username v = n" "map_of (byID ?st) (UserID v) = Some v"
      using store_okD(1) [OF assms v(2)] st(2) by simp_all
  next
    fix j v assume "map_of (byID ?st) j = Some v"
    then have v: "j \<noteq> i" "map_of (byID st) j = Some v" unfolding st by (metis map_delete_SomeD)+
    then have "Username v \<noteq> Username u"
      using store_okD(2) [OF assms v(2)] store_okD(2) [OF assms Some] by (metis option.inject)
    then show "UserID v = j" "users ?st (Username v) = Some v"
      using store_okD(2) [OF assms v(2)] st(1) by simp_all
  next
    fix j t assume "map_of (tokens ?st) j = Some t"
    then show "TokenID t = j" using store_okD(3) [OF assms] st(3) by simp
  qed
qed (use assms in \<open>simp add: store_DeleteUser_def\<close>)

lemma store_ok_SaveToken [inv_intros]: "store_ok st \<Longrightarrow> store_ok (SaveToken t st)"
  unfolding store_ok_def by (auto simp: SaveToken_def update_conv')

lemma store_ok_InvalidateToken [inv_intros]: "store_ok st \<Longrightarrow> store_ok (snd (InvalidateToken now i st))"
  unfolding store_ok_def by (auto simp: InvalidateToken_def update_conv' split: option.splits)

definition auth_inv :: "service \<Rightarrow> bool" where
  "auth_inv s \<longleftrightarrow> store_ok (sv_store s) \<and> mem_inv (cache (sv_rbac s))"

lemma assign_loop_inv: "mem_inv (cache rb) \<Longrightarrow> mem_inv (cache (snd (each_until_err (AssignRoleToUser i) xs rb)))"
proof (induction xs arbitrary: rb)
  case (Cons x xs)
  have "mem_inv (cache (snd (AssignRoleToUser i x rb)))" using Cons.prems by (rule cache_inv)
  with Cons.IH show ?case by (auto split: prod.splits option.splits)
qed simp

lemma remove_loop_inv: "mem_inv (cache rb) \<Longrightarrow> mem_inv (cache (each_ignoring (RemoveRoleFromUser i) xs rb))"
  by (induction xs arbitrary: rb) (auto intro: cache_inv)

lemma assign_then_detail_parts:
  "sv_store (snd (assign_then_detail i u rs s)) = sv_store s"
  "sv_rbac (snd (assign_then_detail i u rs s)) = snd (each_until_err (AssignRoleToUser i) (map RoleID rs) (sv_rbac s))"
  by (auto simp: assign_then_detail_def Let_def split: prod.splits option.splits)

lemma remove_all_roles_parts [simp]:
  "sv_store (remove_all_roles i s) = sv_store s"
  "sv_rbac (remove_all_roles i s) = each_ignoring (RemoveRoleFromUser i) (map RoleID (UserRoles i (sv_rbac s))) (sv_rbac s)"
  by (simp_all add: remove_all_roles_def)

text \<open>The operations of the service as steps; every id that a step creates is an argument.\<close>

datatype auth_op =
  OpLogin time string string string | OpLogout time string | OpCreate time string create_user_request
| OpDelete string | OpUpdate string "string list"

fun auth_step :: "jwt_signer \<Rightarrow> (string \<Rightarrow> string \<Rightarrow> bool) \<Rightarrow> (string \<Rightarrow> string option) \<Rightarrow> auth_op \<Rightarrow> service \<Rightarrow> service" where
  "auth_step jsign bcmp bhash (OpLogin now tid n pw) s = snd (Login jsign bcmp now tid n pw s)"
| "auth_step jsign bcmp bhash (OpLogout now tid) s = Logout now tid s"
| "auth_step jsign bcmp bhash (OpCreate now i req) s = snd (CreateUser bhash now (Some i) req s)"
| "auth_step jsign bcmp bhash (OpDelete i) s = snd (DeleteUser i s)"
| "auth_step jsign bcmp bhash (OpUpdate i ns) s = snd (UpdateUserRoles i ns s)"

fun uses_id :: "string \<Rightarrow> string \<Rightarrow> auth_op \<Rightarrow> bool" where
  "uses_id tid uid (OpLogin now t n pw) \<longleftrightarrow> t = tid"
| "uses_id tid uid (OpCreate now i req) \<longleftrightarrow> i = uid"
| "uses_id tid uid _ \<longleftrightarrow> False"

lemma Login_store: "sv_store (snd (Login jsign bcmp now tid n pw s)) = sv_store s \<or>
  (\<exists>t. TokenID t = tid \<and> sv_store (snd (Login jsign bcmp now tid n pw s)) = SaveToken t (sv_store s))"
  by (auto simp: Login_def Let_def auth_Issue_def split: option.splits prod.splits)
     (metis session_token.select_convs(1))

lemma CreateUser_store: "sv_store (snd (CreateUser bhash now (Some i) req s)) = sv_store s \<or>
  (\<exists>u. UserID u = i \<and> sv_store (snd (CreateUser bhash now (Some i) req s)) = snd (AddUser u (sv_store s)))"
  by (auto simp: CreateUser_def Let_def new_user_def assign_then_detail_parts split: option.splits prod.splits sum.splits)
     (metis snd_conv user.select_convs(1))+

lemma DeleteUser_store: "sv_store (snd (DeleteUser i s)) = snd (store_DeleteUser i (sv_store s))"
  by (auto simp: DeleteUser_def Let_def store_DeleteUser_def split: prod.splits option.splits)

lemma UpdateUserRoles_store: "sv_store (snd (UpdateUserRoles i ns s)) = sv_store s"
  by (auto simp: UpdateUserRoles_def assign_then_detail_parts split: option.splits sum.splits)

text \<open>A token is revoked when it was invalidated or its user is gone.\<close>

definition revoked :: "string \<Rightarrow> string \<Rightarrow> auth_store \<Rightarrow> bool" where
  "revoked tid uid st \<longleftrightarrow> (\<exists>t. map_of (tokens st) tid = Some t \<and> t_UserID t = uid \<and>
     (InvalidatedAt t \<noteq> None \<or> map_of (byID st) uid = None))"

lemma revoked_SaveToken: "revoked tid uid st \<Longrightarrow> TokenID t \<noteq> tid \<Longrightarrow> revoked tid uid (SaveToken t st)"
  by (auto simp: revoked_def SaveToken_def update_conv')

lemma revoked_InvalidateToken: "revoked tid uid st \<Longrightarrow> revoked tid uid (snd (InvalidateToken now i st))"
  by (auto simp: revoked_def InvalidateToken_def update_conv' split: option.splits)

lemma revoked_AddUser: "revoked tid uid st \<Longrightarrow> UserID u \<noteq> uid \<Longrightarrow> revoked tid uid (snd (AddUser u st))"
  by (auto simp: revoked_def AddUser_def update_conv')

lemma revoked_DeleteUser: "revoked tid uid st \<Longrightarrow> revoked tid uid (snd (store_DeleteUser i st))"
  by (auto simp: revoked_def store_DeleteUser_def delete_conv' split: option.splits)

lemma revoked_step:
  assumes "revoked tid uid (sv_store s)" "\<not> uses_id tid uid p"
  shows "revoked tid uid (sv_store (auth_step jsign bcmp bhash p s))"
proof (cases p)
  case (OpLogin now t n pw)
  then show ?thesis using assms Login_store [of jsign bcmp now t n pw s] revoked_SaveToken by auto
next
  case (OpLogout now t)
  then show ?thesis using assms revoked_InvalidateToken by (simp add: Logout_def)
next
  case (OpCreate now i req)
  then show ?thesis using assms CreateUser_store [of bhash now i req s] revoked_AddUser by auto
next
  case (OpDelete i)
  then show ?thesis using assms revoked_DeleteUser by (simp add: DeleteUser_store)
next
  case (OpUpdate i ns)
  then show ?thesis using assms by (simp add: UpdateUserRoles_store)
qed

lemma revoked_run:
  "revoked tid uid (sv_store s) \<Longrightarrow> list_all (\<lambda>p. \<not> uses_id tid uid p) ops \<Longrightarrow>
   revoked tid uid (sv_store (fold (auth_step jsign bcmp bhash) ops s))"
  by (induction ops arbitrary: s) (auto intro: revoked_step)

lemma revoked_rejected:
  assumes "revoked tid uid (sv_store s)" "jverify now raw = Some c" "jc_ID c = tid"
  shows "ValidateToken jverify now raw s \<noteq> Inr (sess, u)"
  using assms by (auto simp: revoked_def ValidateToken_def GetToken_def GetByID_def split: option.splits)

text \<open>Property C7: revocation is final. Once the user has logged out with a token, or the user has been deleted,
  no sequence of logins, logouts, user creations (with other ids), deletions and role updates, and no
  state of the role store, makes that token valid again.\<close>

theorem revocation_is_final:
  assumes "GetToken tid (sv_store s) = Some t" "t_UserID t = uid"
    and "s' = Logout now0 tid s \<or> s' = snd (DeleteUser uid s)"
    and "list_all (\<lambda>p. \<not> uses_id tid uid p) ops"
    and "jverify now raw = Some c" "jc_ID c = tid"
  shows "\<exists>e. ValidateToken jverify now raw (fold (auth_step jsign bcmp bhash) ops s') = Inl e"
proof -
  have "revoked tid uid (sv_store s')"
    using assms(1-3)
    by (auto simp: Logout_def DeleteUser_store revoked_def InvalidateToken_def store_DeleteUser_def GetToken_def
        update_conv' delete_conv' split: option.splits)
  from revoked_run [OF this assms(4)] have "revoked tid uid (sv_store (fold (auth_step jsign bcmp bhash) ops s'))" .
  from revoked_rejected [where jverify = jverify, OF this assms(5,6)] show ?thesis
    by (cases "ValidateToken jverify now raw (fold (auth_step jsign bcmp bhash) ops s')") auto
qed

text \<open>All operations keep the invariants, if created users get ids that are not in use.\<close>

lemma auth_inv_step [inv_intros]:
  assumes "auth_inv s" "\<And>now i req. p = OpCreate now i req \<Longrightarrow> map_of (byID (sv_store s)) i = None"
  shows "auth_inv (auth_step jsign bcmp bhash p s)"
proof -
  have inv: "store_ok (sv_store s)" "mem_inv (cache (sv_rbac s))" using assms(1) by (simp_all add: auth_inv_def)
  have rb: "mem_inv (cache (sv_rbac (auth_step jsign bcmp bhash p s)))"
  proof (cases p)
    case (OpLogin now t n pw)
    then show ?thesis using inv(2) by (auto simp: Login_def Let_def split: option.splits prod.splits)
  next
    case (OpLogout now t)
    then show ?thesis using inv(2) by (simp add: Logout_def)
  next
    case (OpCreate now i req)
    then show ?thesis using inv(2) assign_loop_inv
      by (auto simp: CreateUser_def Let_def assign_then_detail_parts simp del: each_until_err.simps resolveRoles.simps
          split: option.splits prod.splits sum.splits)
  next
    case (OpDelete i)
    then show ?thesis using inv(2) remove_loop_inv by (auto simp: DeleteUser_def Let_def split: prod.splits)
  next
    case (OpUpdate i ns)
    then show ?thesis using inv(2) assign_loop_inv remove_loop_inv
      by (auto simp: UpdateUserRoles_def assign_then_detail_parts split: option.splits sum.splits)
  qed
  have "store_ok (sv_store (auth_step jsign bcmp bhash p s))"
  proof (cases p)
    case (OpLogin now t n pw)
    then show ?thesis using inv(1) Login_store [of jsign bcmp now t n pw s] store_ok_SaveToken by auto
  next
    case (OpLogout now t)
    then show ?thesis using inv(1) store_ok_InvalidateToken by (simp add: Logout_def)
  next
    case (OpCreate now i req)
    then show ?thesis using inv(1) assms(2) CreateUser_store [of bhash now i req s] store_ok_AddUser by auto
  next
    case (OpDelete i)
    then show ?thesis using inv(1) store_ok_DeleteUser by (simp add: DeleteUser_store)
  next
    case (OpUpdate i ns)
    then show ?thesis using inv(1) by (simp add: UpdateUserRoles_store)
  qed
  with rb show ?thesis by (simp add: auth_inv_def)
qed

lemma seed_perms_inv: "mem_inv (cache rb) \<Longrightarrow> mem_inv (cache (snd (snd (seed_perms now ps ids rb))))"
proof (induction ps arbitrary: ids rb)
  case (Cons p ps)
  obtain n d where p: "p = (n, d)" by (cases p)
  show ?case
  proof (cases "GetPermissionByName n rb = None \<and> ids \<noteq> []")
    case True
    then obtain i ids' where ids: "ids = i # ids'" by (cases ids) auto
    obtain e rb1 where s: "SavePermission \<lparr>PermissionID = i, p_Name = n, p_Description = d, p_CreatedAt = now\<rparr> rb = (e, rb1)"
      by (meson surj_pair)
    have "mem_inv (cache rb1)" using cache_inv(1) [OF Cons.prems] s by (metis snd_conv)
    then show ?thesis using True p ids s Cons.IH by (auto split: option.splits)
  qed (use p Cons in \<open>auto split: list.splits\<close>)
qed simp

lemma seed_role_perms_inv: "mem_inv (cache rb) \<Longrightarrow> mem_inv (cache (snd (seed_role_perms x rn ns rb)))"
proof (induction ns arbitrary: rb)
  case (Cons n ns)
  show ?case
  proof (cases "GetPermissionByName n rb")
    case (Some p)
    obtain e rb1 where s: "AssignPermissionToRole x (PermissionID p) rb = (e, rb1)" by (meson surj_pair)
    have "mem_inv (cache rb1)" using cache_inv(3) [OF Cons.prems] s by (metis snd_conv)
    then show ?thesis using Some s Cons.IH by (auto split: option.splits)
  qed (use Cons in simp)
qed simp

lemma seed_roles_inv: "mem_inv (cache rb) \<Longrightarrow> mem_inv (cache (snd (snd (seed_roles now rs ids rb))))"
proof (induction rs arbitrary: ids rb)
  case (Cons r rs)
  obtain n d ps where r: "r = (n, d, ps)" by (cases r)
  show ?case
  proof (cases "GetRoleByName n rb = None \<and> ids \<noteq> []")
    case True
    then obtain i ids' where ids: "ids = i # ids'" by (cases ids) auto
    obtain e rb1 where s: "SaveRole \<lparr>RoleID = i, r_Name = n, r_Description = d, r_CreatedAt = now\<rparr> rb = (e, rb1)"
      by (meson surj_pair)
    obtain e2 rb2 where p: "seed_role_perms i n ps rb1 = (e2, rb2)" by (meson surj_pair)
    have "mem_inv (cache rb1)" using cache_inv(2) [OF Cons.prems] s by (metis snd_conv)
    moreover from this have "mem_inv (cache rb2)" using seed_role_perms_inv p by (metis snd_conv)
    ultimately show ?thesis using True r ids s p Cons.IH by (auto split: option.splits)
  qed (use r Cons in \<open>auto split: list.splits\<close>)
qed simp

lemma auth_inv_SeedRBAC [inv_intros]:
  assumes "auth_inv s"
  shows "auth_inv (snd (SeedRBAC now ids s))"
proof -
  obtain e ids1 rb1 where p: "seed_perms now permSeeds ids (sv_rbac s) = (e, ids1, rb1)" by (metis prod_cases3)
  obtain e2 ids2 rb2 where q: "seed_roles now roleSeeds ids1 rb1 = (e2, ids2, rb2)" by (metis prod_cases3)
  have "mem_inv (cache rb1)" using seed_perms_inv [of "sv_rbac s" now permSeeds ids] p assms by (simp add: auth_inv_def)
  moreover from this have "mem_inv (cache rb2)" using seed_roles_inv [of rb1 now roleSeeds ids1] q by simp
  ultimately show ?thesis using p q assms by (auto simp: SeedRBAC_def auth_inv_def split: option.splits)
qed

subsection \<open>Creation, login, access\<close>

text \<open>What the libraries promise: a signed token is not empty and verifies with its claims before its expiry,
  and a password matches its own hash.\<close>

definition jwt_law :: "jwt_signer \<Rightarrow> jwt_verifier \<Rightarrow> bool" where
  "jwt_law jsign jverify \<longleftrightarrow> (\<forall>c raw. jsign c = Some raw \<longrightarrow> raw \<noteq> '''' \<and>
     (\<forall>t. t < jc_ExpiresAt c * second \<longrightarrow> jverify t raw = Some c))"

definition bcrypt_law :: "(string \<Rightarrow> string option) \<Rightarrow> (string \<Rightarrow> string \<Rightarrow> bool) \<Rightarrow> bool" where
  "bcrypt_law bhash bcmp \<longleftrightarrow> (\<forall>pw h. bhash pw = Some h \<longrightarrow> bcmp h pw)"

text \<open>The permissions of a role, by its name.\<close>

definition role_grants :: "rbac \<Rightarrow> string \<Rightarrow> string \<Rightarrow> bool" where
  "role_grants rb n perm = (case GetRoleByName n rb of None \<Rightarrow> False | Some r \<Rightarrow> perm \<in> set (RolePermissionNames (RoleID r) rb))"

definition requested_roles :: "create_user_request \<Rightarrow> string list" where
  "requested_roles req = (if cr_Roles req = [] then [''operator''] else cr_Roles req)"

lemma defs_eq:
  assumes "store_defs rb' = store_defs rb"
  shows "RolePermissionNames x rb' = RolePermissionNames x rb" "GetRoleByName n rb' = GetRoleByName n rb"
    "known_roles (cache rb') = known_roles (cache rb)"
proof -
  have "rolePerms (mem_defs m) = rolePerms m" "rolesByName (mem_defs m) = rolesByName m" "roles (mem_defs m) = roles m" for m
    by (simp_all add: mem_defs_def)
  with assms have "rolePerms (cache rb') = rolePerms (cache rb)" "rolesByName (cache rb') = rolesByName (cache rb)"
      "roles (cache rb') = roles (cache rb)"
    unfolding store_defs_def by metis+
  then show "RolePermissionNames x rb' = RolePermissionNames x rb" "GetRoleByName n rb' = GetRoleByName n rb"
    "known_roles (cache rb') = known_roles (cache rb)"
    by (simp_all add: RolePermissionNames_def mem_RolePermissionNames_def GetRoleByName_def mem_GetRoleByName_def known_roles_def)
qed

lemma resolve_grants:
  "resolveRoles ns rb = Inr rs \<Longrightarrow>
   (\<exists>x \<in> RoleID ` set rs. perm \<in> set (RolePermissionNames x rb)) \<longleftrightarrow> (\<exists>n \<in> set ns. role_grants rb n perm)"
  by (induction ns arbitrary: rs) (auto simp: role_grants_def split: option.splits sum.splits)

lemma resolve_known:
  assumes "mem_inv (cache rb)"
  shows "resolveRoles ns rb = Inr rs \<Longrightarrow> RoleID ` set rs \<subseteq> known_roles (cache rb)"
  using mem_invD(1) [OF assms]
  by (induction ns arbitrary: rs)
     (auto simp: GetRoleByName_def mem_GetRoleByName_def image_subset_iff split: option.splits sum.splits)

lemma CreateUser_done:
  assumes "CreateUser bhash now newID req s = (Inr d, s1)"
  obtains i h rs rb where "newID = Some i" "bhash (cr_Password req) = Some h" "users (sv_store s) (cr_Username req) = None"
    "resolveRoles (requested_roles req) (sv_rbac s) = Inr rs"
    "each_until_err (AssignRoleToUser i) (map RoleID rs) (sv_rbac s) = (None, rb)"
    "s1 = s\<lparr>sv_store := snd (AddUser (new_user now i (cr_Username req) h) (sv_store s)), sv_rbac := rb\<rparr>"
  using assms
  by (auto simp: CreateUser_def requested_roles_def assign_then_detail_def Let_def GetByUsername_def new_user_def
      split: if_splits option.splits sum.splits prod.splits)

text \<open>Property C8: from creation to access. A user who was created with some roles can log in with the password, and
  with the token of that login passes, until it expires, the gate of exactly those permissions that one
  of the roles grants (the role operator if none was named); for any other permission the answer is 403.\<close>

theorem created_user_access:
  assumes laws: "jwt_law jsign jverify" "bcrypt_law bhash bcmp"
    and fresh: "GetByID i (sv_store s) = None" "store_rids (sv_rbac s) i = {}"
    and created: "CreateUser bhash now0 (Some i) req s = (Inr d, s1)"
    and signs: "jsign (auth_claims (sv_ttl s) now1 tid i (map r_Name (UserRoles i (sv_rbac s1)))) \<noteq> None"
    and time: "now2 < unix (now1 + sv_ttl s) * second"
  shows "\<exists>resp sess s2 u. Login jsign bcmp now1 tid (cr_Username req) (cr_Password req) s1 = (Inr (resp, sess), s2)
    \<and> UserID u = i \<and> Username u = cr_Username req
    \<and> RequirePermission perm s2 (Middleware jverify now2 (''Bearer '' @ lr_Token resp) s2) =
      (if \<exists>n \<in> set (requested_roles req). role_grants (sv_rbac s) n perm then Pass sess u else Reject 403 ''forbidden'')"
proof -
  obtain h rs rb where c: "bhash (cr_Password req) = Some h" "users (sv_store s) (cr_Username req) = None"
      "resolveRoles (requested_roles req) (sv_rbac s) = Inr rs"
      "each_until_err (AssignRoleToUser i) (map RoleID rs) (sv_rbac s) = (None, rb)"
      "s1 = s\<lparr>sv_store := snd (AddUser (new_user now0 i (cr_Username req) h) (sv_store s)), sv_rbac := rb\<rparr>"
    using created by (elim CreateUser_done) simp
  let ?u = "new_user now0 i (cr_Username req) h"
  have u: "GetByUsername (cr_Username req) (sv_store s1) = Some ?u" "GetByID i (sv_store s1) = Some ?u"
    using c(2,5) by (simp_all add: AddUser_def new_user_def GetByUsername_def GetByID_def update_conv')
  have m: "bcmp h (cr_Password req)" using laws(2) c(1) by (simp add: bcrypt_law_def)
  let ?names = "map r_Name (UserRoles i rb)"
  let ?c = "auth_claims (sv_ttl s) now1 tid i ?names"
  let ?sess = "\<lparr>TokenID = tid, t_UserID = i, RoleNames = ?names, t_IssuedAt = now1, t_ExpiresAt = now1 + sv_ttl s, InvalidatedAt = None\<rparr>"
  obtain raw where raw: "jsign ?c = Some raw" "raw \<noteq> ''''" "jverify now2 raw = Some ?c"
    using laws(1) time signs c(5) by (auto simp: jwt_law_def auth_claims_def)
  let ?resp = "\<lparr>lr_Token = raw, lr_ExpiresAt = now1 + sv_ttl s, lr_UserID = i, lr_Username = cr_Username req, lr_Roles = ?names\<rparr>"
  let ?s2 = "s1\<lparr>sv_store := SaveToken ?sess (sv_store s1)\<rparr>"
  have login: "Login jsign bcmp now1 tid (cr_Username req) (cr_Password req) s1 = (Inr (?resp, ?sess), ?s2)"
    using u(1) m raw(1) c(5) by (simp add: Login_def new_user_def auth_Issue_def Let_def)
  have "\<not> now1 + sv_ttl s < now2" using time unix_bounds [of "now1 + sv_ttl s"] by linarith
  then have "ValidateToken jverify now2 raw ?s2 = Inr (?sess, ?u)"
    using raw(3) u(2) by (simp add: auth_claims_def ValidateToken_def GetToken_def SaveToken_def GetByID_def update_conv' new_user_def)
  then have pass: "Middleware jverify now2 (''Bearer '' @ lr_Token ?resp) ?s2 = Pass ?sess ?u"
    using raw(2) by (simp add: Middleware_def extractBearer_def)
  note a = store_roles.each_assign [OF c(4)]
  have "UserHasPermission i perm rb \<longleftrightarrow> (\<exists>n \<in> set (requested_roles req). role_grants (sv_rbac s) n perm)"
    using a fresh(2) resolve_grants [OF c(3), of perm] defs_eq(1) [of rb "sv_rbac s"] by (simp add: UserHasPermission_iff)
  then have gate: "RequirePermission perm ?s2 (Pass ?sess ?u) =
      (if \<exists>n \<in> set (requested_roles req). role_grants (sv_rbac s) n perm then Pass ?sess ?u else Reject 403 ''forbidden'')"
    using c(5) by (simp add: RequirePermission_def new_user_def)
  have "UserID ?u = i" "Username ?u = cr_Username req" by (simp_all add: new_user_def)
  with login pass gate show ?thesis by metis
qed

subsection \<open>Role updates\<close>

text \<open>Property C27: a role update replaces the roles. With a reliable role store (memory alone, or Redis that answers)
  the update of an existing user with known roles succeeds, afterwards the user has exactly the
  permissions of the new roles, and nobody else's roles change.\<close>

theorem update_roles_exact:
  assumes "auth_inv s" "reliable (sv_rbac s)" "GetByID i (sv_store s) = Some u"
    and "resolveRoles names (sv_rbac s) = Inr rs"
  shows "\<exists>d s'. UpdateUserRoles i names s = (Inr d, s') \<and> auth_inv s' \<and> reliable (sv_rbac s') \<and>
    (\<forall>perm. UserHasPermission i perm (sv_rbac s') \<longleftrightarrow> (\<exists>n \<in> set names. role_grants (sv_rbac s) n perm)) \<and>
    (\<forall>v. v \<noteq> i \<longrightarrow> store_rids (sv_rbac s') v = store_rids (sv_rbac s) v)"
proof -
  let ?rb = "sv_rbac s" and ?old = "map RoleID (UserRoles i (sv_rbac s))"
  have inv: "mem_inv (cache ?rb)" "store_ok (sv_store s)" using assms(1) by (simp_all add: auth_inv_def)
  have "set (map RoleID rs) \<subseteq> known_roles (store_defs ?rb)"
    using resolve_known [OF inv(1) assms(4)] by (simp add: store_defs_def)
  moreover have "store_rids ?rb i \<subseteq> set ?old" using UserRoles_ids [OF inv(1)] by simp
  ultimately obtain rb where rb: "each_until_err (AssignRoleToUser i) (map RoleID rs)
        (each_ignoring (RemoveRoleFromUser i) ?old ?rb) = (None, rb)"
      "store_rids rb = (store_rids ?rb)(i := set (map RoleID rs))" "store_defs rb = store_defs ?rb" "reliable rb"
    using store_roles.replace_roles [OF assms(2)] by blast
  have "UpdateUserRoles i names s = (Inr (userDetail u (s\<lparr>sv_rbac := rb\<rparr>)), s\<lparr>sv_rbac := rb\<rparr>)"
    using assms(3,4) rb(1) by (simp add: UpdateUserRoles_def assign_then_detail_def remove_all_roles_def Let_def)
  moreover have "UserHasPermission i perm rb \<longleftrightarrow> (\<exists>n \<in> set names. role_grants ?rb n perm)" for perm
    using rb(2) resolve_grants [OF assms(4), of perm] defs_eq(1) [OF rb(3)] by (simp add: UserHasPermission_iff)
  moreover have "mem_inv (cache rb)"
    using assign_loop_inv [OF remove_loop_inv [OF inv(1), of i ?old], of i "map RoleID rs"] rb(1) by simp
  ultimately show ?thesis using rb(2,4) inv(2) by (auto simp: auth_inv_def)
qed

lemma lost_removal:
  assumes "net (l_redis t) = Lost False # ns" "typed (db (l_redis t))"
  shows "snd (RemoveRoleFromUser i x (Layered t)) = Layered (t\<lparr>l_redis := (l_redis t)\<lparr>net := ns\<rparr>\<rparr>)"
proof -
  obtain d where "srem (keyUserRoles i) x (db (l_redis t)) = Some d"
    using srem_typed [OF assms(2), of "keyUserRoles i" x] by auto
  then show ?thesis using assms(1)
    by (simp add: layered_RemoveRoleFromUser_def write_through_def redis_RemoveRoleFromUser_def write_cmd_def pop_def)
qed

lemma lost_removals:
  "net (l_redis t) = replicate (length xs) (Lost False) \<Longrightarrow> typed (db (l_redis t)) \<Longrightarrow>
   each_ignoring (RemoveRoleFromUser i) xs (Layered t) = Layered (t\<lparr>l_redis := (l_redis t)\<lparr>net := []\<rparr>\<rparr>)"
proof (induction xs arbitrary: t)
  case Nil
  then show ?case by simp
next
  case (Cons x xs)
  then have "snd (RemoveRoleFromUser i x (Layered t)) =
      Layered (t\<lparr>l_redis := (l_redis t)\<lparr>net := replicate (length xs) (Lost False)\<rparr>\<rparr>)"
    by (intro lost_removal) simp_all
  with Cons.IH [of "t\<lparr>l_redis := (l_redis t)\<lparr>net := replicate (length xs) (Lost False)\<rparr>\<rparr>"] Cons.prems(2)
  show ?case by simp
qed

text \<open>Failed removals go unnoticed. When Redis does not answer the removals and then answers the
  assignments, the update reports success, but the user keeps every role there was beside the new ones.\<close>

theorem update_roles_ignores_failed_removals:
  assumes "auth_inv s" "sv_rbac s = Layered t" "typed (db (l_redis t))"
    and "net (l_redis t) = replicate (length (UserRoles i (sv_rbac s))) (Lost False)"
    and "GetByID i (sv_store s) = Some u" "resolveRoles names (sv_rbac s) = Inr rs"
  shows "\<exists>d s'. UpdateUserRoles i names s = (Inr d, s') \<and>
    store_rids (sv_rbac s') i = store_rids (sv_rbac s) i \<union> RoleID ` set rs \<and>
    (\<forall>perm. UserHasPermission i perm (sv_rbac s) \<longrightarrow> UserHasPermission i perm (sv_rbac s'))"
proof -
  let ?rb = "sv_rbac s" and ?t = "Layered (t\<lparr>l_redis := (l_redis t)\<lparr>net := []\<rparr>\<rparr>)"
  have removed: "each_ignoring (RemoveRoleFromUser i) (map RoleID (UserRoles i ?rb)) ?rb = ?t"
    using lost_removals [of t "map RoleID (UserRoles i ?rb)" i] assms(2,3,4) by simp
  have same: "store_rids ?t = store_rids ?rb" "store_defs ?t = store_defs ?rb"
    using assms(2) by (simp_all add: store_rids_def store_defs_def)
  have "set (map RoleID rs) \<subseteq> known_roles (store_defs ?t)"
    using resolve_known [OF _ assms(6)] assms(1) same(2) by (simp add: store_defs_def auth_inv_def)
  then obtain rb where rb: "each_until_err (AssignRoleToUser i) (map RoleID rs) ?t = (None, rb)"
    using store_roles.each_assign_works [of ?t "map RoleID rs" i] assms(3)
    by (cases "each_until_err (AssignRoleToUser i) (map RoleID rs) ?t") auto
  note a = store_roles.each_assign [OF rb]
  have "UpdateUserRoles i names s = (Inr (userDetail u (s\<lparr>sv_rbac := rb\<rparr>)), s\<lparr>sv_rbac := rb\<rparr>)"
    using assms(5,6) rb removed by (simp add: UpdateUserRoles_def assign_then_detail_def remove_all_roles_def Let_def)
  moreover have "store_rids rb i = store_rids ?rb i \<union> RoleID ` set rs" using a same by simp
  moreover have "UserHasPermission i perm ?rb \<Longrightarrow> UserHasPermission i perm rb" for perm
    using calculation(2) defs_eq(1) [of rb ?rb] a same by (auto simp: UserHasPermission_iff)
  ultimately show ?thesis by auto
qed

subsection \<open>Seeding a fresh store, and a seeding that was interrupted\<close>

definition fresh_service :: "rbac \<Rightarrow> service" where
  "fresh_service rb = NewService NewStore (NewJWTService 0) rb"

text \<open>Once all the seeds are there by name, \<open>SeedRBAC\<close> changes nothing.\<close>

lemma SeedRBAC_noop:
  assumes "\<forall>p \<in> set permSeeds. GetPermissionByName (fst p) (sv_rbac s) \<noteq> None"
    and "\<forall>r \<in> set roleSeeds. GetRoleByName (fst r) (sv_rbac s) \<noteq> None"
  shows "SeedRBAC now ids s = (None, s)"
proof -
  have "\<forall>p \<in> set ps. GetPermissionByName (fst p) rb \<noteq> None \<Longrightarrow> seed_perms now ps ids rb = (None, ids, rb)" for ps rb
    by (induction ps) auto
  moreover have "\<forall>r \<in> set rs. GetRoleByName (fst r) rb \<noteq> None \<Longrightarrow> seed_roles now rs ids rb = (None, ids, rb)" for rs rb
    by (induction rs) auto
  ultimately show ?thesis using assms by (simp add: SeedRBAC_def)
qed

lemma seed_perms_spec:
  assumes "name_index_ok m" "distinct ids" "\<forall>i \<in> set ids. map_of (permissions m) i = None" "length ps \<le> length ids"
  shows "\<exists>m' ids'. seed_perms now ps ids (InMem m) = (None, ids', InMem m') \<and> name_index_ok m'
     \<and> dom (permsByName m') = dom (permsByName m) \<union> fst ` set ps \<and> rolePerms m' = rolePerms m
     \<and> roles m' = roles m \<and> rolesByName m' = rolesByName m
     \<and> distinct ids' \<and> length ids \<le> length ids' + length ps"
  using assms
proof (induction ps arbitrary: ids m)
  case (Cons p ps)
  obtain n d where p: "p = (n, d)" by (cases p)
  show ?case
  proof (cases "permsByName m n")
    case (Some q)
    from Cons.IH [OF Cons.prems(1-3)] Cons.prems(4) obtain m' ids' where
      "seed_perms now ps ids (InMem m) = (None, ids', InMem m')" "name_index_ok m'"
      "dom (permsByName m') = dom (permsByName m) \<union> fst ` set ps" "rolePerms m' = rolePerms m" "roles m' = roles m"
      "rolesByName m' = rolesByName m" "distinct ids'" "length ids \<le> length ids' + length ps" by auto
    moreover have "n \<in> dom (permsByName m)" using Some by auto
    ultimately show ?thesis using Some p by (auto simp: GetPermissionByName_def mem_GetPermissionByName_def)
  next
    case None
    obtain i is' where ids: "ids = i # is'" using Cons.prems(4) by (cases ids) auto
    let ?p = "\<lparr>PermissionID = i, p_Name = n, p_Description = d, p_CreatedAt = now\<rparr>"
    let ?m = "mem_SavePermission ?p m"
    have "name_index_ok ?m"
      using Cons.prems(1,3) ids unfolding name_index_ok_def mem_SavePermission_def
      by (auto simp: update_conv') (metis option.distinct(1))
    moreover have "distinct is'" "\<forall>j \<in> set is'. map_of (permissions ?m) j = None" "length ps \<le> length is'"
      using Cons.prems(2-4) ids by (auto simp: mem_SavePermission_def update_conv')
    ultimately obtain m' ids' where m': "seed_perms now ps is' (InMem ?m) = (None, ids', InMem m')" "name_index_ok m'"
        "dom (permsByName m') = dom (permsByName ?m) \<union> fst ` set ps" "rolePerms m' = rolePerms ?m" "roles m' = roles ?m"
        "rolesByName m' = rolesByName ?m" "distinct ids'" "length is' \<le> length ids' + length ps"
      using Cons.IH [of ?m is'] by blast
    have "seed_perms now (p # ps) ids (InMem m) = (None, ids', InMem m')"
      using None p ids m'(1) by (simp add: GetPermissionByName_def mem_GetPermissionByName_def)
    moreover have "dom (permsByName ?m) = insert n (dom (permsByName m))" "rolePerms ?m = rolePerms m" "roles ?m = roles m"
        "rolesByName ?m = rolesByName m" by (simp_all add: mem_SavePermission_def)
    ultimately show ?thesis using m' p ids by (intro exI [of _ m'] exI [of _ ids']) auto
  qed
qed auto

lemma seed_role_perms_spec:
  assumes "name_index_ok m" "map_of (roles m) x \<noteq> None" "set ns \<subseteq> dom (permsByName m)"
  shows "\<exists>ns'. set ns' = set (rolePerms m x) \<union> set ns
     \<and> seed_role_perms x rn ns (InMem m) = (None, InMem (m\<lparr>rolePerms := (rolePerms m)(x := ns')\<rparr>))"
  using assms
proof (induction ns arbitrary: m)
  case Nil
  show ?case by (intro exI [of _ "rolePerms m x"]) simp
next
  case (Cons n ns)
  obtain p where p: "permsByName m n = Some p" using Cons.prems(3) by auto
  with Cons.prems(1) obtain q where q: "map_of (permissions m) (PermissionID p) = Some q" "p_Name q = n"
    by (auto simp: name_index_ok_def)
  let ?m = "m\<lparr>rolePerms := (rolePerms m)(x := List.insert n (rolePerms m x))\<rparr>"
  have "seed_role_perms x rn (n # ns) (InMem m) = seed_role_perms x rn ns (InMem ?m)"
    using p q Cons.prems(2) by (auto simp: GetPermissionByName_def mem_GetPermissionByName_def mem_AssignPermissionToRole_def)
  moreover have "name_index_ok ?m" "map_of (roles ?m) x \<noteq> None" "set ns \<subseteq> dom (permsByName ?m)"
    using Cons.prems by (simp_all add: name_index_ok_def)
  then obtain ns' where "set ns' = set (rolePerms ?m x) \<union> set ns"
      "seed_role_perms x rn ns (InMem ?m) = (None, InMem (?m\<lparr>rolePerms := (rolePerms ?m)(x := ns')\<rparr>))"
    using Cons.IH [of ?m] by blast
  ultimately have "seed_role_perms x rn (n # ns) (InMem m) = (None, InMem (m\<lparr>rolePerms := (rolePerms m)(x := ns')\<rparr>))"
    "set ns' = set (rolePerms m x) \<union> set (n # ns)" by (simp, auto)
  then show ?case by blast
qed

text \<open>One new role: it gets exactly the seed's permissions, and the other roles keep theirs.\<close>

lemma seed_one_role:
  assumes "name_index_ok m" "rolesByName m n = None" "set ps \<subseteq> dom (permsByName m)" "rolePerms m i = []"
  shows "\<exists>m'. seed_roles now ((n, d, ps) # rs) (i # ids) (InMem m) = seed_roles now rs ids (InMem m')
    \<and> name_index_ok m' \<and> permsByName m' = permsByName m \<and> set (rolePerms m' i) = set ps
    \<and> (\<forall>j. j \<noteq> i \<longrightarrow> rolePerms m' j = rolePerms m j)
    \<and> rolesByName m' = (rolesByName m)(n \<mapsto> \<lparr>RoleID = i, r_Name = n, r_Description = d, r_CreatedAt = now\<rparr>)"
proof -
  let ?r = "\<lparr>RoleID = i, r_Name = n, r_Description = d, r_CreatedAt = now\<rparr>"
  let ?m = "mem_SaveRole ?r m"
  have "name_index_ok ?m" "map_of (roles ?m) i \<noteq> None" "set ps \<subseteq> dom (permsByName ?m)"
    using assms by (simp_all add: mem_SaveRole_def name_index_ok_def update_conv')
  then obtain ns where ns: "set ns = set (rolePerms ?m i) \<union> set ps"
      "seed_role_perms i n ps (InMem ?m) = (None, InMem (?m\<lparr>rolePerms := (rolePerms ?m)(i := ns)\<rparr>))"
    using seed_role_perms_spec [of ?m i ps n] by blast
  let ?n = "?m\<lparr>rolePerms := (rolePerms ?m)(i := ns)\<rparr>"
  have "seed_roles now ((n, d, ps) # rs) (i # ids) (InMem m) = seed_roles now rs ids (InMem ?n)"
    using assms(2) ns(2) by (simp add: GetRoleByName_def mem_GetRoleByName_def)
  moreover have "name_index_ok ?n" "permsByName ?n = permsByName m" "set (rolePerms ?n i) = set ps"
      "\<forall>j. j \<noteq> i \<longrightarrow> rolePerms ?n j = rolePerms m j" "rolesByName ?n = (rolesByName m)(n \<mapsto> ?r)"
    using assms(1,4) ns(1) by (simp_all add: mem_SaveRole_def name_index_ok_def)
  ultimately show ?thesis by blast
qed

text \<open>Seeding a fresh in-memory store with at least six distinct ids succeeds; the admin role then has exactly the four
  permissions and the operator role only the one to view cameras; seeding again changes nothing.\<close>

lemma seeded_fresh:
  assumes "distinct ids" "6 \<le> length ids"
  shows "\<exists>m. let s = (fresh_service (InMem NewInMemRBACStore))\<lparr>sv_rbac := InMem m\<rparr> in
    SeedRBAC now ids (fresh_service (InMem NewInMemRBACStore)) = (None, s)
    \<and> (\<forall>perm. role_grants (InMem m) ''admin'' perm \<longleftrightarrow>
         perm \<in> {''camera:view'', ''camera:manage'', ''relay:manage'', ''user:manage''})
    \<and> (\<forall>perm. role_grants (InMem m) ''operator'' perm \<longleftrightarrow> perm = ''camera:view'')
    \<and> (\<forall>later ids'. SeedRBAC later ids' s = (None, s))"
proof -
  let ?m0 = NewInMemRBACStore
  obtain m1 ids1 where p: "seed_perms now permSeeds ids (InMem ?m0) = (None, ids1, InMem m1)" "name_index_ok m1"
      "dom (permsByName m1) = fst ` set permSeeds" "rolePerms m1 = (\<lambda>_. [])" "rolesByName m1 = Map.empty"
      "distinct ids1" "2 \<le> length ids1"
    using seed_perms_spec [of ?m0 ids permSeeds now] assms
    by (auto simp: NewInMemRBACStore_def name_index_ok_def permSeeds_def)
  obtain x y ids2 where ids: "ids1 = x # y # ids2" "x \<noteq> y"
    using p(6,7) by (cases ids1; cases "tl ids1") auto
  obtain n1 d1 ps1 n2 d2 ps2 where seeds: "roleSeeds = [(n1, d1, ps1), (n2, d2, ps2)]" "n1 = ''admin''" "n2 = ''operator''"
      "set ps1 = {''camera:view'', ''camera:manage'', ''relay:manage'', ''user:manage''}" "set ps2 = {''camera:view''}"
    by (simp add: roleSeeds_def)
  have all: "set ps1 \<subseteq> dom (permsByName m1)" "set ps2 \<subseteq> dom (permsByName m1)"
    using p(3) seeds by (auto simp: permSeeds_def)
  obtain m2 where m2: "seed_roles now roleSeeds ids1 (InMem m1) = seed_roles now [(n2, d2, ps2)] (y # ids2) (InMem m2)"
      "name_index_ok m2" "permsByName m2 = permsByName m1" "set (rolePerms m2 x) = set ps1"
      "\<forall>j. j \<noteq> x \<longrightarrow> rolePerms m2 j = rolePerms m1 j"
      "rolesByName m2 = [n1 \<mapsto> \<lparr>RoleID = x, r_Name = n1, r_Description = d1, r_CreatedAt = now\<rparr>]"
    using seed_one_role [OF p(2) _ all(1), of n1 x now d1 "[(n2, d2, ps2)]" "y # ids2"] p(4,5) seeds(1) ids(1) by auto
  obtain m3 where m3: "seed_roles now [(n2, d2, ps2)] (y # ids2) (InMem m2) = (None, ids2, InMem m3)"
      "permsByName m3 = permsByName m1" "set (rolePerms m3 y) = set ps2" "rolePerms m3 x = rolePerms m2 x"
      "rolesByName m3 = (rolesByName m2)(n2 \<mapsto> \<lparr>RoleID = y, r_Name = n2, r_Description = d2, r_CreatedAt = now\<rparr>)"
    using seed_one_role [OF m2(2), of n2 ps2 y now d2 "[]" ids2] m2(3,5,6) p(4) seeds(2,3) all(2) ids(2) by auto
  let ?s = "(fresh_service (InMem ?m0))\<lparr>sv_rbac := InMem m3\<rparr>"
  have "SeedRBAC now ids (fresh_service (InMem ?m0)) = (None, ?s)"
    using p(1) m2(1) m3(1) by (simp add: SeedRBAC_def fresh_service_def NewService_def)
  moreover have "role_grants (sv_rbac ?s) ''admin'' perm \<longleftrightarrow> perm \<in> set ps1"
      "role_grants (sv_rbac ?s) ''operator'' perm \<longleftrightarrow> perm \<in> set ps2" for perm
    using m2(4,6) m3(3,4,5) seeds(2,3)
    by (simp_all add: role_grants_def GetRoleByName_def mem_GetRoleByName_def RolePermissionNames_def mem_RolePermissionNames_def)
  moreover have "SeedRBAC later ids' ?s = (None, ?s)" for later ids'
  proof (rule SeedRBAC_noop)
    have "fst q \<in> dom (permsByName m3)" if "q \<in> set permSeeds" for q using that p(3) m3(2) by auto
    then show "\<forall>q \<in> set permSeeds. GetPermissionByName (fst q) (sv_rbac ?s) \<noteq> None"
      by (auto simp: GetPermissionByName_def mem_GetPermissionByName_def)
    show "\<forall>r \<in> set roleSeeds. GetRoleByName (fst r) (sv_rbac ?s) \<noteq> None"
      unfolding seeds(1) using m2(6) m3(5) by (simp add: GetRoleByName_def mem_GetRoleByName_def)
  qed
  ultimately show ?thesis using seeds(4,5) by (intro exI [of _ m3]) (auto simp: Let_def)
qed

text \<open>Seeding gives no role to anybody.\<close>

lemma seed_perms_users: "userRoles (cache (snd (snd (seed_perms now ps ids (InMem m))))) = userRoles m"
  by (induction ps arbitrary: ids m) (auto simp: mem_SavePermission_def split: list.split)

lemma seed_role_perms_users:
  "\<exists>e n. seed_role_perms x rn ns (InMem m) = (e, InMem n) \<and> userRoles n = userRoles m"
proof (induction ns arbitrary: m)
  case (Cons n ns)
  have "\<exists>e k. seed_role_perms x rn ns (InMem (m\<lparr>rolePerms := f\<rparr>)) = (e, InMem k) \<and> userRoles k = userRoles m" for f
    using Cons.IH [of "m\<lparr>rolePerms := f\<rparr>"] by simp
  then show ?case
    by (auto simp: mem_AssignPermissionToRole_def split: option.splits prod.splits if_splits)
qed simp

lemma seed_roles_users: "userRoles (cache (snd (snd (seed_roles now rs ids (InMem m))))) = userRoles m"
proof (induction rs arbitrary: ids m)
  case (Cons r rs)
  obtain n d ps where r: "r = (n, d, ps)" by (cases r)
  show ?case
  proof (cases "GetRoleByName n (InMem m) = None \<and> ids \<noteq> []")
    case True
    then obtain i ids' where ids: "ids = i # ids'" by (cases ids) auto
    let ?m = "mem_SaveRole \<lparr>RoleID = i, r_Name = n, r_Description = d, r_CreatedAt = now\<rparr> m"
    obtain e k where k: "seed_role_perms i n ps (InMem ?m) = (e, InMem k)" "userRoles k = userRoles ?m"
      using seed_role_perms_users by blast
    have "userRoles ?m = userRoles m" by (simp add: mem_SaveRole_def)
    then show ?thesis using True r ids k Cons.IH by (auto split: option.splits)
  qed (use r Cons in \<open>auto split: list.splits\<close>)
qed simp

lemma SeedRBAC_users:
  assumes "sv_rbac s = InMem m" "SeedRBAC now ids s = (e, s')"
  shows "userRoles (cache (sv_rbac s')) = userRoles m"
proof -
  have "\<exists>n. snd (snd (seed_perms now ps ids (InMem m))) = InMem n" for ps ids m
    by (induction ps arbitrary: ids m) (auto split: list.split)
  then obtain n where n: "snd (snd (seed_perms now permSeeds ids (InMem m))) = InMem n" by blast
  obtain e1 ids1 where p: "seed_perms now permSeeds ids (InMem m) = (e1, ids1, InMem n)" using n by (metis prod.collapse)
  have "userRoles n = userRoles m" using seed_perms_users [of now permSeeds ids m] p by simp
  then show ?thesis
    using assms p seed_roles_users [of now roleSeeds ids1 n] by (auto simp: SeedRBAC_def split: option.splits prod.splits)
qed

text \<open>A first start whose Redis connection fails at the first assignment of a permission, and the next start, which
  warms the cache from Redis and seeds again, without any failure.\<close>

definition first_start :: "auth_err option \<times> service" where
  "first_start = SeedRBAC 5 [''1'', ''2'', ''3'', ''4'', ''5'', ''6'']
     (fresh_service (Layered (NewLayeredRBACStore NewInMemRBACStore
        \<lparr>db = Map.empty, net = replicate 10 Ack @ [Lost False]\<rparr>)))"

definition restarted :: "service \<Rightarrow> service" where
  "restarted s = fresh_service (case sv_rbac s of InMem _ \<Rightarrow> InMem NewInMemRBACStore
     | Layered t \<Rightarrow> Layered (layered_WarmFrom (NewLayeredRBACStore NewInMemRBACStore ((l_redis t)\<lparr>net := []\<rparr>))))"

definition second_start :: "(auth_err + string) \<times> service" where
  "second_start =
     (let s = snd (SeedRBAC 9 [''11'', ''12'', ''13'', ''14'', ''15'', ''16''] (restarted (snd first_start))) in
      SeedAdmin (\<lambda>p. Some (''hash'' @ p)) 9 (Some ''u'') [] ''admin'' ''secret'' s)"

text \<open>A seeding that was interrupted is never completed. If the first start fails while it gives the admin
  role its permissions, the next start finds the role by name, skips it and reports success; the admin
  account it creates has the admin role and no permission at all.\<close>

theorem interrupted_seeding_not_completed:
  "fst first_start = Some (ErrRbac RedisFailed)
   \<and> fst (SeedRBAC 9 [''11'', ''12'', ''13'', ''14'', ''15'', ''16''] (restarted (snd first_start))) = None
   \<and> fst second_start = Inr ''secret''
   \<and> map r_Name (UserRoles ''u'' (sv_rbac (snd second_start))) = [''admin'']
   \<and> list_all (\<lambda>p. \<not> UserHasPermission ''u'' (fst p) (sv_rbac (snd second_start))) permSeeds"
  by code_simp

subsection \<open>Sample runs\<close>

definition sample_service :: service where
  "sample_service = snd (SeedRBAC 5 [''1'', ''2'', ''3'', ''4'', ''5'', ''6''] (fresh_service (InMem NewInMemRBACStore)))"

definition sample_request :: create_user_request where
  "sample_request = \<lparr>cr_Username = ''ann'', cr_Password = ''long enough'', cr_Roles = []\<rparr>"

definition sample_bhash :: "string \<Rightarrow> string option" where
  "sample_bhash pw = Some (''hash:'' @ pw)"

definition sample_bcmp :: "string \<Rightarrow> string \<Rightarrow> bool" where
  "sample_bcmp h pw \<longleftrightarrow> h = ''hash:'' @ pw"

text \<open>A signer that signs the claims of one login only, and its verifier.\<close>

definition sample_claims :: jwt_claims where
  "sample_claims = auth_claims (8 * hour) second ''t1'' ''u1'' [''operator'']"

definition sample_sign :: jwt_signer where
  "sample_sign c = (if c = sample_claims then Some ''signed'' else None)"

definition sample_verify :: jwt_verifier where
  "sample_verify t raw = (if raw = ''signed'' \<and> t < jc_ExpiresAt sample_claims * second then Some sample_claims else None)"

definition sample_created :: service where
  "sample_created = snd (CreateUser sample_bhash 7 (Some ''u1'') sample_request sample_service)"

definition sample_logged_in :: service where
  "sample_logged_in = snd (Login sample_sign sample_bcmp second ''t1'' ''ann'' ''long enough'' sample_created)"

lemma sample_laws: "jwt_law sample_sign sample_verify" "bcrypt_law sample_bhash sample_bcmp"
  by (auto simp: jwt_law_def bcrypt_law_def sample_sign_def sample_verify_def sample_bhash_def sample_bcmp_def split: if_splits)

lemma sample_created_eq:
  "GetByID ''u1'' (sv_store sample_service) = None" "userRoles (cache (sv_rbac sample_service)) ''u1'' = []"
  "case fst (CreateUser sample_bhash 7 (Some ''u1'') sample_request sample_service) of Inr _ \<Rightarrow> True | Inl _ \<Rightarrow> False"
  "sample_sign (auth_claims (sv_ttl sample_service) second ''t1'' ''u1''
      (map r_Name (UserRoles ''u1'' (sv_rbac sample_created)))) = Some ''signed''"
  "role_grants (sv_rbac sample_service) ''operator'' ''camera:view''"
  "\<not> role_grants (sv_rbac sample_service) ''operator'' ''user:manage''"
  "sv_ttl sample_service = 8 * hour" "requested_roles sample_request = [''operator'']"
  by code_simp+

theorem created_user_access_witness:
  "\<exists>resp sess s2 u. Login sample_sign sample_bcmp second ''t1'' ''ann'' ''long enough'' sample_created = (Inr (resp, sess), s2)
    \<and> RequirePermission ''camera:view'' s2 (Middleware sample_verify hour (''Bearer '' @ lr_Token resp) s2) = Pass sess u"
proof -
  obtain d where d: "CreateUser sample_bhash 7 (Some ''u1'') sample_request sample_service = (Inr d, sample_created)"
    using sample_created_eq(3) unfolding sample_created_def
    by (cases "CreateUser sample_bhash 7 (Some ''u1'') sample_request sample_service") (auto split: sum.splits)
  have "store_rids (sv_rbac sample_service) ''u1'' = {}"
    using sample_created_eq(2) by (simp add: store_rids_def mem_rids_def)
  moreover have "sample_sign (auth_claims (sv_ttl sample_service) second ''t1'' ''u1''
      (map r_Name (UserRoles ''u1'' (sv_rbac sample_created)))) \<noteq> None" using sample_created_eq(4) by simp
  moreover have "hour < unix (second + sv_ttl sample_service) * second" using sample_created_eq(7) by (simp add: unix_def)
  ultimately show ?thesis
    using created_user_access [OF sample_laws sample_created_eq(1) _ d, of second "''t1''" hour "''camera:view''"]
      sample_created_eq(5,8) by (simp add: sample_request_def) blast
qed

lemma sample_token: "map_option t_UserID (GetToken ''t1'' (sv_store sample_logged_in)) = Some ''u1''"
  by code_simp

theorem revocation_is_final_witness:
  "\<exists>e. ValidateToken sample_verify second ''signed''
     (fold (auth_step sample_sign sample_bcmp sample_bhash) [OpLogin 9 ''t2'' ''ann'' ''long enough'', OpDelete ''nobody'']
       (Logout 8 ''t1'' sample_logged_in)) = Inl e"
proof -
  obtain t where t: "GetToken ''t1'' (sv_store sample_logged_in) = Some t" "t_UserID t = ''u1''"
    using sample_token by auto
  have v: "sample_verify second ''signed'' = Some sample_claims" "jc_ID sample_claims = ''t1''"
    by (simp_all add: sample_verify_def sample_claims_def auth_claims_def unix_def)
  show ?thesis
    using revocation_is_final [where jverify = sample_verify and now = second and raw = "''signed''"
      and ops = "[OpLogin 9 ''t2'' ''ann'' ''long enough'', OpDelete ''nobody'']", OF t disjI1 [OF refl] _ v]
    by simp
qed

lemma sample_inv: "auth_inv sample_created"
proof -
  have "auth_inv (fresh_service (InMem NewInMemRBACStore))"
    by (simp add: auth_inv_def fresh_service_def NewService_def)
  then have "auth_inv sample_service" unfolding sample_service_def by (rule auth_inv_SeedRBAC)
  then have "auth_inv (auth_step sample_sign sample_bcmp sample_bhash (OpCreate 7 ''u1'' sample_request) sample_service)"
    using sample_created_eq(1) by (intro auth_inv_step) (simp_all add: GetByID_def)
  then show ?thesis by (simp add: sample_created_def)
qed

lemma sample_update:
  "case sv_rbac sample_created of InMem _ \<Rightarrow> True | Layered _ \<Rightarrow> False" "map_option UserID (GetByID ''u1'' (sv_store sample_created)) = Some ''u1''"
  "case resolveRoles [''admin''] (sv_rbac sample_created) of Inr _ \<Rightarrow> True | Inl _ \<Rightarrow> False"
  "role_grants (sv_rbac sample_created) ''admin'' ''user:manage''"
  by code_simp+

theorem update_roles_exact_witness:
  "\<exists>d s'. UpdateUserRoles ''u1'' [''admin''] sample_created = (Inr d, s') \<and> UserHasPermission ''u1'' ''user:manage'' (sv_rbac s')"
proof -
  obtain u where u: "GetByID ''u1'' (sv_store sample_created) = Some u" using sample_update(2) by auto
  obtain rs where rs: "resolveRoles [''admin''] (sv_rbac sample_created) = Inr rs" using sample_update(3) by (auto split: sum.splits)
  have "reliable (sv_rbac sample_created)" using sample_update(1) by (cases "sv_rbac sample_created") auto
  from update_roles_exact [OF sample_inv this u rs] sample_update(4) show ?thesis by auto
qed

text \<open>The same with Redis: the user of the sample store, a second role, and a removal that goes unanswered.\<close>

definition sample_redis_rbac :: layered where
  "sample_redis_rbac = snd (layered_SaveRole \<lparr>RoleID = ''r2'', r_Name = ''admin'', r_Description = '''', r_CreatedAt = 8\<rparr> sample_layered)"

definition sample_redis_service :: service where
  "sample_redis_service = NewService (snd (AddUser (new_user 7 ''u1'' ''ann'' ''h'') NewStore)) hour
     (Layered (sample_redis_rbac\<lparr>l_redis := (l_redis sample_redis_rbac)\<lparr>net := [Lost False]\<rparr>\<rparr>))"

lemma sample_redis_inv: "auth_inv sample_redis_service" "typed (db (l_redis sample_redis_rbac))"
proof -
  have r: "layered_reach sample_redis_rbac"
    unfolding sample_redis_rbac_def by (intro layered_reach.save_role sample_layered_reach)
  have "store_ok (snd (AddUser (new_user 7 ''u1'' ''ann'' ''h'') NewStore))"
    by (rule store_ok_AddUser, rule store_ok_new) (simp add: NewStore_def)
  then show "auth_inv sample_redis_service" "typed (db (l_redis sample_redis_rbac))"
    using reach_mem_inv [OF r] reach_coherent [OF r]
    by (simp_all add: auth_inv_def sample_redis_service_def NewService_def coherent_def)
qed

lemma sample_redis_values:
  "length (UserRoles ''u1'' (sv_rbac sample_redis_service)) = 1"
  "map_option UserID (GetByID ''u1'' (sv_store sample_redis_service)) = Some ''u1''"
  "case resolveRoles [''admin''] (sv_rbac sample_redis_service) of Inr _ \<Rightarrow> True | Inl _ \<Rightarrow> False"
  "UserHasPermission ''u1'' ''camera:view'' (sv_rbac sample_redis_service)"
  by code_simp+

theorem update_roles_ignores_failed_removals_witness:
  "\<exists>d s'. UpdateUserRoles ''u1'' [''admin''] sample_redis_service = (Inr d, s')
    \<and> UserHasPermission ''u1'' ''camera:view'' (sv_rbac s')"
proof -
  obtain u where u: "GetByID ''u1'' (sv_store sample_redis_service) = Some u" using sample_redis_values(2) by auto
  obtain rs where rs: "resolveRoles [''admin''] (sv_rbac sample_redis_service) = Inr rs"
    using sample_redis_values(3) by (auto split: sum.splits)
  let ?t = "sample_redis_rbac\<lparr>l_redis := (l_redis sample_redis_rbac)\<lparr>net := [Lost False]\<rparr>\<rparr>"
  have rb: "sv_rbac sample_redis_service = Layered ?t" by (simp add: sample_redis_service_def NewService_def)
  have "net (l_redis ?t) = replicate (length (UserRoles ''u1'' (sv_rbac sample_redis_service))) (Lost False)"
    using sample_redis_values(1) by simp
  from update_roles_ignores_failed_removals [OF sample_redis_inv(1) rb _ this u rs] sample_redis_inv(2) sample_redis_values(4)
  show ?thesis by auto
qed

text \<open>When an assignment fails during creation, the caller gets an error but the user stays in the store, so a second
  attempt is refused as a duplicate.\<close>

theorem failed_creation_keeps_user:
  assumes "CreateUser bhash now newID req s = (Inl (ErrRbac e), s1)"
  shows "GetByUsername (cr_Username req) (sv_store s1) \<noteq> None"
    and "CreateUser bhash' now' newID' req s1 = (Inl ErrUserAlreadyExists, s1)"
proof -
  have no: "resolveRoles ns rb \<noteq> Inl (ErrRbac x)" for ns rb x
    by (induction ns) (auto split: option.splits sum.splits)
  have g: "cr_Username req \<noteq> ''''" "\<not> length (cr_Password req) < 8"
    using assms by (auto simp: CreateUser_def split: if_splits)
  show u: "GetByUsername (cr_Username req) (sv_store s1) \<noteq> None"
    using assms no
    by (auto simp: CreateUser_def assign_then_detail_def Let_def GetByUsername_def AddUser_def new_user_def
        simp del: each_until_err.simps resolveRoles.simps split: if_splits option.splits sum.splits prod.splits)
  show "CreateUser bhash' now' newID' req s1 = (Inl ErrUserAlreadyExists, s1)"
    using u g by (simp add: CreateUser_def)
qed

end
