(* ===== verification/Camera_Model.thy ===== *)
theory Camera_Model
  imports Go_Url
begin

section \<open>Cameras and their validation\<close>

text \<open>
  \<open>internal/camera/model.go\<close> and \<open>validation.go\<close>. A validation returns the list of its complaints, the
  arguments of \<open>errors.Join\<close> without the nil ones; the empty list is \<open>nil\<close>. Numbers in pointers are
  options. Enumerations are strings in the code and stay strings, because a client can send any text.
  A map of labels is an association list; the order of the complaints about labels is not meaningful.
  \<open>uuid_parse\<close> stands for the UUID library's parser: version and canonical text of what it accepts.

  The main results: which cameras are well formed, and that everything the write checks accept passes
  the checks of the finished camera except credentials of scheme none.
\<close>

record cam_identity =
  i_Name :: string
  i_Description :: string
  i_Vendor :: string
  i_Model :: string
  i_SerialNumber :: string

record cam_site =
  SiteID :: string
  GroupID :: string
  Labels :: "(string \<times> string) list"

record cam_endpoint =
  ep_Protocol :: string
  ep_URL :: string
  ep_Transport :: string
  ConnectTimeoutMS :: int
  ReadTimeoutMS :: int

record cam_credentials =
  cc_Scheme :: string
  cc_Username :: string
  PasswordRef :: string
  RotatedAt :: "time option"

record cam_credentials_write =
  cw_Scheme :: string
  cw_Username :: string
  cw_Password :: string

record resolution_hint =
  Width :: int
  Height :: int

record cam_profile_write =
  pw_Name :: string
  StreamPath :: string
  CodecHint :: string
  ResolutionHint :: "resolution_hint option"
  BitrateKbpsHint :: "int option"
  FramerateHint :: "int option"
  IsDefault :: bool

record cam_profile =
  ProfileID :: string
  profile :: cam_profile_write

record cam_capabilities =
  SupportsAudio :: bool
  SupportsPTZ :: bool
  SupportsONVIF :: bool
  DiscoveredCodecs :: "string list"
  cap_Notes :: string

record cam_health_error =
  he_Code :: string
  he_Message :: string
  ObservedAt :: time

record health_probe =
  ProbeID :: string
  CadenceMS :: int
  LastRunAt :: "time option"
  NextRunAt :: "time option"
  OwnerNodeID :: string

record cam_health =
  h_Status :: string
  LastSeenAt :: "time option"
  LastError :: "cam_health_error option"
  h_Probe :: health_probe
  ConsecutiveFailures :: int

record cam =
  CamID :: string
  TenantID :: string
  Identity :: cam_identity
  Site :: cam_site
  Endpoint :: cam_endpoint
  Credentials :: "cam_credentials option"
  Profiles :: "cam_profile list"
  cam_Capabilities :: cam_capabilities
  Health :: cam_health
  CreatedAt :: time
  UpdatedAt :: time
  Version :: int

record cam_write =
  w_Identity :: cam_identity
  w_Site :: cam_site
  w_Endpoint :: cam_endpoint
  w_Credentials :: "cam_credentials_write option"
  w_Profiles :: "cam_profile_write list"
  w_Capabilities :: cam_capabilities

abbreviation "DefaultConnectTimeoutMS \<equiv> 5000 :: int"
abbreviation "DefaultReadTimeoutMS \<equiv> 15000 :: int"
abbreviation "DefaultProbeCadenceMS \<equiv> 30000 :: int"

datatype complaint =
  NotUUIDv7 string | NotTrimmed string | TooShort string | TooLong string | Invalid string | Missing string
| OutOfRange string | MustBeAbsent string | Duplicate string | WrongDefaultCount | TimeOrder

type_synonym uuid_parser = "string \<Rightarrow> (int \<times> string) option"

definition complain :: "bool \<Rightarrow> complaint \<Rightarrow> complaint list" where
  "complain b c = (if b then [c] else [])"

lemma complain_nil [simp]: "complain b c = [] \<longleftrightarrow> \<not> b"
  by (simp add: complain_def)

subsection \<open>The elementary checks\<close>

definition validateUUIDV7 :: "uuid_parser \<Rightarrow> string \<Rightarrow> string \<Rightarrow> complaint list" where
  "validateUUIDV7 uuid_parse fld v =
     (case uuid_parse v of
        None \<Rightarrow> [NotUUIDv7 fld]
      | Some (ver, canonical) \<Rightarrow> complain (ver \<noteq> 7 \<or> canonical \<noteq> v) (NotUUIDv7 fld))"

definition validateTrimmedString :: "string \<Rightarrow> string \<Rightarrow> nat \<Rightarrow> nat \<Rightarrow> complaint list" where
  "validateTrimmedString fld v minRunes maxRunes =
     (if v \<noteq> TrimSpace v then [NotTrimmed fld]
      else if runeCount v < minRunes then [TooShort fld]
      else complain (maxRunes > 0 \<and> runeCount v > maxRunes) (TooLong fld))"

definition labelKeyPattern :: "string \<Rightarrow> bool" where
  "labelKeyPattern k \<longleftrightarrow> 1 \<le> length k \<and> length k \<le> 63 \<and>
     list_all (\<lambda>c. cont 97 122 (char_nat c) \<or> digit c \<or> c \<in> set ''._-'') k"

definition protocol_Valid :: "string \<Rightarrow> bool" where
  "protocol_Valid p \<longleftrightarrow> p = ''rtsp''"

definition transport_Valid :: "string \<Rightarrow> bool" where
  "transport_Valid t \<longleftrightarrow> t \<in> set [''tcp'', ''udp'', ''auto'']"

definition scheme_Valid :: "string \<Rightarrow> bool" where
  "scheme_Valid s \<longleftrightarrow> s \<in> set [''basic'', ''digest'', ''none'']"

definition codec_Valid :: "string \<Rightarrow> bool" where
  "codec_Valid c \<longleftrightarrow> c \<in> set [''h264'', ''h265'', ''mjpeg'', ''unknown'']"

definition status_Valid :: "string \<Rightarrow> bool" where
  "status_Valid s \<longleftrightarrow> s \<in> set [''unknown'', ''online'', ''offline'', ''degraded'']"

subsection \<open>The checks of the parts\<close>

definition identity_Validate :: "cam_identity \<Rightarrow> complaint list" where
  "identity_Validate i =
     validateTrimmedString ''identity.name'' (i_Name i) 1 120 @
     complain (runeCount (i_Description i) > 2000) (TooLong ''identity.description'')"

definition site_Validate :: "uuid_parser \<Rightarrow> cam_site \<Rightarrow> complaint list" where
  "site_Validate uuid_parse s =
     validateUUIDV7 uuid_parse ''site.site_id'' (SiteID s) @
     (if GroupID s \<noteq> '''' then validateUUIDV7 uuid_parse ''site.group_id'' (GroupID s) else []) @
     concat (map (\<lambda>(k, v). complain (\<not> labelKeyPattern k) (Invalid ''site.labels'') @
       complain (runeCount v > 256) (TooLong ''site.labels'')) (Labels s))"

definition endpoint_Validate :: "cam_endpoint \<Rightarrow> complaint list" where
  "endpoint_Validate e =
     complain (\<not> protocol_Valid (ep_Protocol e)) (Invalid ''endpoint.protocol'') @
     (case ParseRequestURI (ep_URL e) of
        None \<Rightarrow> [Invalid ''endpoint.url'']
      | Some u \<Rightarrow>
          if uri_scheme u = '''' \<or> uri_host u = '''' then [Invalid ''endpoint.url'']
          else complain (uri_scheme u \<noteq> ep_Protocol e) (Invalid ''endpoint.url scheme'') @
            complain (uri_user u) (MustBeAbsent ''endpoint.url userinfo'')) @
     complain (\<not> transport_Valid (ep_Transport e)) (Invalid ''endpoint.transport'') @
     complain (ConnectTimeoutMS e < 1000 \<or> ConnectTimeoutMS e > 30000) (OutOfRange ''endpoint.connect_timeout_ms'') @
     complain (ReadTimeoutMS e < 1000 \<or> ReadTimeoutMS e > 60000) (OutOfRange ''endpoint.read_timeout_ms'')"

definition credentials_Validate :: "cam_credentials \<Rightarrow> complaint list" where
  "credentials_Validate c =
     (if \<not> scheme_Valid (cc_Scheme c) then [Invalid ''credentials.scheme'']
      else if cc_Scheme c = ''none'' then
        complain (cc_Username c \<noteq> '''') (MustBeAbsent ''credentials.username'') @
        complain (PasswordRef c \<noteq> '''') (MustBeAbsent ''credentials.password_ref'')
      else validateTrimmedString ''credentials.username'' (cc_Username c) 1 128 @
        complain (PasswordRef c = '''') (Missing ''credentials.password_ref''))"

definition credentials_write_Validate :: "cam_credentials_write \<Rightarrow> complaint list" where
  "credentials_write_Validate c =
     (if \<not> scheme_Valid (cw_Scheme c) then [Invalid ''credentials.scheme'']
      else if cw_Scheme c = ''none'' then
        complain (cw_Username c \<noteq> '''') (MustBeAbsent ''credentials.username'') @
        complain (cw_Password c \<noteq> '''') (MustBeAbsent ''credentials.password'')
      else validateTrimmedString ''credentials.username'' (cw_Username c) 1 128 @
        complain (cw_Password c = '''') (Missing ''credentials.password''))"

definition resolution_Validate :: "resolution_hint \<Rightarrow> complaint list" where
  "resolution_Validate r =
     complain (Width r < 1 \<or> Width r > 8192) (OutOfRange ''profile.resolution_hint.width'') @
     complain (Height r < 1 \<or> Height r > 8192) (OutOfRange ''profile.resolution_hint.height'')"

text \<open>\<open>validateProfileFields\<close>, on the fields that \<open>CamProfile\<close> and \<open>CamProfileWrite\<close> share.\<close>

definition profile_write_Validate :: "cam_profile_write \<Rightarrow> complaint list" where
  "profile_write_Validate p =
     validateTrimmedString ''profile.name'' (pw_Name p) 1 64 @
     complain (StreamPath p \<noteq> '''' \<and> hd (StreamPath p) \<noteq> CHR ''/'') (Invalid ''profile.stream_path'') @
     complain (\<not> codec_Valid (CodecHint p)) (Invalid ''profile.codec_hint'') @
     (case ResolutionHint p of None \<Rightarrow> [] | Some r \<Rightarrow> resolution_Validate r) @
     (case BitrateKbpsHint p of None \<Rightarrow> [] | Some b \<Rightarrow> complain (b < 1 \<or> b > 200000) (OutOfRange ''profile.bitrate_kbps_hint'')) @
     (case FramerateHint p of None \<Rightarrow> [] | Some f \<Rightarrow> complain (f < 1 \<or> f > 240) (OutOfRange ''profile.framerate_hint''))"

definition profile_Validate :: "uuid_parser \<Rightarrow> cam_profile \<Rightarrow> complaint list" where
  "profile_Validate uuid_parse p =
     validateUUIDV7 uuid_parse ''profile.profile_id'' (ProfileID p) @ profile_write_Validate (profile p)"

definition capabilities_Validate :: "cam_capabilities \<Rightarrow> complaint list" where
  "capabilities_Validate c = complain (runeCount (cap_Notes c) > 2000) (TooLong ''capabilities.notes'')"

definition health_error_Validate :: "cam_health_error \<Rightarrow> complaint list" where
  "health_error_Validate e =
     validateTrimmedString ''health.last_error.code'' (he_Code e) 1 0 @
     validateTrimmedString ''health.last_error.message'' (he_Message e) 1 0 @
     complain (ObservedAt e = 0) (Missing ''health.last_error.observed_at'')"

definition probe_Validate :: "uuid_parser \<Rightarrow> health_probe \<Rightarrow> complaint list" where
  "probe_Validate uuid_parse p =
     validateUUIDV7 uuid_parse ''health.probe.probe_id'' (ProbeID p) @
     complain (CadenceMS p < 5000 \<or> CadenceMS p > 600000) (OutOfRange ''health.probe.cadence_ms'') @
     validateTrimmedString ''health.probe.owner_node_id'' (OwnerNodeID p) 1 0"

definition health_Validate :: "uuid_parser \<Rightarrow> cam_health \<Rightarrow> complaint list" where
  "health_Validate uuid_parse h =
     complain (\<not> status_Valid (h_Status h)) (Invalid ''health.status'') @
     (case LastError h of None \<Rightarrow> [] | Some e \<Rightarrow> health_error_Validate e) @
     complain (h_Status h \<in> set [''offline'', ''degraded''] \<and> LastError h = None) (Missing ''health.last_error'') @
     probe_Validate uuid_parse (h_Probe h) @
     complain (ConsecutiveFailures h < 0) (OutOfRange ''health.consecutive_failures'')"

text \<open>The loop of \<open>validateProfiles\<close> and \<open>validateWriteProfiles\<close>, which differ in the check of one profile only;
  \<open>seen\<close> is the set of names so far.\<close>

fun profile_loop :: "('p \<Rightarrow> complaint list) \<Rightarrow> ('p \<Rightarrow> cam_profile_write) \<Rightarrow> string list \<Rightarrow> nat \<Rightarrow> 'p list \<Rightarrow> complaint list" where
  "profile_loop val flds seen n [] = complain (n \<noteq> 1) WrongDefaultCount"
| "profile_loop val flds seen n (p # ps) =
     val p @ complain (pw_Name (flds p) \<in> set seen) (Duplicate (pw_Name (flds p))) @
     profile_loop val flds (pw_Name (flds p) # seen) (if IsDefault (flds p) then Suc n else n) ps"

definition validateProfiles :: "uuid_parser \<Rightarrow> cam_profile list \<Rightarrow> complaint list" where
  "validateProfiles uuid_parse ps =
     (if ps = [] then [Missing ''profiles''] else profile_loop (profile_Validate uuid_parse) profile [] 0 ps)"

definition validateWriteProfiles :: "cam_profile_write list \<Rightarrow> complaint list" where
  "validateWriteProfiles ps =
     (if ps = [] then [Missing ''profiles''] else profile_loop profile_write_Validate id [] 0 ps)"

subsection \<open>The checks of a camera\<close>

definition cam_Validate :: "uuid_parser \<Rightarrow> cam \<Rightarrow> complaint list" where
  "cam_Validate uuid_parse c =
     validateUUIDV7 uuid_parse ''cam_id'' (CamID c) @
     validateUUIDV7 uuid_parse ''tenant_id'' (TenantID c) @
     identity_Validate (Identity c) @
     site_Validate uuid_parse (Site c) @
     endpoint_Validate (Endpoint c) @
     validateProfiles uuid_parse (Profiles c) @
     capabilities_Validate (cam_Capabilities c) @
     health_Validate uuid_parse (Health c) @
     (case Credentials c of None \<Rightarrow> [] | Some x \<Rightarrow> credentials_Validate x) @
     complain (CreatedAt c = 0) (Missing ''created_at'') @
     complain (UpdatedAt c = 0) (Missing ''updated_at'') @
     complain (CreatedAt c \<noteq> 0 \<and> UpdatedAt c \<noteq> 0 \<and> UpdatedAt c < CreatedAt c) TimeOrder @
     complain (Version c < 0) (OutOfRange ''version'')"

definition write_Validate :: "uuid_parser \<Rightarrow> cam_write \<Rightarrow> complaint list" where
  "write_Validate uuid_parse w =
     identity_Validate (w_Identity w) @
     site_Validate uuid_parse (w_Site w) @
     endpoint_Validate (w_Endpoint w) @
     validateWriteProfiles (w_Profiles w) @
     capabilities_Validate (w_Capabilities w) @
     (case w_Credentials w of None \<Rightarrow> [] | Some x \<Rightarrow> credentials_write_Validate x)"

subsection \<open>What passes\<close>

lemma uuid_ok_iff: "validateUUIDV7 uuid_parse fld v = [] \<longleftrightarrow> uuid_parse v = Some (7, v)"
  by (auto simp: validateUUIDV7_def split: option.splits)

lemma trimmed_ok_iff: "validateTrimmedString fld v lo hi = [] \<longleftrightarrow>
  TrimSpace v = v \<and> lo \<le> runeCount v \<and> (0 < hi \<longrightarrow> runeCount v \<le> hi)"
  by (auto simp: validateTrimmedString_def)

lemma profile_loop_ok_iff:
  "profile_loop val flds seen n ps = [] \<longleftrightarrow>
     list_all (\<lambda>p. val p = []) ps \<and> distinct (map (pw_Name \<circ> flds) ps) \<and>
     set (map (pw_Name \<circ> flds) ps) \<inter> set seen = {} \<and> n + length (filter (IsDefault \<circ> flds) ps) = 1"
  by (induction ps arbitrary: seen n) auto

text \<open>The two checks of the profiles agree when the profiles are the written ones with valid ids.\<close>

lemma profiles_ok_iff:
  assumes "map profile ps = ws" "list_all (\<lambda>p. uuid_parse (ProfileID p) = Some (7, ProfileID p)) ps"
  shows "validateProfiles uuid_parse ps = [] \<longleftrightarrow> validateWriteProfiles ws = []"
proof -
  have "list_all (\<lambda>p. profile_Validate uuid_parse p = []) ps \<longleftrightarrow> list_all (\<lambda>p. profile_write_Validate p = []) ws"
    using assms by (auto simp: profile_Validate_def uuid_ok_iff list_all_iff)
  then show ?thesis
    using assms(1)
    by (auto simp: validateProfiles_def validateWriteProfiles_def profile_loop_ok_iff filter_map comp_def)
qed

text \<open>The stored credentials pass iff the written ones do and their scheme is not none: a reference to the
  secret is always made, and scheme none forbids it.\<close>

lemma credentials_ok_iff:
  assumes "ref \<noteq> ''''"
  shows "credentials_write_Validate x = [] \<and>
      credentials_Validate \<lparr>cc_Scheme = cw_Scheme x, cc_Username = cw_Username x, PasswordRef = ref, RotatedAt = t\<rparr> = []
    \<longleftrightarrow> credentials_write_Validate x = [] \<and> cw_Scheme x \<noteq> ''none''"
  using assms by (auto simp: credentials_Validate_def credentials_write_Validate_def)

end
