(* ===== verification/Camera_Service.thy ===== *)
theory Camera_Service
  imports Camera_Model "HOL-Library.AList"
begin

section \<open>The camera registry and the source adapters\<close>

text \<open>
  \<open>internal/camera/store.go\<close>, \<open>service.go\<close>, the handlers of \<open>internal/api/camera_registry.go\<close>, and the
  adapters \<open>adapter.go\<close>, \<open>manual_adapter.go\<close>, \<open>onvif_adapter.go\<close>. The ids are a list of results of
  \<open>uuid.NewV7\<close>, used in the order of the calls; the empty list is its error. The ONVIF client's answer is
  a parameter of the adapter.

  The main results: exactly which registrations succeed and what they store; and every stored camera
  is well formed.
\<close>

record cam_store =
  cameras :: "(string \<times> cam) list"
  creds :: "string \<rightharpoonup> cam_credentials_write"

definition NewCamStore :: cam_store where
  "NewCamStore = \<lparr>cameras = [], creds = Map.empty\<rparr>"

definition cam_Save :: "cam \<Rightarrow> cam_credentials_write option \<Rightarrow> cam_store \<Rightarrow> bool \<times> cam_store" where
  "cam_Save c cw s =
     (if map_of (cameras s) (CamID c) \<noteq> None then (False, s)
      else (True, s\<lparr>cameras := AList.update (CamID c) c (cameras s),
             creds := (case cw of None \<Rightarrow> creds s | Some x \<Rightarrow> (creds s)(CamID c \<mapsto> x))\<rparr>))"

definition store_Get :: "string \<Rightarrow> cam_store \<Rightarrow> cam option" where
  "store_Get i s = map_of (cameras s) i"

definition store_List :: "cam_store \<Rightarrow> cam list" where
  "store_List s = map snd (cameras s)"

definition store_Delete :: "string \<Rightarrow> cam_store \<Rightarrow> bool \<times> cam_store" where
  "store_Delete i s =
     (if map_of (cameras s) i = None then (False, s)
      else (True, s\<lparr>cameras := AList.delete i (cameras s), creds := map_delete i (creds s)\<rparr>))"

record cam_service =
  sv_store :: cam_store
  sv_nodeID :: string
  sv_tenantID :: string

definition NewCamService :: "cam_store \<Rightarrow> string \<Rightarrow> string \<Rightarrow> cam_service" where
  "NewCamService st node tenant = \<lparr>sv_store = st, sv_nodeID = node, sv_tenantID = tenant\<rparr>"

datatype cam_err = ErrCamNotFound | ErrCamValidation "complaint list" | ErrGenerateID | ErrSave

definition applyDefaults :: "cam_write \<Rightarrow> cam_write" where
  "applyDefaults b =
     (let e = w_Endpoint b in
      b\<lparr>w_Endpoint := e\<lparr>
        ConnectTimeoutMS := (if ConnectTimeoutMS e = 0 then DefaultConnectTimeoutMS else ConnectTimeoutMS e),
        ReadTimeoutMS := (if ReadTimeoutMS e = 0 then DefaultReadTimeoutMS else ReadTimeoutMS e),
        ep_Transport := (if ep_Transport e = '''' then ''auto'' else ep_Transport e)\<rparr>\<rparr>)"

text \<open>The profiles with fresh ids; \<open>None\<close> when an id could not be made.\<close>

fun make_profiles :: "cam_profile_write list \<Rightarrow> string list \<Rightarrow> (cam_profile list \<times> string list) option" where
  "make_profiles [] ids = Some ([], ids)"
| "make_profiles (p # ps) [] = None"
| "make_profiles (p # ps) (i # ids) =
     (case make_profiles ps ids of None \<Rightarrow> None
      | Some (qs, ids') \<Rightarrow> Some (\<lparr>ProfileID = i, profile = p\<rparr> # qs, ids'))"

definition new_cam :: "time \<Rightarrow> cam_service \<Rightarrow> cam_write \<Rightarrow> string \<Rightarrow> string \<Rightarrow> cam_profile list \<Rightarrow> string \<Rightarrow> cam" where
  "new_cam now s b camID siteID ps probeID =
     \<lparr>CamID = camID, TenantID = sv_tenantID s, Identity = w_Identity b,
      Site = \<lparr>SiteID = siteID, GroupID = GroupID (w_Site b), Labels = Labels (w_Site b)\<rparr>,
      Endpoint = w_Endpoint b,
      Credentials = (case w_Credentials b of None \<Rightarrow> None
        | Some x \<Rightarrow> Some \<lparr>cc_Scheme = cw_Scheme x, cc_Username = cw_Username x, PasswordRef = camID @ '':creds'', RotatedAt = None\<rparr>),
      Profiles = ps, cam_Capabilities = w_Capabilities b,
      Health = \<lparr>h_Status = ''unknown'', LastSeenAt = None, LastError = None,
        h_Probe = \<lparr>ProbeID = probeID, CadenceMS = DefaultProbeCadenceMS, LastRunAt = None, NextRunAt = None, OwnerNodeID = sv_nodeID s\<rparr>,
        ConsecutiveFailures = 0\<rparr>,
      CreatedAt = now, UpdatedAt = now, Version = 0\<rparr>"

definition CreateCam :: "uuid_parser \<Rightarrow> time \<Rightarrow> string list \<Rightarrow> cam_write \<Rightarrow> cam_service \<Rightarrow> (cam_err + cam) \<times> cam_service" where
  "CreateCam uuid_parse now ids body s =
     (let b = applyDefaults body; ws = write_Validate uuid_parse b in
      if ws \<noteq> [] then (Inl (ErrCamValidation ws), s)
      else case ids of
        [] \<Rightarrow> (Inl ErrGenerateID, s)
      | camID # ids1 \<Rightarrow>
          (case (if SiteID (w_Site b) = '''' then (case ids1 of [] \<Rightarrow> None | i # js \<Rightarrow> Some (i, js))
                 else Some (SiteID (w_Site b), ids1)) of
             None \<Rightarrow> (Inl ErrGenerateID, s)
           | Some (siteID, ids2) \<Rightarrow>
               (case make_profiles (w_Profiles b) ids2 of
                  None \<Rightarrow> (Inl ErrGenerateID, s)
                | Some (ps, ids3) \<Rightarrow>
                    (case ids3 of
                       [] \<Rightarrow> (Inl ErrGenerateID, s)
                     | probeID # _ \<Rightarrow>
                         (let c = new_cam now s b camID siteID ps probeID; cs = cam_Validate uuid_parse c in
                          if cs \<noteq> [] then (Inl (ErrCamValidation cs), s)
                          else let (ok, st) = cam_Save c (w_Credentials b) (sv_store s) in
                            if \<not> ok then (Inl ErrSave, s) else (Inr c, s\<lparr>sv_store := st\<rparr>))))))"

definition GetCam :: "string \<Rightarrow> cam_service \<Rightarrow> cam_err + cam" where
  "GetCam i s = (case store_Get i (sv_store s) of None \<Rightarrow> Inl ErrCamNotFound | Some c \<Rightarrow> Inr c)"

definition ListCams :: "cam_service \<Rightarrow> cam list" where
  "ListCams s = store_List (sv_store s)"

definition DeleteCam :: "string \<Rightarrow> cam_service \<Rightarrow> cam_err option \<times> cam_service" where
  "DeleteCam i s = (let (ok, st) = store_Delete i (sv_store s) in
     if \<not> ok then (Some ErrCamNotFound, s) else (None, s\<lparr>sv_store := st\<rparr>))"

subsection \<open>Handlers\<close>

definition createCamera :: "uuid_parser \<Rightarrow> time \<Rightarrow> string list \<Rightarrow> cam_write option \<Rightarrow> cam_service \<Rightarrow> int \<times> cam_service" where
  "createCamera uuid_parse now ids body s =
     (case body of
        None \<Rightarrow> (400, s)
      | Some b \<Rightarrow> (case CreateCam uuid_parse now ids b s of
            (Inl (ErrCamValidation _), s') \<Rightarrow> (400, s')
          | (Inl _, s') \<Rightarrow> (500, s')
          | (Inr _, s') \<Rightarrow> (201, s')))"

definition getCamera :: "string \<Rightarrow> cam_service \<Rightarrow> int" where
  "getCamera i s = (case GetCam i s of Inl ErrCamNotFound \<Rightarrow> 404 | Inl _ \<Rightarrow> 500 | Inr _ \<Rightarrow> 200)"

definition deleteCamera :: "string \<Rightarrow> cam_service \<Rightarrow> int \<times> cam_service" where
  "deleteCamera i s = (case DeleteCam i s of
       (Some ErrCamNotFound, s') \<Rightarrow> (404, s') | (Some _, s') \<Rightarrow> (500, s') | (None, s') \<Rightarrow> (204, s'))"

subsection \<open>Adapters\<close>

record device_capabilities =
  CanPTZ :: bool
  CanSnapshot :: bool

record camera_stream =
  CameraID :: string
  Streams :: "string \<rightharpoonup> string"
  cs_Name :: string
  Source :: string
  cs_Capabilities :: device_capabilities

record resolve_params =
  rp_Endpoint :: string
  rp_Username :: string
  rp_Password :: string
  rp_CameraID :: string
  ManualMain :: string
  ManualSub :: string

definition MainStream :: "camera_stream \<Rightarrow> string" where
  "MainStream c = (case Streams c ''main'' of None \<Rightarrow> '''' | Some u \<Rightarrow> u)"

definition SubStream :: "camera_stream \<Rightarrow> string" where
  "SubStream c = (case Streams c ''sub'' of None \<Rightarrow> '''' | Some u \<Rightarrow> u)"

datatype adapter_err = MissingMain | MissingCameraID | MissingEndpoint | ResolveFailed | NoMainStream

definition qualities :: "string \<Rightarrow> string \<Rightarrow> (string \<rightharpoonup> string)" where
  "qualities main_url sub_url = (if sub_url \<noteq> '''' then [''main'' \<mapsto> main_url, ''sub'' \<mapsto> sub_url] else [''main'' \<mapsto> main_url])"

definition manual_Resolve :: "resolve_params \<Rightarrow> adapter_err + camera_stream" where
  "manual_Resolve p =
     (if ManualMain p = '''' then Inl MissingMain
      else if rp_CameraID p = '''' then Inl MissingCameraID
      else Inr \<lparr>CameraID = rp_CameraID p, Streams = qualities (ManualMain p) (ManualSub p), cs_Name = rp_CameraID p,
        Source = ''manual'', cs_Capabilities = \<lparr>CanPTZ = False, CanSnapshot = False\<rparr>\<rparr>)"

text \<open>\<open>sanitizeID\<close>: one hyphen for each rune that is not an ASCII letter or digit.\<close>

function hyphenate :: "string \<Rightarrow> string" where
  "hyphenate s = (if s = '''' then '''' else
     (if letter (hd s) \<or> digit (hd s) then hd s # hyphenate (tl s)
      else CHR ''-'' # hyphenate (drop (rune_width (map of_char s)) s)))"
  by pat_completeness auto
termination
proof (relation "measure length")
  fix s :: string assume "s \<noteq> ''''"
  then show "(drop (rune_width (map of_char s)) s, s) \<in> measure length"
    using rune_width_pos [of "map of_char s"] by simp
qed auto

declare hyphenate.simps [simp del]

definition sanitizeID :: "string \<Rightarrow> string" where
  "sanitizeID raw =
     (let r = TrimPrefix (TrimPrefix raw ''http://'') ''https://'' in
      hyphenate (case cut (CHR ''/'') r of None \<Rightarrow> r | Some (a, _) \<Rightarrow> a))"

text \<open>What \<open>onvif.GetStreams\<close> returns: main and sub stream and the two capabilities.\<close>

record stream_info =
  si_Main :: string
  si_Sub :: string
  si_PTZ :: bool
  si_Snapshot :: bool

definition onvif_Resolve :: "(string \<Rightarrow> string \<Rightarrow> string \<Rightarrow> stream_info option) \<Rightarrow> resolve_params \<Rightarrow> adapter_err + camera_stream" where
  "onvif_Resolve getStreams p =
     (if rp_Endpoint p = '''' then Inl MissingEndpoint
      else case getStreams (rp_Endpoint p) (rp_Username p) (rp_Password p) of
        None \<Rightarrow> Inl ResolveFailed
      | Some info \<Rightarrow>
          if si_Main info = '''' then Inl NoMainStream
          else let i = (if rp_CameraID p = '''' then ''onvif-'' @ sanitizeID (rp_Endpoint p) else rp_CameraID p) in
            Inr \<lparr>CameraID = i, Streams = qualities (si_Main info) (si_Sub info), cs_Name = i, Source = ''onvif'',
              cs_Capabilities = \<lparr>CanPTZ = si_PTZ info, CanSnapshot = si_Snapshot info\<rparr>\<rparr>)"

subsection \<open>Registration\<close>

lemma make_profiles_ok:
  "make_profiles ps ids = Some (qs, ids') \<Longrightarrow>
   map profile qs = ps \<and> ids = map ProfileID qs @ ids'"
  by (induction ps ids arbitrary: qs rule: make_profiles.induct) (auto split: option.splits)

lemma make_profiles_enough:
  "length ps \<le> length ids \<Longrightarrow> \<exists>qs. make_profiles ps ids = Some (qs, drop (length ps) ids)"
proof (induction ps arbitrary: ids)
  case (Cons p ps)
  then obtain i ids1 where ids: "ids = i # ids1" by (cases ids) auto
  with Cons.prems obtain qs where "make_profiles ps ids1 = Some (qs, drop (length ps) ids1)"
    using Cons.IH [of ids1] by auto
  with ids show ?case by simp
qed simp

lemma applyDefaults_simps [simp]:
  "w_Identity (applyDefaults b) = w_Identity b" "w_Site (applyDefaults b) = w_Site b"
  "w_Credentials (applyDefaults b) = w_Credentials b" "w_Profiles (applyDefaults b) = w_Profiles b"
  "w_Capabilities (applyDefaults b) = w_Capabilities b"
  by (simp_all add: applyDefaults_def Let_def)

text \<open>The environment of a registration: the tenant is a UUID v7, the node id is not empty and trimmed, the clock
  is set, the fresh ids are UUIDs v7, and the UUID parser refuses the empty text.\<close>

definition create_env :: "uuid_parser \<Rightarrow> time \<Rightarrow> string list \<Rightarrow> cam_service \<Rightarrow> bool" where
  "create_env uuid_parse now ids s \<longleftrightarrow>
     uuid_parse '''' = None \<and> uuid_parse (sv_tenantID s) = Some (7, sv_tenantID s) \<and>
     sv_nodeID s \<noteq> '''' \<and> TrimSpace (sv_nodeID s) = sv_nodeID s \<and> now \<noteq> 0 \<and>
     list_all (\<lambda>i. uuid_parse i = Some (7, i)) ids"

lemma new_cam_Validate:
  assumes "create_env uuid_parse now (camID # map ProfileID ps @ [probeID]) s"
    and "write_Validate uuid_parse b = []" "map profile ps = w_Profiles b"
  shows "cam_Validate uuid_parse (new_cam now s b camID (SiteID (w_Site b)) ps probeID) = [] \<longleftrightarrow>
    (\<forall>x. w_Credentials b = Some x \<longrightarrow> cw_Scheme x \<noteq> ''none'')"
proof -
  let ?c = "new_cam now s b camID (SiteID (w_Site b)) ps probeID"
  have env: "uuid_parse camID = Some (7, camID)" "uuid_parse probeID = Some (7, probeID)"
      "uuid_parse (sv_tenantID s) = Some (7, sv_tenantID s)" "sv_nodeID s \<noteq> ''''" "TrimSpace (sv_nodeID s) = sv_nodeID s"
      "now \<noteq> 0" "list_all (\<lambda>p. uuid_parse (ProfileID p) = Some (7, ProfileID p)) ps"
    using assms(1) by (auto simp: create_env_def list_all_iff)
  have w: "identity_Validate (w_Identity b) = []" "site_Validate uuid_parse (w_Site b) = []"
      "endpoint_Validate (w_Endpoint b) = []" "validateWriteProfiles (w_Profiles b) = []"
      "capabilities_Validate (w_Capabilities b) = []"
      "\<And>x. w_Credentials b = Some x \<Longrightarrow> credentials_write_Validate x = []"
    using assms(2) by (auto simp: write_Validate_def)
  have "Site ?c = w_Site b" by (cases "w_Site b") (simp add: new_cam_def)
  with w(2) have "site_Validate uuid_parse (Site ?c) = []" by simp
  moreover have "validateProfiles uuid_parse (Profiles ?c) = []"
    using w(4) profiles_ok_iff [OF assms(3) env(7)] by (simp add: new_cam_def)
  moreover have "0 < runeCount (sv_nodeID s)" using env(4) runeCount_zero_iff [of "sv_nodeID s"] by simp
  then have "health_Validate uuid_parse (Health ?c) = []"
    using env(2,5) by (simp add: health_Validate_def probe_Validate_def new_cam_def status_Valid_def uuid_ok_iff trimmed_ok_iff)
  moreover have "(case Credentials ?c of None \<Rightarrow> [] | Some x \<Rightarrow> credentials_Validate x) = [] \<longleftrightarrow>
      (\<forall>x. w_Credentials b = Some x \<longrightarrow> cw_Scheme x \<noteq> ''none'')"
  proof (cases "w_Credentials b")
    case (Some x)
    then show ?thesis using credentials_ok_iff [of "camID @ '':creds''" x None] w(6) by (simp add: new_cam_def)
  qed (simp add: new_cam_def)
  ultimately show ?thesis
    using w env by (simp add: cam_Validate_def uuid_ok_iff) (simp add: new_cam_def uuid_ok_iff)
qed

text \<open>Property C9: which cameras can be registered. With working id generation, tenant, node and clock, and an unused
  fresh id, a registration succeeds exactly when the request with its defaults passes the write checks
  and its credentials, if any, do not have the scheme none; then the camera is stored well formed under
  the first id, with the requested profiles, its password kept apart. Otherwise it is refused with
  complaints and nothing changes. In particular the scheme none, which the write checks accept, can
  never be registered, and a request without a site id is refused although the code means to make one.\<close>

theorem camera_create_outcome:
  assumes "create_env uuid_parse now ids s" "length (w_Profiles body) + 2 \<le> length ids"
    and "store_Get (hd ids) (sv_store s) = None"
  shows "if write_Validate uuid_parse (applyDefaults body) = [] \<and> (\<forall>x. w_Credentials body = Some x \<longrightarrow> cw_Scheme x \<noteq> ''none'')
    then SiteID (w_Site body) \<noteq> '''' \<and> (\<exists>c s'. CreateCam uuid_parse now ids body s = (Inr c, s') \<and> CamID c = hd ids \<and>
      cam_Validate uuid_parse c = [] \<and> map profile (Profiles c) = w_Profiles body \<and> GetCam (hd ids) s' = Inr c \<and>
      (\<forall>x. w_Credentials body = Some x \<longrightarrow> creds (sv_store s') (hd ids) = Some x))
    else \<exists>cs. cs \<noteq> [] \<and> CreateCam uuid_parse now ids body s = (Inl (ErrCamValidation cs), s)"
proof (cases "write_Validate uuid_parse (applyDefaults body) = []")
  case False
  then show ?thesis by (auto simp: CreateCam_def)
next
  case True
  let ?b = "applyDefaults body"
  have site: "SiteID (w_Site body) \<noteq> ''''"
    using True assms(1) by (auto simp: write_Validate_def site_Validate_def uuid_ok_iff create_env_def)
  obtain camID ids1 where ids: "ids = camID # ids1" using assms(2) by (cases ids) auto
  obtain ps where ps: "make_profiles (w_Profiles body) ids1 = Some (ps, drop (length (w_Profiles body)) ids1)"
    using make_profiles_enough [of "w_Profiles body" ids1] assms(2) ids by auto
  obtain probeID rest where rest: "drop (length (w_Profiles body)) ids1 = probeID # rest"
    using assms(2) ids by (cases "drop (length (w_Profiles body)) ids1") auto
  note m = make_profiles_ok [OF ps]
  have env: "create_env uuid_parse now (camID # map ProfileID ps @ [probeID]) s"
    using assms(1) m rest ids by (simp add: create_env_def)
  let ?c = "new_cam now s ?b camID (SiteID (w_Site ?b)) ps probeID"
  note v = new_cam_Validate [OF env True, simplified, OF conjunct1 [OF m]]
  have run: "CreateCam uuid_parse now ids body s =
      (let cs = cam_Validate uuid_parse ?c in
       if cs \<noteq> [] then (Inl (ErrCamValidation cs), s)
       else (Inr ?c, s\<lparr>sv_store := snd (cam_Save ?c (w_Credentials body) (sv_store s))\<rparr>))"
    using True site ids ps rest assms(3) by (simp add: CreateCam_def Let_def cam_Save_def store_Get_def new_cam_def)
  show ?thesis
  proof (cases "\<forall>x. w_Credentials body = Some x \<longrightarrow> cw_Scheme x \<noteq> ''none''")
    case False
    then show ?thesis using run v True by (auto simp: Let_def)
  next
    case okc: True
    then have "cam_Validate uuid_parse ?c = []" using v by simp
    moreover from this have "CreateCam uuid_parse now ids body s =
        (Inr ?c, s\<lparr>sv_store := snd (cam_Save ?c (w_Credentials body) (sv_store s))\<rparr>)" using run by simp
    moreover have "CamID ?c = camID" "Profiles ?c = ps" by (simp_all add: new_cam_def)
    moreover have "map_of (cameras (sv_store s)) camID = None" using assms(3) ids by (simp add: store_Get_def)
    ultimately show ?thesis
      using True okc site m ids
      by (auto simp: GetCam_def store_Get_def cam_Save_def update_conv' split: option.splits)
  qed
qed

subsection \<open>The stored cameras\<close>

datatype cam_op = OpCreate time "string list" cam_write | OpDelete string

fun cam_step :: "uuid_parser \<Rightarrow> cam_op \<Rightarrow> cam_service \<Rightarrow> cam_service" where
  "cam_step uuid_parse (OpCreate now ids b) s = snd (CreateCam uuid_parse now ids b s)"
| "cam_step uuid_parse (OpDelete i) s = snd (DeleteCam i s)"

definition cam_store_ok :: "uuid_parser \<Rightarrow> cam_store \<Rightarrow> bool" where
  "cam_store_ok uuid_parse st \<longleftrightarrow> (\<forall>i c. map_of (cameras st) i = Some c \<longrightarrow>
     CamID c = i \<and> cam_Validate uuid_parse c = [] \<and> (creds st i = None \<longleftrightarrow> Credentials c = None)) \<and>
     (\<forall>i. map_of (cameras st) i = None \<longrightarrow> creds st i = None)"

lemma cam_store_ok_Save:
  assumes "cam_store_ok uuid_parse st" "cam_Validate uuid_parse c = []" "cw = None \<longleftrightarrow> Credentials c = None"
  shows "cam_store_ok uuid_parse (snd (cam_Save c cw st))"
proof (cases "map_of (cameras st) (CamID c)")
  case None
  with assms show ?thesis
    unfolding cam_store_ok_def by (auto simp: cam_Save_def update_conv' split: option.splits)
qed (use assms in \<open>simp add: cam_Save_def\<close>)

lemma cam_store_ok_Delete: "cam_store_ok uuid_parse st \<Longrightarrow> cam_store_ok uuid_parse (snd (store_Delete i st))"
  unfolding cam_store_ok_def by (auto simp: store_Delete_def delete_conv' map_delete_apply)

text \<open>A registration leaves the service as it is, or saves a camera it has validated.\<close>

lemma CreateCam_cases:
  "(\<exists>e. CreateCam uuid_parse now ids b s = (Inl e, s)) \<or>
   (\<exists>i j ps k. let c = new_cam now s (applyDefaults b) i j ps k in
      cam_Validate uuid_parse c = [] \<and>
      CreateCam uuid_parse now ids b s = (Inr c, s\<lparr>sv_store := snd (cam_Save c (w_Credentials b) (sv_store s))\<rparr>))"
proof -
  let ?b = "applyDefaults b"
  let ?site = "\<lambda>ids1. if SiteID (w_Site ?b) = '''' then (case ids1 of [] \<Rightarrow> None | i # js \<Rightarrow> Some (i, js))
      else Some (SiteID (w_Site ?b), ids1)"
  show ?thesis
  proof (cases "write_Validate uuid_parse ?b = [] \<and> ids \<noteq> []")
    case False
    then have "\<exists>e. CreateCam uuid_parse now ids b s = (Inl e, s)" by (auto simp: CreateCam_def Let_def)
    then show ?thesis ..
  next
    case True
    then obtain i more where ids: "ids = i # more" by (cases ids) auto
    show ?thesis
    proof (cases "?site more")
      case None
      then show ?thesis using True ids by (simp add: CreateCam_def Let_def del: applyDefaults_simps)
    next
      case (Some jjs)
      then obtain j js where site: "?site more = Some (j, js)" by (cases jjs) simp
      show ?thesis
      proof (cases "\<exists>ps k ks. make_profiles (w_Profiles ?b) js = Some (ps, k # ks)")
        case False
        then have "make_profiles (w_Profiles ?b) js = None \<or> (\<exists>ps. make_profiles (w_Profiles ?b) js = Some (ps, []))"
          by (metis list.exhaust option.exhaust surj_pair)
        then show ?thesis using True ids site by (elim disjE exE) (simp_all add: CreateCam_def Let_def del: applyDefaults_simps)
      next
        case full: True
        then obtain ps k ks where ps: "make_profiles (w_Profiles ?b) js = Some (ps, k # ks)" by blast
        let ?c = "new_cam now s ?b i j ps k"
        have "CreateCam uuid_parse now ids b s =
            (if cam_Validate uuid_parse ?c \<noteq> [] then (Inl (ErrCamValidation (cam_Validate uuid_parse ?c)), s)
             else let (ok, st) = cam_Save ?c (w_Credentials ?b) (sv_store s) in
               if \<not> ok then (Inl ErrSave, s) else (Inr ?c, s\<lparr>sv_store := st\<rparr>))"
          using True ids site ps by (simp add: CreateCam_def Let_def del: applyDefaults_simps)
        then have "CreateCam uuid_parse now ids b s =
            (if cam_Validate uuid_parse ?c \<noteq> [] then (Inl (ErrCamValidation (cam_Validate uuid_parse ?c)), s)
             else if \<not> fst (cam_Save ?c (w_Credentials b) (sv_store s)) then (Inl ErrSave, s)
             else (Inr ?c, s\<lparr>sv_store := snd (cam_Save ?c (w_Credentials b) (sv_store s))\<rparr>))"
          by (simp add: case_prod_beta Let_def)
        then show ?thesis unfolding Let_def by metis
      qed
    qed
  qed
qed

lemma CreateCam_store:
  "sv_store (snd (CreateCam uuid_parse now ids b s)) = sv_store s \<or>
   (\<exists>c cw. cam_Validate uuid_parse c = [] \<and> (cw = None \<longleftrightarrow> Credentials c = None) \<and>
      sv_store (snd (CreateCam uuid_parse now ids b s)) = snd (cam_Save c cw (sv_store s)))"
  using CreateCam_cases [of uuid_parse now ids b s]
proof (elim disjE exE)
  fix i j ps k
  let ?c = "new_cam now s (applyDefaults b) i j ps k"
  assume "let c = ?c in cam_Validate uuid_parse c = [] \<and>
      CreateCam uuid_parse now ids b s = (Inr c, s\<lparr>sv_store := snd (cam_Save c (w_Credentials b) (sv_store s))\<rparr>)"
  moreover have "w_Credentials b = None \<longleftrightarrow> Credentials ?c = None" by (simp add: new_cam_def split: option.splits)
  ultimately show ?thesis unfolding Let_def by (intro disjI2 exI [of _ ?c] exI [of _ "w_Credentials b"]) simp
qed simp

text \<open>Property C10: well-formedness of the registry. After any sequence of registrations and deletions, with whatever
  requests, ids and clock, every stored camera passes the full validation, is stored under its own id,
  has credentials kept exactly if it refers to some, and no credentials outlive their camera.\<close>

theorem stored_cameras_valid:
  "cam_store_ok uuid_parse (sv_store (fold (cam_step uuid_parse) ops (NewCamService NewCamStore node tenant)))"
proof (induction ops rule: rev_induct)
  case Nil
  show ?case by (simp add: cam_store_ok_def NewCamService_def NewCamStore_def)
next
  case (snoc p ops)
  let ?s = "fold (cam_step uuid_parse) ops (NewCamService NewCamStore node tenant)"
  have "cam_store_ok uuid_parse (sv_store (cam_step uuid_parse p ?s))"
  proof (cases p)
    case (OpCreate now ids b)
    then show ?thesis
      using CreateCam_store [of uuid_parse now ids b ?s] snoc.IH cam_store_ok_Save by auto
  next
    case (OpDelete i)
    have "sv_store (snd (DeleteCam i ?s)) = snd (store_Delete i (sv_store ?s))"
      by (auto simp: DeleteCam_def store_Delete_def)
    then show ?thesis using snoc.IH OpDelete cam_store_ok_Delete by simp
  qed
  then show ?case by simp
qed

subsection \<open>A sample registration\<close>

definition sample_uuid_parse :: uuid_parser where
  "sample_uuid_parse v = (if v \<in> set [''t'', ''s'', ''a'', ''b'', ''c''] then Some (7, v) else None)"

definition sample_cam_service :: cam_service where
  "sample_cam_service = NewCamService NewCamStore ''node-01'' ''t''"

definition sample_write :: "string \<Rightarrow> string \<Rightarrow> string \<Rightarrow> cam_write" where
  "sample_write sch user pass =
     \<lparr>w_Identity = \<lparr>i_Name = ''A'', i_Description = '''', i_Vendor = '''', i_Model = '''', i_SerialNumber = ''''\<rparr>,
      w_Site = \<lparr>SiteID = ''s'', GroupID = '''', Labels = []\<rparr>,
      w_Endpoint = \<lparr>ep_Protocol = ''rtsp'', ep_URL = ''rtsp://c/x'', ep_Transport = '''', ConnectTimeoutMS = 0, ReadTimeoutMS = 0\<rparr>,
      w_Credentials = Some \<lparr>cw_Scheme = sch, cw_Username = user, cw_Password = pass\<rparr>,
      w_Profiles = [\<lparr>pw_Name = ''m'', StreamPath = ''/x'', CodecHint = ''h264'', ResolutionHint = None, BitrateKbpsHint = None,
        FramerateHint = Some 25, IsDefault = True\<rparr>],
      w_Capabilities = \<lparr>SupportsAudio = False, SupportsPTZ = False, SupportsONVIF = False, DiscoveredCodecs = [], cap_Notes = ''''\<rparr>\<rparr>"

lemma sample_create_env: "create_env sample_uuid_parse 7 [''a'', ''b'', ''c''] sample_cam_service"
proof -
  have "TrimSpace ''node-01'' = ''node-01''" by code_simp
  then show ?thesis by (simp add: create_env_def sample_uuid_parse_def sample_cam_service_def NewCamService_def)
qed

lemma sample_write_valid:
  "write_Validate sample_uuid_parse (applyDefaults (sample_write ''digest'' ''v'' ''p'')) = []"
  "write_Validate sample_uuid_parse (applyDefaults (sample_write ''none'' '''' '''')) = []"
  by (simp_all add: write_Validate_def applyDefaults_def Let_def sample_write_def identity_Validate_def
      trimmed_ok_iff sample_texts site_Validate_def uuid_ok_iff sample_uuid_parse_def endpoint_Validate_def
      protocol_Valid_def transport_Valid_def validateWriteProfiles_def profile_write_Validate_def codec_Valid_def
      capabilities_Validate_def credentials_write_Validate_def scheme_Valid_def)

theorem camera_create_outcome_witness:
  "(\<exists>c s'. CreateCam sample_uuid_parse 7 [''a'', ''b'', ''c''] (sample_write ''digest'' ''v'' ''p'') sample_cam_service = (Inr c, s')
      \<and> CamID c = ''a'')
   \<and> (\<exists>cs. cs \<noteq> [] \<and> CreateCam sample_uuid_parse 7 [''a'', ''b'', ''c''] (sample_write ''none'' '''' '''') sample_cam_service
      = (Inl (ErrCamValidation cs), sample_cam_service))"
proof -
  have new: "store_Get (hd [''a'', ''b'', ''c'']) (sv_store sample_cam_service) = None"
    by (simp add: store_Get_def sample_cam_service_def NewCamService_def NewCamStore_def)
  have len: "length (w_Profiles (sample_write x y z)) + 2 \<le> length [''a'', ''b'', ''c'']" for x y z
    by (simp add: sample_write_def)
  have cr: "w_Credentials (sample_write x y z) = Some \<lparr>cw_Scheme = x, cw_Username = y, cw_Password = z\<rparr>" for x y z
    by (simp add: sample_write_def)
  note out = camera_create_outcome [OF sample_create_env len new]
  from out [of "''digest''" "''v''" "''p''"] out [of "''none''" "''''" "''''"] show ?thesis
    by (simp add: sample_write_valid cr) blast
qed

end
