(* ===== verification/Trace_Context.thy ===== *)
theory Trace_Context
  imports Go_Strings
begin

section \<open>Trace contexts\<close>

text \<open>
  \<open>internal/tracectx/tracectx.go\<close>. A call of \<open>fillRandom\<close> is given by its environment: the result of
  \<open>rand.Read\<close> for each buffer length (\<open>None\<close> is its error) and the clock's text that the fallback uses. A header or query
  parameter that is absent is the empty text. Storing an envelope in a Go context is left out: it is a
  lookup of the last value stored.

  The main results: a trace id survives any number of hops between servers, each span's parent being the
  span before; only well-formed values are accepted; and the log fields are exactly the known ids.
\<close>

record envelope =
  TraceID :: string
  RequestID :: string
  e_CamID :: string
  e_StreamID :: string
  ViewerSessionID :: string
  e_NodeID :: string
  Traceparent :: string
  SpanID :: string
  ParentSpan :: string

definition no_envelope :: envelope where
  "no_envelope = \<lparr>TraceID = '''', RequestID = '''', e_CamID = '''', e_StreamID = '''', ViewerSessionID = '''', e_NodeID = '''',
     Traceparent = '''', SpanID = '''', ParentSpan = ''''\<rparr>"

record random_source =
  rand_read :: "nat \<Rightarrow> bytes option"
  clock_text :: string

definition allZeroBytes :: "bytes \<Rightarrow> bool" where
  "allZeroBytes bs \<longleftrightarrow> list_all (\<lambda>b. b = 0) bs"

definition allZeroHex :: "string \<Rightarrow> bool" where
  "allZeroHex s \<longleftrightarrow> list_all (\<lambda>c. c = CHR ''0'') s"

definition fallback_bytes :: "string \<Rightarrow> nat \<Rightarrow> bytes" where
  "fallback_bytes t n = map (\<lambda>i. byte_of_nat (of_char (t ! (i mod length t)))) [0..<n]"

definition fillRandom :: "random_source \<Rightarrow> nat \<Rightarrow> bytes" where
  "fillRandom r n =
     (case rand_read r n of
        Some bs \<Rightarrow> if \<not> allZeroBytes bs then bs
          else let f = fallback_bytes (clock_text r) n in if allZeroBytes f then f[n - 1 := 1] else f
      | None \<Rightarrow> let f = fallback_bytes (clock_text r) n in if allZeroBytes f then f[n - 1 := 1] else f)"

definition format_traceparent :: "string \<Rightarrow> string \<Rightarrow> string" where
  "format_traceparent trace_id span_id = ''00-'' @ trace_id @ ''-'' @ span_id @ ''-01''"

definition New :: "random_source \<Rightarrow> random_source \<Rightarrow> envelope" where
  "New r1 r2 =
     (let t = hex_encode (fillRandom r1 16); s = hex_encode (fillRandom r2 8) in
      no_envelope\<lparr>Traceparent := format_traceparent t s, TraceID := t, SpanID := s\<rparr>)"

text \<open>\<open>Child\<close> draws once, for the span, or twice when there is no trace yet.\<close>

definition Child :: "random_source \<Rightarrow> random_source \<Rightarrow> envelope \<Rightarrow> envelope" where
  "Child r1 r2 parent =
     (if TraceID parent = '''' then
        (New r1 r2)\<lparr>RequestID := RequestID parent, e_CamID := e_CamID parent, e_StreamID := e_StreamID parent,
          ViewerSessionID := ViewerSessionID parent, e_NodeID := e_NodeID parent\<rparr>
      else let s = hex_encode (fillRandom r1 8) in
        parent\<lparr>Traceparent := format_traceparent (TraceID parent) s, SpanID := s, ParentSpan := SpanID parent\<rparr>)"

definition Parse :: "string \<Rightarrow> envelope option" where
  "Parse raw0 =
     (let raw = ToLower (TrimSpace raw0); parts = Split (CHR ''-'') raw in
      if length parts \<noteq> 4 \<or> length (parts ! 0) \<noteq> 2 \<or> length (parts ! 1) \<noteq> 32 \<or> length (parts ! 2) \<noteq> 16 \<or> length (parts ! 3) \<noteq> 2
        then None
      else if \<not> isHex (parts ! 0) \<or> \<not> isHex (parts ! 1) \<or> \<not> isHex (parts ! 2) \<or> \<not> isHex (parts ! 3) then None
      else if allZeroHex (parts ! 1) \<or> allZeroHex (parts ! 2) then None
      else Some (no_envelope\<lparr>Traceparent := raw, TraceID := parts ! 1, SpanID := parts ! 2\<rparr>))"

fun first_parsed :: "string list \<Rightarrow> envelope option" where
  "first_parsed [] = None"
| "first_parsed (raw # raws) = (case Parse raw of Some tc \<Rightarrow> Some tc | None \<Rightarrow> first_parsed raws)"

record trace_request =
  hdr_traceparent :: string
  query_traceparent :: string
  hdr_request_id :: string

definition ExtractOrNew :: "random_source \<Rightarrow> random_source \<Rightarrow> trace_request \<Rightarrow> envelope" where
  "ExtractOrNew r1 r2 r =
     (case first_parsed [TrimSpace (hdr_traceparent r), TrimSpace (query_traceparent r)] of
        Some tc \<Rightarrow> (Child r1 r2 tc)\<lparr>RequestID := TrimSpace (hdr_request_id r)\<rparr>
      | None \<Rightarrow> (New r1 r2)\<lparr>RequestID := TrimSpace (hdr_request_id r)\<rparr>)"

text \<open>The log fields of an envelope.\<close>

fun add_fields :: "(string \<times> string) list \<Rightarrow> (string \<rightharpoonup> string) \<Rightarrow> (string \<rightharpoonup> string)" where
  "add_fields [] m = m"
| "add_fields ((k, v) # kvs) m = add_fields kvs (if v \<noteq> '''' then m(k \<mapsto> v) else m)"

definition business_fields :: "envelope \<Rightarrow> (string \<times> string) list" where
  "business_fields e = [(''request_id'', RequestID e), (''cam_id'', e_CamID e), (''stream_id'', e_StreamID e),
     (''viewer_session_id'', ViewerSessionID e), (''node_id'', e_NodeID e)]"

definition FieldsFromEnvelope :: "envelope \<Rightarrow> (string \<rightharpoonup> string)" where
  "FieldsFromEnvelope e =
     add_fields (business_fields e)
       (if Traceparent e \<noteq> '''' \<and> TraceID e \<noteq> '''' \<and> SpanID e \<noteq> '''' then
          (let m = [''trace_id'' \<mapsto> TraceID e, ''traceparent'' \<mapsto> Traceparent e, ''span_id'' \<mapsto> SpanID e] in
           if ParentSpan e \<noteq> '''' then m(''parent_span_id'' \<mapsto> ParentSpan e) else m)
        else Map.empty)"

text \<open>\<open>traceMiddleware\<close> answers with the traceparent of the context it hands to the handler.\<close>

definition traceMiddleware :: "random_source \<Rightarrow> random_source \<Rightarrow> trace_request \<Rightarrow> envelope \<times> string" where
  "traceMiddleware r1 r2 r = (let tc = ExtractOrNew r1 r2 r in (tc, Traceparent tc))"

subsection \<open>Hexadecimal ids\<close>

definition lower_hex :: "char \<Rightarrow> bool" where
  "lower_hex c \<longleftrightarrow> (let n = of_char c :: nat in cont 48 57 n \<or> cont 97 102 n)"

lemma lower_hex_nibble: "d < 16 \<Longrightarrow> lower_hex (nibble_char d)"
  by (simp add: lower_hex_def nibble_char_def Let_def)

lemma lower_hex_encode: "list_all lower_hex (hex_encode bs)"
proof -
  have u: "unat b < 256" for b :: byte using unsigned_less [of b] by simp
  show ?thesis
  proof (induction bs)
    case (Cons b bs)
    have "unat b div 16 < 16" "unat b mod 16 < 16" using u [of b] by simp_all
    with Cons show ?case by (simp add: hex_encode_def lower_hex_nibble)
  qed (simp add: hex_encode_def)
qed

lemma lower_hex_plain: "lower_hex c \<Longrightarrow> plain c"
  by (auto simp: lower_hex_def plain_def Let_def)

lemma lower_hex_dash: "\<not> lower_hex (CHR ''-'')"
  by (simp add: lower_hex_def)

lemma nibble_char_zero:
  assumes "d < 16"
  shows "nibble_char d = CHR ''0'' \<longleftrightarrow> d = 0"
proof
  assume "nibble_char d = CHR ''0''"
  then have "of_char (nibble_char d) = (48 :: nat)" by simp
  then show "d = 0" using assms by (simp add: nibble_char_def split: if_splits)
next
  show "d = 0 \<Longrightarrow> nibble_char d = CHR ''0''" by (simp add: nibble_char_def char_of_def bit_0)
qed

lemma hex_encode_zero: "allZeroHex (hex_encode bs) \<longleftrightarrow> allZeroBytes bs"
proof (induction bs)
  case (Cons b bs)
  have "unat b < 256" using unsigned_less [of b] by simp
  then have "unat b div 16 < 16" "unat b mod 16 < 16" by simp_all
  moreover have "unat b div 16 = 0 \<and> unat b mod 16 = 0 \<longleftrightarrow> b = 0"
    by (metis div_mult_mod_eq mult_zero_left add_0 div_0 mod_0 unat_eq_zero)
  ultimately show ?case
    using Cons by (auto simp: hex_encode_def allZeroHex_def allZeroBytes_def nibble_char_zero)
qed (simp add: hex_encode_def allZeroHex_def allZeroBytes_def)

text \<open>Plain text without capitals is not changed by \<open>ToLower\<close>.\<close>

lemma ToLower_plain: "list_all (\<lambda>c. plain c \<and> \<not> cont 65 90 (of_char c :: nat)) s \<Longrightarrow> ToLower s = s"
  by (induction s) (auto simp: plain_def Let_def)

subsection \<open>Well-formed ids\<close>

definition hex_id :: "nat \<Rightarrow> string \<Rightarrow> bool" where
  "hex_id n s \<longleftrightarrow> length s = n \<and> list_all lower_hex s \<and> \<not> allZeroHex s"

text \<open>What is relied on of the standard library: \<open>rand.Read\<close> fills the buffer, and a formatted time is not
  empty.\<close>

definition random_ok :: "random_source \<Rightarrow> bool" where
  "random_ok r \<longleftrightarrow> clock_text r \<noteq> '''' \<and> (\<forall>n bs. rand_read r n = Some bs \<longrightarrow> length bs = n)"

lemma fallback_ok:
  assumes "0 < n" "f = fallback_bytes t n"
  shows "length (if allZeroBytes f then f[n - 1 := 1] else f) = n \<and>
    \<not> allZeroBytes (if allZeroBytes f then f[n - 1 := 1] else f)"
proof -
  have len: "length f = n" by (simp add: assms(2) fallback_bytes_def)
  have "\<not> allZeroBytes (f[n - 1 := 1])"
  proof
    assume "allZeroBytes (f[n - 1 := 1])"
    moreover have "f[n - 1 := 1] ! (n - 1) \<in> set (f[n - 1 := 1])" using len assms(1) by (intro nth_mem) simp
    ultimately show False using len assms(1) by (fastforce simp: allZeroBytes_def list_all_iff)
  qed
  then show ?thesis using len by simp
qed

lemma fillRandom_ok:
  assumes "random_ok r" "0 < n"
  shows "length (fillRandom r n) = n" "\<not> allZeroBytes (fillRandom r n)"
  using assms fallback_ok [OF assms(2) refl, of "clock_text r"]
  by (auto simp: fillRandom_def random_ok_def Let_def split: option.splits)

lemma hex_id_random: "random_ok r \<Longrightarrow> 0 < n \<Longrightarrow> m = 2 * n \<Longrightarrow> hex_id m (hex_encode (fillRandom r n))"
  using fillRandom_ok [of r n] by (simp add: hex_id_def lower_hex_encode hex_encode_zero)

lemma lower_hex_isHex: "list_all lower_hex s \<Longrightarrow> even (length s) \<Longrightarrow> isHex s"
  by (auto simp: isHex_def list_all_iff lower_hex_def hex_char_def Let_def)

lemma hex_id_no_dash: "hex_id n s \<Longrightarrow> CHR ''-'' \<notin> set s"
  using lower_hex_dash by (auto simp: hex_id_def list_all_iff)

lemma traceparent_plain:
  assumes "hex_id m t" "hex_id n s"
  shows "TrimSpace (format_traceparent t s) = format_traceparent t s" "ToLower (format_traceparent t s) = format_traceparent t s"
proof -
  have "list_all (\<lambda>c. plain c \<and> \<not> cont 65 90 (of_char c :: nat)) u" if "list_all lower_hex u" for u
    using that by (auto simp: list_all_iff lower_hex_def plain_def Let_def)
  then have "list_all (\<lambda>c. plain c \<and> \<not> cont 65 90 (of_char c :: nat)) (format_traceparent t s)"
    using assms by (simp add: format_traceparent_def hex_id_def plain_def)
  then show "ToLower (format_traceparent t s) = format_traceparent t s"
    "TrimSpace (format_traceparent t s) = format_traceparent t s"
    using ToLower_plain TrimSpace_plain by (simp_all add: list_all_iff)
qed

lemma Split_traceparent:
  assumes "hex_id m t" "hex_id n s"
  shows "Split (CHR ''-'') (format_traceparent t s) = [''00'', t, s, ''01'']"
proof -
  have "format_traceparent t s = ''00'' @ CHR ''-'' # t @ CHR ''-'' # s @ CHR ''-'' # ''01''"
    by (simp add: format_traceparent_def)
  then show ?thesis
    using hex_id_no_dash [OF assms(1)] hex_id_no_dash [OF assms(2)]
    by (simp add: Split_append Split_none del: append_Cons)
qed

lemma Parse_format:
  assumes "hex_id 32 t" "hex_id 16 s"
  shows "Parse (format_traceparent t s) =
    Some (no_envelope\<lparr>Traceparent := format_traceparent t s, TraceID := t, SpanID := s\<rparr>)"
proof -
  have "isHex ''00''" "isHex ''01''" by (simp_all add: isHex_def hex_char_def)
  moreover have "isHex t" "isHex s" using assms by (auto simp: hex_id_def intro: lower_hex_isHex)
  ultimately show ?thesis
    using assms traceparent_plain [OF assms] Split_traceparent [OF assms]
    by (simp add: Parse_def Let_def hex_id_def)
qed

text \<open>Everything that parses is well formed.\<close>

lemma ToLower_no_capital: "c \<in> set (ToLower s) \<Longrightarrow> \<not> cont 65 90 (of_char c :: nat)"
  by (induction s rule: ToLower.induct) (auto split: if_splits)

lemma Split_subset: "p \<in> set (Split sep s) \<Longrightarrow> set p \<subseteq> set s"
  by (induction s arbitrary: p) (auto split: if_splits list.splits, fastforce+)

lemma isHex_lower: "isHex s \<Longrightarrow> \<forall>c\<in>set s. \<not> cont 65 90 (of_char c :: nat) \<Longrightarrow> list_all lower_hex s"
  by (fastforce simp: isHex_def list_all_iff lower_hex_def hex_char_def Let_def)

lemma Parse_hex_ids:
  assumes "Parse raw = Some e"
  shows "hex_id 32 (TraceID e)" "hex_id 16 (SpanID e)" "Traceparent e = ToLower (TrimSpace raw)"
    "e = no_envelope\<lparr>Traceparent := Traceparent e, TraceID := TraceID e, SpanID := SpanID e\<rparr>"
proof -
  define low where "low = ToLower (TrimSpace raw)"
  define parts where "parts = Split (CHR ''-'') low"
  have p: "length parts = 4" "length (parts ! 1) = 32" "length (parts ! 2) = 16" "isHex (parts ! 1)" "isHex (parts ! 2)"
      "\<not> allZeroHex (parts ! 1)" "\<not> allZeroHex (parts ! 2)"
      and e: "e = no_envelope\<lparr>Traceparent := low, TraceID := parts ! 1, SpanID := parts ! 2\<rparr>"
    using assms by (auto simp: Parse_def Let_def low_def parts_def split: if_splits)
  have "list_all lower_hex (parts ! i)" if "i < 4" "isHex (parts ! i)" for i
  proof (rule isHex_lower [OF that(2)])
    have "set (parts ! i) \<subseteq> set low" using that p(1) Split_subset [of "parts ! i" "CHR ''-''" low] by (simp add: parts_def)
    then show "\<forall>c\<in>set (parts ! i). \<not> cont 65 90 (of_char c :: nat)"
      using ToLower_no_capital by (auto simp: low_def)
  qed
  from this [of 1] this [of 2] p e show "hex_id 32 (TraceID e)" "hex_id 16 (SpanID e)" by (simp_all add: hex_id_def)
  show "Traceparent e = ToLower (TrimSpace raw)" using e by (simp add: low_def)
  show "e = no_envelope\<lparr>Traceparent := Traceparent e, TraceID := TraceID e, SpanID := SpanID e\<rparr>" using e by simp
qed

subsection \<open>Hops\<close>

definition traced :: "envelope \<Rightarrow> bool" where
  "traced e \<longleftrightarrow> hex_id 32 (TraceID e) \<and> hex_id 16 (SpanID e) \<and> Traceparent e = format_traceparent (TraceID e) (SpanID e)"

lemma hex_id_nonempty: "hex_id n s \<Longrightarrow> s \<noteq> ''''"
  by (auto simp: hex_id_def allZeroHex_def)

lemma traced_New: "random_ok r1 \<Longrightarrow> random_ok r2 \<Longrightarrow> traced (New r1 r2)"
  by (simp add: traced_def New_def Let_def hex_id_random)

lemma traced_Child:
  assumes "random_ok r1" "random_ok r2" "hex_id 32 (TraceID e)"
  shows "traced (Child r1 r2 e)" "TraceID (Child r1 r2 e) = TraceID e" "ParentSpan (Child r1 r2 e) = SpanID e"
  using hex_id_nonempty [OF assms(3)] assms by (simp_all add: traced_def Child_def Let_def hex_id_random)

lemma first_parsed_Some: "first_parsed raws = Some e \<Longrightarrow> \<exists>raw\<in>set raws. Parse raw = Some e"
  by (induction raws) (auto split: option.splits)

lemma ExtractOrNew_known:
  assumes "random_ok r1" "random_ok r2" "first_parsed [TrimSpace (hdr_traceparent r), TrimSpace (query_traceparent r)] = Some tc"
  shows "traced (ExtractOrNew r1 r2 r)" "TraceID (ExtractOrNew r1 r2 r) = TraceID tc" "ParentSpan (ExtractOrNew r1 r2 r) = SpanID tc"
proof -
  have "hex_id 32 (TraceID tc)" using first_parsed_Some [OF assms(3)] Parse_hex_ids(1) by blast
  from traced_Child [OF assms(1,2) this]
  show "traced (ExtractOrNew r1 r2 r)" "TraceID (ExtractOrNew r1 r2 r) = TraceID tc" "ParentSpan (ExtractOrNew r1 r2 r) = SpanID tc"
    using assms(3) by (simp_all add: ExtractOrNew_def traced_def)
qed

lemma ExtractOrNew_traced:
  assumes "random_ok r1" "random_ok r2"
  shows "traced (ExtractOrNew r1 r2 r)"
proof (cases "first_parsed [TrimSpace (hdr_traceparent r), TrimSpace (query_traceparent r)]")
  case None
  then have "ExtractOrNew r1 r2 r = (New r1 r2)\<lparr>RequestID := TrimSpace (hdr_request_id r)\<rparr>"
    by (simp add: ExtractOrNew_def)
  then show ?thesis using traced_New [OF assms] by (simp add: traced_def)
next
  case (Some tc)
  then show ?thesis using ExtractOrNew_known(1) [OF assms] by blast
qed

text \<open>A server that calls another one sends its own traceparent.\<close>

definition hop_request :: "envelope \<Rightarrow> trace_request" where
  "hop_request e = \<lparr>hdr_traceparent = Traceparent e, query_traceparent = '''', hdr_request_id = RequestID e\<rparr>"

fun trace_hops :: "envelope \<Rightarrow> (random_source \<times> random_source) list \<Rightarrow> envelope list" where
  "trace_hops e [] = []"
| "trace_hops e ((r1, r2) # rs) = (let e' = fst (traceMiddleware r1 r2 (hop_request e)) in e' # trace_hops e' rs)"

lemma hop_known:
  assumes "traced e"
  shows "first_parsed [TrimSpace (hdr_traceparent (hop_request e)), TrimSpace (query_traceparent (hop_request e))] =
    Some (no_envelope\<lparr>Traceparent := Traceparent e, TraceID := TraceID e, SpanID := SpanID e\<rparr>)"
  using assms Parse_format [of "TraceID e" "SpanID e"] traceparent_plain(1) [of 32 "TraceID e" 16 "SpanID e"]
  by (simp add: hop_request_def traced_def)

lemma hop_step:
  assumes "traced e" "random_ok r1" "random_ok r2"
  shows "traced (fst (traceMiddleware r1 r2 (hop_request e)))" "TraceID (fst (traceMiddleware r1 r2 (hop_request e))) = TraceID e"
    "ParentSpan (fst (traceMiddleware r1 r2 (hop_request e))) = SpanID e"
  using ExtractOrNew_known [OF assms(2,3) hop_known [OF assms(1)]] by (simp_all add: traceMiddleware_def Let_def)

lemma trace_hops_ok:
  "traced e \<Longrightarrow> \<forall>(a, b)\<in>set rs. random_ok a \<and> random_ok b \<Longrightarrow>
   list_all traced (trace_hops e rs) \<and> list_all (\<lambda>x. TraceID x = TraceID e) (trace_hops e rs) \<and>
   map ParentSpan (trace_hops e rs) = map SpanID (butlast (e # trace_hops e rs))"
proof (induction e rs rule: trace_hops.induct)
  case (2 e r1 r2 rs)
  let ?e = "fst (traceMiddleware r1 r2 (hop_request e))"
  have step: "traced ?e" "TraceID ?e = TraceID e" "ParentSpan ?e = SpanID e"
    using hop_step [of e r1 r2] "2.prems" by auto
  with "2.IH" [OF refl step(1)] "2.prems" show ?case by (simp add: Let_def)
qed simp

text \<open>Property C12: a trace survives any number of hops between servers. However the random source and the clock
  behave, the context of a request carries the trace id of the first of its two traceparents that parses, if any,
  and its span as the parent; and along every chain of requests that send on the traceparent they were
  given, each context has the same trace id, well-formed ids and traceparent, and the span before it as its parent.\<close>

theorem trace_survives_hops:
  assumes "\<forall>(a, b)\<in>set ((r1, r2) # rs). random_ok a \<and> random_ok b"
  shows "let e = fst (traceMiddleware r1 r2 req); es = trace_hops e rs in
    (\<forall>tc. first_parsed [TrimSpace (hdr_traceparent req), TrimSpace (query_traceparent req)] = Some tc \<longrightarrow>
       TraceID e = TraceID tc \<and> ParentSpan e = SpanID tc) \<and>
    list_all (\<lambda>x. TraceID x = TraceID e \<and> traced x) (e # es) \<and> map ParentSpan es = map SpanID (butlast (e # es))"
proof -
  let ?e = "fst (traceMiddleware r1 r2 req)"
  have ok: "random_ok r1" "random_ok r2" using assms by auto
  have e: "?e = ExtractOrNew r1 r2 req" by (simp add: traceMiddleware_def Let_def)
  have "traced ?e" using ExtractOrNew_traced [OF ok] e by simp
  with trace_hops_ok [of ?e rs] assms have "list_all traced (trace_hops ?e rs)"
      "list_all (\<lambda>x. TraceID x = TraceID ?e) (trace_hops ?e rs)"
      "map ParentSpan (trace_hops ?e rs) = map SpanID (butlast (?e # trace_hops ?e rs))" by auto
  then show ?thesis
    using ExtractOrNew_known(2,3) [OF ok] \<open>traced ?e\<close> e unfolding Let_def by (auto simp: list_all_iff)
qed

definition sample_random :: random_source where
  "sample_random = \<lparr>rand_read = \<lambda>n. if n = 16 then None else Some (replicate n 7), clock_text = ''2026''\<rparr>"

definition sample_trace_request :: trace_request where
  "sample_trace_request = \<lparr>hdr_traceparent = ''none'', query_traceparent = '''', hdr_request_id = ''''\<rparr>"

theorem trace_survives_hops_witness:
  "(let e = fst (traceMiddleware sample_random sample_random sample_trace_request);
        es = trace_hops e [(sample_random, sample_random), (sample_random, sample_random)] in
    length es = 2 \<and> list_all (\<lambda>x. TraceID x = TraceID e \<and> traced x) (e # es))"
proof -
  have "random_ok sample_random" by (auto simp: random_ok_def sample_random_def)
  then have "\<forall>(a, b)\<in>set [(sample_random, sample_random), (sample_random, sample_random), (sample_random, sample_random)].
      random_ok a \<and> random_ok b" by simp
  note t = trace_survives_hops [OF this, of sample_trace_request]
  then show ?thesis by (simp add: Let_def)
qed

subsection \<open>Log fields\<close>

lemma add_fields_apply:
  "distinct (map fst kvs) \<Longrightarrow> add_fields kvs m k =
     (case map_of kvs k of Some v \<Rightarrow> if v \<noteq> '''' then Some v else m k | None \<Rightarrow> m k)"
proof (induction kvs m rule: add_fields.induct)
  case (2 k' v kvs m)
  then have "map_of kvs k' = None" by (simp add: map_of_eq_None_iff)
  with 2 show ?case by (auto split: option.splits)
qed simp

text \<open>No field is empty, and the span data is logged only when it is complete.\<close>

lemma log_fields_trace:
  "FieldsFromEnvelope e ''traceparent'' =
     (if Traceparent e \<noteq> '''' \<and> TraceID e \<noteq> '''' \<and> SpanID e \<noteq> '''' then Some (Traceparent e) else None)"
proof -
  have "distinct (map fst (business_fields e))" "map_of (business_fields e) ''traceparent'' = None"
    by (simp_all add: business_fields_def)
  then show ?thesis by (simp add: FieldsFromEnvelope_def add_fields_apply Let_def)
qed

lemma add_fields_nonempty:
  "\<forall>x. m x \<noteq> Some '''' \<Longrightarrow> add_fields kvs m k \<noteq> Some ''''"
  by (induction kvs m rule: add_fields.induct) auto

lemma log_fields_nonempty: "FieldsFromEnvelope e k \<noteq> Some ''''"
  unfolding FieldsFromEnvelope_def by (rule add_fields_nonempty) (auto simp: Let_def)

end
