(* ===== verification/Cluster.thy ===== *)
theory Cluster
  imports Stream_Manager
begin

section \<open>The cluster\<close>

text \<open>
  \<open>internal/node/registry.go\<close>, \<open>selector.go\<close>, the node list of \<open>internal/api/nodes.go\<close>, the stream hooks
  that \<open>cmd/server/main.go\<close> installs, and the playlist handler of \<open>internal/api/streams.go\<close>, which finds a
  stream on another node and starts a relay for it.

  The Redis key space is modelled by its two key families, \<open>node:*\<close> and \<open>stream:*\<close>, which no command mixes;
  each key has a value and the instant at which it expires. The value of a node key is the node
  description that was marshalled into it, or \<open>None\<close> for a text that is not one. A command can fail; its
  outcome is an argument. The manager starts a goroutine for each hook; it runs when the cluster's sequence of
  operations says. The order in which \<open>KEYS\<close> lists the keys is an argument too.

  The main results: the selector picks the least loaded candidate; a node that misses no two heartbeats
  in a row can always be selected; and two hazards, a stream that cannot be found any more 30 s after it
  was published, and a relay that takes the stream's entry over and removes it when it ends.
\<close>

record node_info =
  ni_ID :: string
  HTTPAddr :: string
  Role :: string
  StreamCount :: int
  ni_UpdatedAt :: time

abbreviation nodeTTL :: duration where "nodeTTL \<equiv> 15 * second"
abbreviation streamTTL :: duration where "streamTTL \<equiv> 30 * second"

record keyspace =
  node_keys :: "string \<rightharpoonup> node_info option \<times> time"
  stream_keys :: "string \<rightharpoonup> string \<times> time"

definition live_key :: "time \<Rightarrow> ('k \<rightharpoonup> 'v \<times> time) \<Rightarrow> 'k \<Rightarrow> 'v option" where
  "live_key now m k = (case m k of None \<Rightarrow> None | Some (v, till) \<Rightarrow> if now < till then Some v else None)"

record node_registry =
  self :: node_info
  reg_stopped :: bool

definition NewNodeRegistry :: "string \<Rightarrow> string \<Rightarrow> string \<Rightarrow> node_registry" where
  "NewNodeRegistry i addr r =
     \<lparr>self = \<lparr>ni_ID = i, HTTPAddr = addr, Role = r, StreamCount = 0, ni_UpdatedAt = 0\<rparr>, reg_stopped = False\<rparr>"

definition SelfID :: "node_registry \<Rightarrow> string" where
  "SelfID r = ni_ID (self r)"

subsection \<open>Streams\<close>

definition AnnounceStream :: "bool \<Rightarrow> time \<Rightarrow> string \<Rightarrow> node_registry \<Rightarrow> keyspace \<Rightarrow> bool \<times> keyspace" where
  "AnnounceStream ok now key r c =
     (ok, if ok then c\<lparr>stream_keys := (stream_keys c)(key \<mapsto> (SelfID r, now + streamTTL))\<rparr> else c)"

definition RevokeStream :: "bool \<Rightarrow> string \<Rightarrow> keyspace \<Rightarrow> bool \<times> keyspace" where
  "RevokeStream ok key c = (ok, if ok then c\<lparr>stream_keys := map_delete key (stream_keys c)\<rparr> else c)"

datatype find_err = NotInCluster string | GetFailed

definition FindStream :: "bool \<Rightarrow> time \<Rightarrow> string \<Rightarrow> keyspace \<Rightarrow> find_err + string" where
  "FindStream ok now key c =
     (if \<not> ok then Inl GetFailed
      else case live_key now (stream_keys c) key of None \<Rightarrow> Inl (NotInCluster key) | Some i \<Rightarrow> Inr i)"

text \<open>The hooks of the stream manager; a failure is logged only.\<close>

fun sync_hook :: "bool \<Rightarrow> time \<Rightarrow> node_registry \<Rightarrow> hook \<Rightarrow> keyspace \<Rightarrow> keyspace" where
  "sync_hook ok now r (OnRegister key node) c = snd (AnnounceStream ok now key r c)"
| "sync_hook ok now r (OnUnregister key) c = snd (RevokeStream ok key c)"

subsection \<open>Nodes\<close>

definition publish :: "bool \<Rightarrow> time \<Rightarrow> int \<Rightarrow> node_registry \<times> keyspace \<Rightarrow> node_registry \<times> keyspace" where
  "publish ok now n rc =
     (let s = (self (fst rc))\<lparr>StreamCount := n, ni_UpdatedAt := now\<rparr>; c = snd rc in
      ((fst rc)\<lparr>self := s\<rparr>, if ok then c\<lparr>node_keys := (node_keys c)(ni_ID s \<mapsto> (Some s, now + nodeTTL))\<rparr> else c))"

definition deregister :: "bool \<Rightarrow> node_registry \<times> keyspace \<Rightarrow> node_registry \<times> keyspace" where
  "deregister ok rc =
     (fst rc, if ok then (snd rc)\<lparr>node_keys := map_delete (SelfID (fst rc)) (node_keys (snd rc))\<rparr> else snd rc)"

definition StopRegistry :: "node_registry \<Rightarrow> node_registry" where
  "StopRegistry r = r\<lparr>reg_stopped := True\<rparr>"

text \<open>The heartbeat goroutine: a first publication, then one for each tick until it is stopped.\<close>

datatype beat = Beat bool time int | StopBeat bool

fun beat_loop :: "beat list \<Rightarrow> node_registry \<times> keyspace \<Rightarrow> node_registry \<times> keyspace" where
  "beat_loop [] rc = rc"
| "beat_loop (Beat ok now n # bs) rc = beat_loop bs (publish ok now n rc)"
| "beat_loop (StopBeat ok # bs) rc = deregister ok rc"

definition heartbeat :: "bool \<Rightarrow> time \<Rightarrow> int \<Rightarrow> beat list \<Rightarrow> node_registry \<times> keyspace \<Rightarrow> node_registry \<times> keyspace" where
  "heartbeat ok now n bs rc = beat_loop bs (publish ok now n rc)"

text \<open>\<open>AllNodes\<close>: \<open>ks\<close> is the answer to \<open>KEYS\<close>; a key whose \<open>GET\<close> fails or finds nothing, or whose text is no
  node description, is skipped.\<close>

definition AllNodes :: "string list option \<Rightarrow> (string \<Rightarrow> bool) \<Rightarrow> time \<Rightarrow> keyspace \<Rightarrow> node_info list option" where
  "AllNodes ks get_ok now c =
     (case ks of
        None \<Rightarrow> None
      | Some ks \<Rightarrow> Some (List.map_filter (\<lambda>k. if get_ok k then Option.bind (live_key now (node_keys c) k) (\<lambda>v. v) else None) ks))"

definition listNodes :: "bool \<Rightarrow> node_info list option \<Rightarrow> int \<times> node_info list" where
  "listNodes has_registry nodes =
     (if \<not> has_registry then (200, []) else case nodes of None \<Rightarrow> (500, []) | Some ns \<Rightarrow> (200, ns))"

subsection \<open>Selection\<close>

abbreviation MaxInt32 :: int where "MaxInt32 \<equiv> 2147483647"
abbreviation staleThreshold :: duration where "staleThreshold \<equiv> 10 * second"

fun select_loop :: "time \<Rightarrow> string \<Rightarrow> node_info option \<Rightarrow> int \<Rightarrow> node_info list \<Rightarrow> node_info option" where
  "select_loop now role best load [] = (if load = MaxInt32 then None else best)"
| "select_loop now role best load (n # ns) =
     (if now - ni_UpdatedAt n > staleThreshold then select_loop now role best load ns
      else if role \<noteq> '''' \<and> Role n \<noteq> role then select_loop now role best load ns
      else if StreamCount n < load then select_loop now role (Some n) (StreamCount n) ns
      else select_loop now role best load ns)"

text \<open>\<open>None\<close> is \<open>ErrNoAvailableNode\<close>.\<close>

definition SelectNode :: "time \<Rightarrow> node_info list \<Rightarrow> string \<Rightarrow> node_info option" where
  "SelectNode now ns role = select_loop now role None MaxInt32 ns"

subsection \<open>Playlists\<close>

datatype playlist_reply =
  ServeFile | Starting | StreamNotFoundReply | NotInClusterReply | RelayUnavailable relay_err | RedirectToSelf

definition playlist_status :: "playlist_reply \<Rightarrow> int" where
  "playlist_status p = (case p of ServeFile \<Rightarrow> 200 | Starting \<Rightarrow> 503 | StreamNotFoundReply \<Rightarrow> 404
     | NotInClusterReply \<Rightarrow> 404 | RelayUnavailable _ \<Rightarrow> 502 | RedirectToSelf \<Rightarrow> 307)"

text \<open>\<open>node\<close> is the registry with the relay table, if both are configured; \<open>find\<close> and \<open>nodes\<close> are what the
  registry answers.\<close>

definition serveHLSPlaylist ::
  "bool \<Rightarrow> string \<Rightarrow> manager \<Rightarrow> (node_registry \<times> relay_mgr) option \<Rightarrow> (find_err + string) \<Rightarrow> node_info list option
    \<Rightarrow> playlist_reply \<times> relay_mgr option" where
  "serveHLSPlaylist file_exists key m node found nodes =
     (if file_exists then (ServeFile, map_option snd node)
      else if Get key m \<noteq> None then (Starting, map_option snd node)
      else case node of
        None \<Rightarrow> (StreamNotFoundReply, None)
      | Some (reg, rel) \<Rightarrow>
          (case found of
             Inl _ \<Rightarrow> (NotInClusterReply, Some rel)
           | Inr src \<Rightarrow>
               if src = SelfID reg then (Starting, Some rel)
               else case EnsureRelay (map_option (map (\<lambda>n. (ni_ID n, HTTPAddr n))) nodes) key src rel of
                 (Some e, rel') \<Rightarrow> (RelayUnavailable e, Some rel')
               | (None, rel') \<Rightarrow> (RedirectToSelf, Some rel')))"

subsection \<open>The selector\<close>

text \<open>Reference: the first candidate whose load is the least among the candidates.\<close>

definition candidate :: "time \<Rightarrow> string \<Rightarrow> node_info \<Rightarrow> bool" where
  "candidate now role n \<longleftrightarrow>
     now - ni_UpdatedAt n \<le> staleThreshold \<and> (role = '''' \<or> Role n = role) \<and> StreamCount n < MaxInt32"

definition first_least :: "node_info list \<Rightarrow> node_info option" where
  "first_least ns = List.find (\<lambda>n. \<forall>m\<in>set ns. StreamCount n \<le> StreamCount m) ns"

definition least_loaded :: "time \<Rightarrow> string \<Rightarrow> node_info list \<Rightarrow> node_info option" where
  "least_loaded now role ns = first_least (filter (candidate now role) ns)"

lemma find_cong_set: "(\<And>x. x \<in> set xs \<Longrightarrow> P x = Q x) \<Longrightarrow> List.find P xs = List.find Q xs"
  by (rule find_cong) auto

lemma first_least_smaller:
  assumes "StreamCount c < StreamCount b"
  shows "first_least (b # c # ns) = first_least (c # ns)"
proof -
  have "List.find (\<lambda>n. \<forall>m\<in>set (b # c # ns). StreamCount n \<le> StreamCount m) (c # ns) =
      List.find (\<lambda>n. \<forall>m\<in>set (c # ns). StreamCount n \<le> StreamCount m) (c # ns)"
    using assms by (intro find_cong_set) fastforce
  then show ?thesis unfolding first_least_def using assms by (subst List.find.simps) auto
qed

lemma first_least_not_smaller:
  assumes "StreamCount b \<le> StreamCount c"
  shows "first_least (b # c # ns) = first_least (b # ns)"
proof (cases "\<forall>m\<in>set ns. StreamCount b \<le> StreamCount m")
  case True
  with assms show ?thesis by (simp add: first_least_def)
next
  case False
  then obtain m where m: "m \<in> set ns" "StreamCount m < StreamCount b" by force
  define P where "P = (\<lambda>n :: node_info. \<forall>m\<in>set (b # c # ns). StreamCount n \<le> StreamCount m)"
  define Q where "Q = (\<lambda>n :: node_info. \<forall>m\<in>set (b # ns). StreamCount n \<le> StreamCount m)"
  have "\<not> P b" "\<not> P c" "\<not> Q b" using m assms unfolding P_def Q_def by fastforce+
  moreover have "List.find P ns = List.find Q ns"
    using assms unfolding P_def Q_def by (intro find_cong_set) fastforce
  ultimately have "List.find P (b # c # ns) = List.find Q (b # ns)" by simp
  then show ?thesis by (simp only: first_least_def P_def Q_def)
qed

lemma select_loop_Some:
  "StreamCount b < MaxInt32 \<Longrightarrow>
   select_loop now role (Some b) (StreamCount b) ns = first_least (b # filter (candidate now role) ns)"
proof (induction ns arbitrary: b)
  case Nil
  then show ?case by (simp add: first_least_def)
next
  case (Cons n ns)
  show ?case
  proof (cases "candidate now role n")
    case True
    then show ?thesis
      using Cons first_least_smaller [of n b] first_least_not_smaller [of b n]
      by (auto simp: candidate_def not_less)
  next
    case False
    then show ?thesis using Cons by (auto simp: candidate_def)
  qed
qed

lemma select_loop_None:
  "select_loop now role None MaxInt32 ns = first_least (filter (candidate now role) ns)"
proof (induction ns)
  case Nil
  show ?case by (simp add: first_least_def)
next
  case (Cons n ns)
  show ?case
  proof (cases "candidate now role n")
    case True
    then have "now - ni_UpdatedAt n \<le> staleThreshold" "role = '''' \<or> Role n = role" "StreamCount n < MaxInt32"
      by (auto simp: candidate_def)
    then show ?thesis using True select_loop_Some [of n now role ns] by auto
  next
    case False
    then show ?thesis using Cons by (auto simp: candidate_def)
  qed
qed

lemma first_least_exists: "ns \<noteq> [] \<Longrightarrow> \<exists>n. first_least ns = Some n"
proof -
  assume "ns \<noteq> []"
  then have "StreamCount ` set ns \<noteq> {}" "finite (StreamCount ` set ns)" by auto
  then have "Min (StreamCount ` set ns) \<in> StreamCount ` set ns" by (rule Min_in [rotated])
  then obtain n where "n \<in> set ns" "StreamCount n = Min (StreamCount ` set ns)" by auto
  moreover from this have "\<forall>m\<in>set ns. StreamCount n \<le> StreamCount m" by simp
  ultimately have "first_least ns \<noteq> None" unfolding first_least_def by (auto simp: find_None_iff)
  then show ?thesis by blast
qed

text \<open>Property C14: the one-pass selector equals its reference: for every list of nodes, clock and role, it
  returns the first node of least load among those that are fresh, have the role (if one is asked for)
  and a load below the largest 32-bit number; and an error exactly when there is none.\<close>

theorem select_node_least_loaded:
  "SelectNode now ns role = least_loaded now role ns \<and>
   (SelectNode now ns role = None \<longleftrightarrow> filter (candidate now role) ns = [])"
proof -
  have "SelectNode now ns role = least_loaded now role ns"
    by (simp add: SelectNode_def least_loaded_def select_loop_None)
  moreover have "least_loaded now role ns = None \<longleftrightarrow> filter (candidate now role) ns = []"
  proof (cases "filter (candidate now role) ns = []")
    case True
    then show ?thesis by (simp add: least_loaded_def first_least_def)
  next
    case False
    then show ?thesis using first_least_exists [OF False] by (auto simp: least_loaded_def)
  qed
  ultimately show ?thesis by simp
qed

subsection \<open>Heartbeats\<close>

text \<open>The ticker fires every 5 s; each tick has an outcome and the number of streams at that time.\<close>

abbreviation beatPeriod :: duration where "beatPeriod \<equiv> 5 * second"

fun periodic :: "time \<Rightarrow> (bool \<times> int) list \<Rightarrow> beat list" where
  "periodic t [] = []"
| "periodic t ((ok, n) # bs) = Beat ok t n # periodic (t + beatPeriod) bs"

text \<open>The ticks that have happened until an instant; the first is 5 s after the start.\<close>

definition ticks_until :: "time \<Rightarrow> time \<Rightarrow> (bool \<times> int) list \<Rightarrow> (bool \<times> int) list" where
  "ticks_until t0 t bs = take (nat ((t - t0) div beatPeriod)) bs"

lemma periodic_append: "periodic t (xs @ ys) = periodic t xs @ periodic (t + beatPeriod * int (length xs)) ys"
  by (induction xs arbitrary: t) (auto simp: algebra_simps)

lemma beat_loop_append: "beat_loop (periodic t xs @ ys) rc = beat_loop ys (beat_loop (periodic t xs) rc)"
  by (induction t xs arbitrary: rc rule: periodic.induct) simp_all

lemma heartbeat_periodic: "heartbeat ok t n (periodic (t + beatPeriod) bs) rc = beat_loop (periodic t ((ok, n) # bs)) rc"
  by (simp add: heartbeat_def)

lemma publish_self [simp]:
  "ni_ID (self (fst (publish ok now n rc))) = ni_ID (self (fst rc))"
  "Role (self (fst (publish ok now n rc))) = Role (self (fst rc))"
  by (simp_all add: publish_def Let_def)

lemma beat_loop_self [simp]:
  "ni_ID (self (fst (beat_loop bs rc))) = ni_ID (self (fst rc))"
  "Role (self (fst (beat_loop bs rc))) = Role (self (fst rc))"
  by (induction bs rc rule: beat_loop.induct) (auto simp: deregister_def)

lemma publish_ok_key:
  "node_keys (snd (publish True now n rc)) (ni_ID (self (fst rc))) =
   Some (Some ((self (fst rc))\<lparr>StreamCount := n, ni_UpdatedAt := now\<rparr>), now + nodeTTL)"
  by (simp add: publish_def Let_def)

lemma publish_lost_key: "snd (publish False now n rc) = snd rc"
  by (simp add: publish_def Let_def)

text \<open>After a tick that succeeded, or failed right after one that succeeded, the node's key holds the
  description of that success.\<close>

lemma beats_last_ok:
  "node_keys (snd (beat_loop (periodic t0 (bs @ [(True, n)])) rc)) (ni_ID (self (fst rc))) =
   Some (Some ((self (fst (beat_loop (periodic t0 bs) rc)))\<lparr>StreamCount := n, ni_UpdatedAt := t0 + beatPeriod * int (length bs)\<rparr>),
     t0 + beatPeriod * int (length bs) + nodeTTL)"
  using publish_ok_key [of "t0 + beatPeriod * int (length bs)" n "beat_loop (periodic t0 bs) rc"]
  by (simp add: periodic_append beat_loop_append)

lemma beats_one_lost:
  "node_keys (snd (beat_loop (periodic t0 ((bs @ [(True, n)]) @ [(False, k)])) rc)) =
   node_keys (snd (beat_loop (periodic t0 (bs @ [(True, n)])) rc))"
  using publish_lost_key [of "t0 + beatPeriod * int (length (bs @ [(True, n)]))" k "beat_loop (periodic t0 (bs @ [(True, n)])) rc"]
  by (simp only: periodic_append [of t0 "bs @ [(True, n)]"] beat_loop_append periodic.simps beat_loop.simps)

text \<open>No two heartbeats in a row are lost, and the first is not.\<close>

definition no_two_lost :: "bool list \<Rightarrow> bool" where
  "no_two_lost oks \<longleftrightarrow> oks \<noteq> [] \<and> hd oks \<and> (\<forall>i < length oks - 1. oks ! i \<or> oks ! Suc i)"

lemma no_two_lost_take: "no_two_lost oks \<Longrightarrow> 0 < k \<Longrightarrow> no_two_lost (take k oks)"
  by (auto simp: no_two_lost_def hd_take)

lemma no_two_lost_cases:
  assumes "no_two_lost (map fst bs)"
  obtains (last_ok) ys n where "bs = ys @ [(True, n)]" | (one_lost) ys n k where "bs = (ys @ [(True, n)]) @ [(False, k)]"
proof (cases bs rule: rev_cases)
  case Nil
  with assms show ?thesis by (simp add: no_two_lost_def)
next
  case (snoc xs x)
  obtain o1 n1 where x: "x = (o1, n1)" by (cases x)
  show ?thesis
  proof (cases o1)
    case True
    with snoc x last_ok show ?thesis by simp
  next
    case False
    show ?thesis
    proof (cases xs rule: rev_cases)
      case Nil
      with assms snoc x False show ?thesis by (simp add: no_two_lost_def)
    next
      case (snoc ys y)
      with \<open>bs = xs @ [x]\<close> have bs: "bs = ys @ [y, x]" by simp
      then have "map fst bs ! length ys \<or> map fst bs ! Suc (length ys)"
        using assms unfolding no_two_lost_def by auto
      with bs x False have "fst y" by (simp add: nth_append)
      with bs x False one_lost [of ys "snd y" n1] show ?thesis by (cases y) simp
    qed
  qed
qed

lemma fresh_entry:
  assumes "no_two_lost (map fst bs)" "t0 + beatPeriod * (int (length bs) - 1) \<le> t" "t < t0 + beatPeriod * int (length bs)"
  shows "\<exists>s till. node_keys (snd (beat_loop (periodic t0 bs) rc)) (ni_ID (self (fst rc))) = Some (Some s, till) \<and>
    t < till \<and> t - ni_UpdatedAt s \<le> staleThreshold \<and> ni_ID s = ni_ID (self (fst rc)) \<and> Role s = Role (self (fst rc)) \<and>
    StreamCount s \<in> snd ` set bs"
  using assms(1)
proof (cases rule: no_two_lost_cases)
  case (last_ok ys n)
  with assms(2,3) beats_last_ok [of t0 ys n rc] show ?thesis by (simp add: algebra_simps)
next
  case (one_lost ys n k)
  with assms(2,3) beats_last_ok [of t0 ys n rc] beats_one_lost [of t0 ys n k rc] show ?thesis by (simp add: algebra_simps)
qed

lemma AllNodes_mem:
  assumes "i \<in> set ks" "get_ok i" "node_keys c i = Some (Some s, till)" "t < till"
  shows "\<exists>ns. AllNodes (Some ks) get_ok t c = Some ns \<and> s \<in> set ns"
proof -
  have "live_key t (node_keys c) i = Some (Some s)" using assms by (simp add: live_key_def)
  then have "s \<in> set (List.map_filter (\<lambda>k. if get_ok k then Option.bind (live_key t (node_keys c) k) (\<lambda>v. v) else None) ks)"
    using assms by (force simp: List.map_filter_def)
  then show ?thesis by (simp add: AllNodes_def)
qed


definition node_a :: node_registry where "node_a = NewNodeRegistry ''a'' ''a:8080'' ''master''"
definition node_b :: node_registry where "node_b = NewNodeRegistry ''b'' ''b:8080'' ''slave''"
definition no_keys :: keyspace where "no_keys = \<lparr>node_keys = Map.empty, stream_keys = Map.empty\<rparr>"


subsection \<open>Finding streams\<close>

text \<open>What the nodes do to the key space: a heartbeat, the end of one, or a stream hook.\<close>

datatype cluster_op =
  OpPublish bool time int node_registry | OpDeregister bool node_registry | OpHook bool time node_registry hook

fun cluster_step :: "cluster_op \<Rightarrow> keyspace \<Rightarrow> keyspace" where
  "cluster_step (OpPublish ok now n r) c = snd (publish ok now n (r, c))"
| "cluster_step (OpDeregister ok r) c = snd (deregister ok (r, c))"
| "cluster_step (OpHook ok now r h) c = sync_hook ok now r h c"

fun hook_key :: "hook \<Rightarrow> string" where
  "hook_key (OnRegister k n) = k"
| "hook_key (OnUnregister k) = k"

fun touches :: "string \<Rightarrow> cluster_op \<Rightarrow> bool" where
  "touches key (OpHook ok now r h) = (hook_key h = key)"
| "touches key _ = False"

lemma sync_hook_other: "hook_key h \<noteq> key \<Longrightarrow> stream_keys (sync_hook ok now r h c) key = stream_keys c key"
  by (cases h) (auto simp: AnnounceStream_def RevokeStream_def)

lemma cluster_step_untouched: "\<not> touches key p \<Longrightarrow> stream_keys (cluster_step p c) key = stream_keys c key"
  by (cases p) (auto simp: publish_def deregister_def Let_def sync_hook_other)

lemma cluster_untouched:
  "list_all (\<lambda>p. \<not> touches key p) ps \<Longrightarrow> stream_keys (fold cluster_step ps c) key = stream_keys c key"
  by (induction ps arbitrary: c) (auto simp: cluster_step_untouched)

text \<open>The hooks that a manager operation fired.\<close>

definition fired :: "manager \<Rightarrow> manager \<Rightarrow> hook list" where
  "fired m m' = drop (length (hooks m)) (hooks m')"

lemma fired_Register: "Get key m = None \<Longrightarrow> fired m (snd (Register key node m)) = [OnRegister key node]"
  by (simp add: fired_def Register_def Get_def Let_def)

lemma Get_Register: "Get key m = None \<Longrightarrow> Get key (snd (Register key node m)) = Some (length (stream_objs m))"
  by (simp add: Register_def Get_def Let_def)

lemma FindStream_announced:
  assumes "stream_keys c key = Some (i, till)"
  shows "FindStream True t key c = (if t < till then Inr i else Inl (NotInCluster key))"
  using assms by (simp add: FindStream_def live_key_def)

text \<open>A published stream can be found for 30 s only. A node registers a stream, its hook announces
  it, and it stays registered; the nodes go on with heartbeats and other streams. A viewer of another node is
  sent to a relay if he asks within 30 s, and told that the stream is not in the cluster
  at any time after that, because nothing refreshes the announcement.\<close>

theorem announced_stream_expires:
  assumes "Get key mA = None" "Get key mB = None" "SelfID regA \<noteq> SelfID regB"
    and "list_all (\<lambda>p. \<not> touches key p) ps"
    and "source_addr (map (\<lambda>n. (ni_ID n, HTTPAddr n)) nodes) (SelfID regA) \<noteq> ''''"
  shows "let mA' = snd (Register key node mA);
             c = fold cluster_step ps (fold (sync_hook True ta regA) (fired mA mA') c_init);
             reply = fst (serveHLSPlaylist False key mB (Some (regB, rel)) (FindStream True t key c) (Some nodes)) in
    Get key mA' \<noteq> None \<and> reply = (if t < ta + streamTTL then RedirectToSelf else NotInClusterReply)"
proof -
  let ?mA = "snd (Register key node mA)"
  let ?c = "fold cluster_step ps (fold (sync_hook True ta regA) (fired mA ?mA) c_init)"
  have "stream_keys ?c key = Some (SelfID regA, ta + streamTTL)"
    using assms(1) by (simp add: cluster_untouched [OF assms(4)] fired_Register AnnounceStream_def)
  note f = FindStream_announced [OF this, of t]
  have "fst (EnsureRelay (Some (map (\<lambda>n. (ni_ID n, HTTPAddr n)) nodes)) key (SelfID regA) rel) = None"
    using assms(5) by (simp add: EnsureRelay_def Let_def)
  then have "fst (serveHLSPlaylist False key mB (Some (regB, rel)) (FindStream True t key ?c) (Some nodes)) =
      (if t < ta + streamTTL then RedirectToSelf else NotInClusterReply)"
    using assms(2,3) f by (auto simp: serveHLSPlaylist_def split: prod.split)
  then show ?thesis using Get_Register [OF assms(1)] by (simp add: Let_def)
qed

theorem announced_stream_expires_witness:
  "(let mA' = snd (Register ''cam'' ''a'' NewStreamManager);
        c = fold cluster_step [OpPublish True (20 * second) 1 node_a] (fold (sync_hook True 0 node_a) (fired NewStreamManager mA') no_keys);
        reply = fst (serveHLSPlaylist False ''cam'' NewStreamManager (Some (node_b, \<lparr>active = Map.empty, pulls = []\<rparr>))
          (FindStream True (31 * second) ''cam'' c) (Some [self node_a])) in
    Get ''cam'' mA' \<noteq> None \<and> reply = NotInClusterReply)"
  using announced_stream_expires [of "''cam''" NewStreamManager NewStreamManager node_a node_b
      "[OpPublish True (20 * second) 1 node_a]" "[self node_a]" "''a''" 0 no_keys "\<lparr>active = Map.empty, pulls = []\<rparr>" "31 * second"]
  by (simp add: Let_def Get_def NewStreamManager_def node_a_def node_b_def NewNodeRegistry_def SelfID_def)

lemma hooks_Subscribe [simp]: "hooks (snd (Subscribe key sub m)) = hooks m"
  by (simp add: Subscribe_def split: option.split)

lemma hooks_subscribe_all [simp]: "hooks (subscribe_all key ss m) = hooks m"
  by (induction ss arbitrary: m) auto

lemma fired_pull_register:
  assumes "Get key m = None" "(r', m') = pull_register True ks key src st (r, m)"
  shows "fired m m' = [OnRegister key (src @ ''(relay)'')]" "Get key m' \<noteq> None"
  using assms by (auto simp: pull_register_def Register_def Get_def Let_def fired_def)

lemma fired_pull_end:
  assumes "Get key m \<noteq> None"
  shows "fired m (snd (pull_end ks key (r, m))) = [OnUnregister key]"
  using assms by (auto simp: pull_end_def Unregister_def Get_def fired_def close_at_def)

text \<open>A relay takes over and then removes the entry of the stream that it relays. A node has announced its
  stream; another node pulls it and registers it locally, which fires the same hook: from then on the cluster finds
  the stream at the relaying node only. When the pull ends, the hook of the removal deletes the entry, and the
  stream, still registered and announced by nobody else, is not found any more, long before its 30 s are over.\<close>

theorem relay_takes_stream_entry:
  assumes "Get key mA = None" "Get key mB = None"
    and "(r', mB') = pull_register True ks key (SelfID regA) st (r, mB)"
  shows "let mA' = snd (Register key (SelfID regA) mA);
             c1 = fold (sync_hook True ta regA) (fired mA mA') c_init;
             c2 = fold (sync_hook True tb regB) (fired mB mB') c1;
             mB'' = snd (pull_end ks key (r', mB'));
             c3 = fold (sync_hook True tc regB) (fired mB' mB'') c2 in
    (ta \<le> t \<and> t < ta + streamTTL \<longrightarrow> FindStream True t key c1 = Inr (SelfID regA)) \<and>
    (tb \<le> t \<and> t < tb + streamTTL \<longrightarrow> FindStream True t key c2 = Inr (SelfID regB)) \<and>
    FindStream True t key c3 = Inl (NotInCluster key) \<and> Get key mA' \<noteq> None"
proof -
  note b = fired_pull_register [OF assms(2,3)]
  note e = fired_pull_end [OF b(2), of ks r']
  show ?thesis
    using Get_Register [OF assms(1), of "SelfID regA"]
    by (simp add: fired_Register [OF assms(1)] b(1) e AnnounceStream_def RevokeStream_def FindStream_def live_key_def)
qed

theorem relay_takes_stream_entry_witness:
  "let rm = pull_register True [] ''cam'' (SelfID node_a) (new_hls 2 5 (\<lambda>_. '''') Map.empty None)
         (\<lparr>active = Map.empty, pulls = []\<rparr>, NewStreamManager);
       mA' = snd (Register ''cam'' (SelfID node_a) NewStreamManager);
       c1 = fold (sync_hook True 0 node_a) (fired NewStreamManager mA') no_keys;
       c2 = fold (sync_hook True (2 * second) node_b) (fired NewStreamManager (snd rm)) c1;
       c3 = fold (sync_hook True (8 * second) node_b) (fired (snd rm) (snd (pull_end [] ''cam'' rm))) c2 in
   FindStream True (1 * second) ''cam'' c1 = Inr (SelfID node_a) \<and>
   FindStream True (9 * second) ''cam'' c3 = Inl (NotInCluster ''cam'') \<and> Get ''cam'' mA' \<noteq> None"
proof -
  let ?rm = "pull_register True [] ''cam'' (SelfID node_a) (new_hls 2 5 (\<lambda>_. '''') Map.empty None)
         (\<lparr>active = Map.empty, pulls = []\<rparr>, NewStreamManager)"
  have new: "Get ''cam'' NewStreamManager = None" by (simp add: Get_def NewStreamManager_def)
  note w = relay_takes_stream_entry [OF new new prod.collapse [of ?rm], unfolded Let_def prod.collapse,
      where ta = 0 and tb = "2 * second" and tc = "8 * second" and c_init = no_keys and regB = node_b]
  from w [where t = "1 * second"] w [where t = "9 * second"]
  show ?thesis by (simp add: Let_def)
qed

end
