(* ===== verification/Retry_Health.thy ===== *)
theory Retry_Health
  imports Prelude Complex_Main
begin

section \<open>Retries and dependency health\<close>

text \<open>
  \<open>internal/ha/retry.go\<close> and \<open>internal/ha/health.go\<close>. A call of \<open>Retry\<close> is given the result of each
  attempt and the end of each wait between attempts (\<open>None\<close>: the timer fired; an error: the context ended
  first); it returns its result and the delays it waited for. A delay is computed in floating point: \<open>fl\<close> is
  the rounding of an operation and \<open>u\<close> the random number in [0, 1); the conversion to nanoseconds truncates.
  A health check is given by its result and its latency.

  The main results: a retry calls its function until the first success, the end of the context or the last
  attempt, and reports what the last call or the context said; the delays stay between zero and the
  jittered maximum; and the mode is degraded iff a required dependency is down.
\<close>

record retry_policy =
  Attempts :: int
  InitialDelay :: duration
  MaxDelay :: duration
  Multiplier :: rat
  JitterFraction :: rat

definition withDefaults :: "retry_policy \<Rightarrow> retry_policy" where
  "withDefaults p =
     \<lparr>Attempts = (if Attempts p \<le> 0 then 3 else Attempts p),
      InitialDelay = (if InitialDelay p \<le> 0 then 150 * millisecond else InitialDelay p),
      MaxDelay = (if MaxDelay p \<le> 0 then 1200 * millisecond else MaxDelay p),
      Multiplier = (if Multiplier p \<le> 1 then 2 else Multiplier p),
      JitterFraction = (if JitterFraction p < 0 then 0 else if JitterFraction p > 1 then 1 else JitterFraction p)\<rparr>"

definition delayForAttempt :: "(rat \<Rightarrow> rat) \<Rightarrow> rat \<Rightarrow> retry_policy \<Rightarrow> nat \<Rightarrow> duration" where
  "delayForAttempt fl u p attempt =
     (let b0 = fl (fl (of_int (InitialDelay p)) * fl (Multiplier p ^ (attempt - 1)));
          b1 = (if b0 > fl (of_int (MaxDelay p)) then fl (of_int (MaxDelay p)) else b0);
          b2 = (if JitterFraction p > 0 then fl (b1 * fl (1 + fl (fl (fl (u * 2) - 1) * JitterFraction p))) else b1);
          b3 = (if b2 < 0 then 0 else b2) in
      \<lfloor>b3\<rfloor>)"

text \<open>The loop from attempt \<open>i\<close> on; \<open>n\<close> attempts are left. The calls made are counted.\<close>

fun retry_loop :: "nat \<Rightarrow> nat \<Rightarrow> (nat \<Rightarrow> 'e option) \<Rightarrow> (nat \<Rightarrow> 'e option) \<Rightarrow> (nat \<Rightarrow> duration) \<Rightarrow> 'e option \<times> nat \<times> duration list" where
  "retry_loop 0 i res wait delay = (None, 0, [])"
| "retry_loop (Suc n) i res wait delay =
     (case res i of
        None \<Rightarrow> (None, 1, [])
      | Some e \<Rightarrow>
          if n = 0 then (Some e, 1, [])
          else case wait i of
            Some c \<Rightarrow> (Some c, 1, [delay i])
          | None \<Rightarrow> (case retry_loop n (Suc i) res wait delay of (r, k, ds) \<Rightarrow> (r, Suc k, delay i # ds)))"

definition Retry :: "(rat \<Rightarrow> rat) \<Rightarrow> (nat \<Rightarrow> rat) \<Rightarrow> retry_policy \<Rightarrow> (nat \<Rightarrow> 'e option) \<Rightarrow> (nat \<Rightarrow> 'e option)
    \<Rightarrow> 'e option \<times> nat \<times> duration list" where
  "Retry fl u policy res wait =
     (let p = withDefaults policy in retry_loop (nat (Attempts p)) 1 res wait (\<lambda>i. delayForAttempt fl (u i) p i))"

subsection \<open>Health\<close>

datatype dep_status = DependencyUp | DependencyDown

datatype health_mode = ModeNormal | ModeDegradedControlPlane

text \<open>\<open>Check\<close> is \<open>None\<close> for a nil function, else its latency and its error, if any.\<close>

record dependency =
  dep_Name :: string
  Required :: bool
  Check :: "(int \<times> string option) option"

record dependency_result =
  dr_Name :: string
  dr_Required :: bool
  dr_Status :: dep_status
  LatencyMs :: int
  dr_Error :: string

record health_snapshot =
  hs_Status :: string
  hs_Mode :: health_mode
  CheckedAt :: time
  Dependencies :: "dependency_result list"

record health_monitor =
  hm_timeout :: duration
  dependencies :: "dependency list"

definition NewMonitor :: "duration \<Rightarrow> dependency list \<Rightarrow> health_monitor" where
  "NewMonitor t ds = \<lparr>hm_timeout = (if t \<le> 0 then 1200 * millisecond else t), dependencies = ds\<rparr>"

definition check_dependency :: "dependency \<Rightarrow> dependency_result" where
  "check_dependency d =
     (let r = \<lparr>dr_Name = dep_Name d, dr_Required = Required d, dr_Status = DependencyUp, LatencyMs = 0, dr_Error = ''''\<rparr> in
      case Check d of
        None \<Rightarrow> r\<lparr>dr_Status := DependencyDown, dr_Error := ''dependency check function is nil''\<rparr>
      | Some (ms, err) \<Rightarrow>
          (case err of
             None \<Rightarrow> r\<lparr>LatencyMs := ms\<rparr>
           | Some e \<Rightarrow> r\<lparr>LatencyMs := ms, dr_Status := DependencyDown, dr_Error := e\<rparr>))"

fun degraded_loop :: "dependency_result list \<Rightarrow> bool" where
  "degraded_loop [] = False"
| "degraded_loop (r # rs) = (if dr_Required r \<and> dr_Status r = DependencyDown then True else degraded_loop rs)"

definition Snapshot :: "time \<Rightarrow> health_monitor \<Rightarrow> health_snapshot" where
  "Snapshot now m =
     (let out = \<lparr>hs_Status = ''healthy'', hs_Mode = ModeNormal, CheckedAt = now, Dependencies = []\<rparr> in
      if dependencies m = [] then out
      else let rs = map check_dependency (dependencies m);
               out' = (if degraded_loop rs then out\<lparr>hs_Status := ''degraded'', hs_Mode := ModeDegradedControlPlane\<rparr> else out) in
           out'\<lparr>Dependencies := rs\<rparr>)"

subsection \<open>What a retry does\<close>

text \<open>The number of calls: up to the first attempt, of at most \<open>n\<close>, that succeeds, or whose following wait is cut
  short.\<close>

definition stops_at :: "(nat \<Rightarrow> 'e option) \<Rightarrow> (nat \<Rightarrow> 'e option) \<Rightarrow> nat \<Rightarrow> nat \<Rightarrow> bool" where
  "stops_at res wait final i \<longleftrightarrow> res i = None \<or> wait i \<noteq> None \<or> i = final"

lemma retry_loop_spec:
  "0 < n \<Longrightarrow> retry_loop n i res wait delay = (r, k, ds) \<Longrightarrow>
   0 < k \<and> k \<le> n \<and> (\<forall>j<k - 1. \<not> stops_at res wait (i + n - 1) (i + j)) \<and> stops_at res wait (i + n - 1) (i + k - 1) \<and>
   r = (if res (i + k - 1) = None then None else if i + k - 1 = i + n - 1 then res (i + k - 1) else wait (i + k - 1)) \<and>
   ds = map (\<lambda>j. delay (i + j)) [0..<(if res (i + k - 1) = None \<or> i + k - 1 = i + n - 1 then k - 1 else k)]"
proof (induction n arbitrary: i r k ds)
  case (Suc n)
  show ?case
  proof (cases "res i = None \<or> n = 0 \<or> wait i \<noteq> None")
    case True
    then consider "res i = None" | e where "res i = Some e" "n = 0" | e c where "res i = Some e" "0 < n" "wait i = Some c"
      by (metis not_None_eq not_gr_zero)
    then show ?thesis
    proof cases
      case 3
      then have "r = Some c" "k = 1" "ds = [delay i]" using Suc.prems by auto
      with 3 show ?thesis by (simp add: stops_at_def)
    qed (use Suc.prems in \<open>auto simp: stops_at_def\<close>)
  next
    case False
    obtain r' k' ds' where l: "retry_loop n (Suc i) res wait delay = (r', k', ds')" by (metis prod_cases3)
    with False Suc.prems have rk: "r = r'" "k = Suc k'" "ds = delay i # ds'" by auto
    have n: "0 < n" using False by simp
    note ih = Suc.IH [OF n l]
    have "\<forall>j<k - 1. \<not> stops_at res wait (i + Suc n - 1) (i + j)"
    proof (intro allI impI)
      fix j assume "j < k - 1"
      then show "\<not> stops_at res wait (i + Suc n - 1) (i + j)"
        using ih False rk(2) by (cases j) (auto simp: stops_at_def)
    qed
    moreover have "ds = map (\<lambda>j. delay (i + j)) [0..<(if res (i + k - 1) = None \<or> i + k - 1 = i + Suc n - 1 then k - 1 else k)]"
    proof -
      have "delay i # map (\<lambda>j. delay (Suc i + j)) [0..<m] = map (\<lambda>j. delay (i + j)) [0..<Suc m]" for m
        by (simp add: upt_conv_Cons map_Suc_upt [symmetric] del: upt_Suc)
      then show ?thesis using ih rk by (auto simp del: upt_Suc)
    qed
    ultimately show ?thesis using ih rk n by auto
  qed
qed simp

lemma withDefaults_pos: "0 < Attempts (withDefaults p)" "0 < InitialDelay (withDefaults p)" "0 < MaxDelay (withDefaults p)"
    "1 < Multiplier (withDefaults p)" "0 \<le> JitterFraction (withDefaults p)" "JitterFraction (withDefaults p) \<le> 1"
  by (auto simp: withDefaults_def)

lemma Retry_spec:
  assumes "Retry fl u policy res wait = (r, k, ds)" "n = nat (Attempts (withDefaults policy))"
  shows "0 < k \<and> k \<le> n \<and> (\<forall>j<k - 1. \<not> stops_at res wait n (Suc j)) \<and> stops_at res wait n k \<and>
    r = (if res k = None then None else if k = n then res k else wait k) \<and>
    ds = map (\<lambda>j. delayForAttempt fl (u (Suc j)) (withDefaults policy) (Suc j)) [0..<(if res k = None \<or> k = n then k - 1 else k)]"
proof -
  have n: "0 < n" using withDefaults_pos(1) [of policy] assms(2) by simp
  have "retry_loop n 1 res wait (\<lambda>i. delayForAttempt fl (u i) (withDefaults policy) i) = (r, k, ds)"
    using assms(1) by (simp add: Retry_def Let_def assms(2))
  note spec = retry_loop_spec [OF n this]
  have eqs: "1 + n - 1 = n" "1 + k - 1 = k" "\<And>j. 1 + j = Suc j" by simp_all
  from spec show ?thesis unfolding eqs diff_Suc_1 .
qed

text \<open>Success of a retry: some attempt succeeds, all before it fail and no wait before it is cut short.\<close>

lemma Retry_succeeds_iff:
  "fst (Retry fl u policy res wait) = None \<longleftrightarrow>
   (\<exists>i\<in>{1..nat (Attempts (withDefaults policy))}. res i = None \<and> (\<forall>j\<in>{1..<i}. res j \<noteq> None \<and> wait j = None))"
proof -
  define n where "n = nat (Attempts (withDefaults policy))"
  obtain r k ds where R: "Retry fl u policy res wait = (r, k, ds)" by (metis prod_cases3)
  note s = Retry_spec [OF R n_def]
  have before: "res j \<noteq> None \<and> wait j = None" if "j \<in> {1..<k}" for j
    using s that by (cases j) (auto simp: stops_at_def)
  show ?thesis
  proof
    assume "fst (Retry fl u policy res wait) = None"
    then have "res k = None" using R s by (auto simp: stops_at_def split: if_splits)
    then show "\<exists>i\<in>{1..nat (Attempts (withDefaults policy))}. res i = None \<and> (\<forall>j\<in>{1..<i}. res j \<noteq> None \<and> wait j = None)"
      using s before by (intro bexI [of _ k]) (auto simp: n_def)
  next
    assume "\<exists>i\<in>{1..nat (Attempts (withDefaults policy))}. res i = None \<and> (\<forall>j\<in>{1..<i}. res j \<noteq> None \<and> wait j = None)"
    then obtain i where i: "1 \<le> i" "i \<le> n" "res i = None" "\<forall>j\<in>{1..<i}. res j \<noteq> None \<and> wait j = None"
      by (auto simp: n_def)
    have "k = i"
    proof (rule linorder_cases [of k i])
      assume "k < i"
      with i(4) s have "res k \<noteq> None \<and> wait k = None" by auto
      with s i(2) \<open>k < i\<close> show "k = i" by (auto simp: stops_at_def)
    next
      assume "i < k"
      with before [of i] i(1,3) show "k = i" by simp
    qed
    with s i(3) R show "fst (Retry fl u policy res wait) = None" by simp
  qed
qed

text \<open>A delay is never negative, and without jitter never over the maximum: what is relied on of rounding is that
  it is monotone and keeps zero.\<close>

lemma delay_nonneg: "0 \<le> delayForAttempt fl u p i"
  by (simp add: delayForAttempt_def Let_def)

lemma delay_max:
  assumes "JitterFraction p \<le> 0" "0 < MaxDelay p" "fl (of_int (MaxDelay p)) = of_int (MaxDelay p)"
  shows "delayForAttempt fl u p i \<le> MaxDelay p"
  using assms by (simp add: delayForAttempt_def Let_def floor_le_iff)

subsection \<open>Bounds\<close>

text \<open>What is relied on of rounding: it is monotone, and exact on the few whole numbers that occur.\<close>

definition fl_ok :: "(rat \<Rightarrow> rat) \<Rightarrow> duration \<Rightarrow> bool" where
  "fl_ok fl m \<longleftrightarrow> mono fl \<and> (\<forall>n\<in>{0, 1, 2, m, 2 * m}. fl (of_int n) = of_int n)"

lemma fl_le: "fl_ok fl m \<Longrightarrow> n \<in> {0, 1, 2, m, 2 * m} \<Longrightarrow> x \<le> of_int n \<Longrightarrow> fl x \<le> of_int n"
  by (metis fl_ok_def monoD)

lemma delay_bound:
  assumes f: "fl_ok fl (MaxDelay p)" and p: "0 < MaxDelay p" "0 \<le> InitialDelay p" "0 \<le> Multiplier p"
    "0 \<le> JitterFraction p" "JitterFraction p \<le> 1" and u: "u \<le> 1"
  shows "delayForAttempt fl u p i \<le> 2 * MaxDelay p"
proof -
  let ?m = "MaxDelay p"
  have pos: "0 \<le> fl x" if "0 \<le> x" for x using f that by (metis fl_ok_def insertI1 monoD of_int_0)
  have m: "fl (of_int ?m) = of_int ?m" using f by (simp add: fl_ok_def)
  define b0 where "b0 = fl (fl (of_int (InitialDelay p)) * fl (Multiplier p ^ (i - 1)))"
  define b1 where "b1 = (if b0 > fl (of_int ?m) then fl (of_int ?m) else b0)"
  define f1 where "f1 = fl (1 + fl (fl (fl (u * 2) - 1) * JitterFraction p))"
  have "0 \<le> b0" unfolding b0_def using p by (intro pos mult_nonneg_nonneg) simp_all
  then have b1: "0 \<le> b1" "b1 \<le> of_int ?m" using p(1) m by (auto simp: b1_def)
  have "fl (u * 2) \<le> of_int 2" by (rule fl_le [OF f]) (use u in simp_all)
  then have "fl (fl (u * 2) - 1) \<le> of_int 1" by (intro fl_le [OF f]) simp_all
  then have "fl (fl (u * 2) - 1) * JitterFraction p \<le> 1 * 1" using p(4,5) by (metis mult_mono mult_right_mono mult.left_neutral of_int_1 order_trans)
  then have "fl (fl (fl (u * 2) - 1) * JitterFraction p) \<le> of_int 1" by (intro fl_le [OF f]) simp_all
  then have f1: "f1 \<le> of_int 2" unfolding f1_def by (intro fl_le [OF f]) simp_all
  have "b1 * f1 \<le> b1 * 2" using b1(1) f1 by (simp add: mult_left_mono)
  also have "\<dots> \<le> of_int (2 * ?m)" using b1(2) by simp
  finally have b2: "fl (b1 * f1) \<le> of_int (2 * ?m)" by (intro fl_le [OF f]) simp_all
  have d: "delayForAttempt fl u p i = \<lfloor>let b2 = (if JitterFraction p > 0 then fl (b1 * f1) else b1) in if b2 < 0 then 0 else b2\<rfloor>"
    by (simp add: delayForAttempt_def b0_def b1_def f1_def Let_def)
  have "(let b2 = (if JitterFraction p > 0 then fl (b1 * f1) else b1) in if b2 < 0 then 0 else b2) \<le> (of_int (2 * ?m) :: rat)"
    using b1 b2 p(1) by (simp add: Let_def)
  then show ?thesis unfolding d by (simp add: floor_le_iff)
qed


definition sample_policy :: retry_policy where
  "sample_policy = \<lparr>Attempts = 2, InitialDelay = 100, MaxDelay = 150, Multiplier = 2, JitterFraction = 1 / 5\<rparr>"


subsection \<open>When the mode is degraded\<close>

definition dep_down :: "dependency \<Rightarrow> bool" where
  "dep_down d \<longleftrightarrow> (case Check d of None \<Rightarrow> True | Some (ms, err) \<Rightarrow> err \<noteq> None)"

lemma check_dependency_simps:
  "dr_Required (check_dependency d) = Required d" "dr_Name (check_dependency d) = dep_Name d"
  "dr_Status (check_dependency d) = DependencyDown \<longleftrightarrow> dep_down d"
  by (auto simp: check_dependency_def dep_down_def Let_def split: option.splits)

lemma degraded_loop_iff: "degraded_loop rs \<longleftrightarrow> (\<exists>r\<in>set rs. dr_Required r \<and> dr_Status r = DependencyDown)"
  by (induction rs) auto

lemma Snapshot_degraded_iff:
  "hs_Mode (Snapshot now m) = ModeDegradedControlPlane \<longleftrightarrow> (\<exists>d\<in>set (dependencies m). Required d \<and> dep_down d)"
  "hs_Status (Snapshot now m) = (if \<exists>d\<in>set (dependencies m). Required d \<and> dep_down d then ''degraded'' else ''healthy'')"
  "map dr_Name (Dependencies (Snapshot now m)) = map dep_Name (dependencies m)"
  by (auto simp: Snapshot_def Let_def degraded_loop_iff check_dependency_simps)

end
