(* ===== verification/Live_Urls.thy ===== *)
theory Live_Urls
  imports Go_Strings "HOL-Library.List_Lexorder" "HOL-Library.Char_ord" "HOL-Library.Multiset"
begin

section \<open>Playback addresses\<close>

text \<open>
  The MediaMTX client of \<open>internal/mediamtx/client.go\<close> and the addresses of \<open>internal/api/live_urls.go\<close> and
  of \<open>PublicOfferURL\<close> in \<open>internal/pionbridge/service.go\<close>, with what they use of \<open>net/url\<close>; and the limit
  parameter of \<open>internal/api/playback.go\<close>. The answer of a MediaMTX server is an argument: no answer, an error
  status, a body that does not decode, or the decoded items. \<open>fmt_g\<close> is the formatting of a floating-point
  number by \<open>%g\<close>.

  The main results: an address built for a stream key adds to the base only escaped path segments, none of
  them empty; every stream has an HLS address; the summary's counters agree with the listing; and a
  listing is cut to the requested limit only.
\<close>

subsection \<open>Escaping\<close>

definition alnum :: "char \<Rightarrow> bool" where
  "alnum c \<longleftrightarrow> (let n = of_char c :: nat in cont 97 122 n \<or> cont 65 90 n \<or> cont 48 57 n)"

definition path_unescaped :: "char \<Rightarrow> bool" where
  "path_unescaped c \<longleftrightarrow> alnum c \<or> c \<in> set ''-_.~$&+:=@''"

definition query_unescaped :: "char \<Rightarrow> bool" where
  "query_unescaped c \<longleftrightarrow> alnum c \<or> c \<in> set ''-_.~''"

definition upper_nibble :: "nat \<Rightarrow> char" where
  "upper_nibble d = (if d < 10 then char_of (48 + d) else char_of (55 + d))"

definition escape_byte :: "char \<Rightarrow> string" where
  "escape_byte c = (let n = of_char c :: nat in [CHR ''%'', upper_nibble (n div 16), upper_nibble (n mod 16)])"

definition PathEscape :: "string \<Rightarrow> string" where
  "PathEscape s = concat (map (\<lambda>c. if path_unescaped c then [c] else escape_byte c) s)"

definition QueryEscape :: "string \<Rightarrow> string" where
  "QueryEscape s = concat (map (\<lambda>c. if c = CHR '' '' then ''+'' else if query_unescaped c then [c] else escape_byte c) s)"

text \<open>\<open>Values.Encode\<close> sorts by key; the callers' keys are listed in that order.\<close>

fun encode_query :: "(string \<times> string) list \<Rightarrow> string" where
  "encode_query [] = ''''"
| "encode_query [(k, v)] = QueryEscape k @ ''='' @ QueryEscape v"
| "encode_query ((k, v) # kvs) = QueryEscape k @ ''='' @ QueryEscape v @ ''&'' @ encode_query kvs"

subsection \<open>The MediaMTX client\<close>

definition trimURL :: "string \<Rightarrow> string" where
  "trimURL raw = TrimRightSlash (TrimSpace raw)"

definition normalizePath :: "string \<Rightarrow> string" where
  "normalizePath p = TrimSlash (TrimSpace p)"

fun add_parts :: "string \<Rightarrow> string list \<Rightarrow> string" where
  "add_parts out [] = out"
| "add_parts out (part # parts) = (if part = '''' then add_parts out parts else add_parts (out @ ''/'' @ PathEscape part) parts)"

fun add_elems :: "string \<Rightarrow> string list \<Rightarrow> string" where
  "add_elems out [] = out"
| "add_elems out (e # es) =
     (let e' = normalizePath e in
      if e' = '''' then add_elems out es else add_elems (add_parts out (Split (CHR ''/'') e')) es)"

definition joinPath :: "string \<Rightarrow> string list \<Rightarrow> string" where
  "joinPath base elems = (if base = '''' then '''' else add_elems (TrimRightSlash base) elems)"

record mtx_config =
  mtx_Enabled :: bool
  APIBaseURL :: string
  HLSBaseURL :: string
  WebRTCBaseURL :: string
  RTSPBaseURL :: string
  RTMPBaseURL :: string
  PlaybackBaseURL :: string
  PlaybackFormat :: string

definition mtx_New :: "mtx_config \<Rightarrow> mtx_config option" where
  "mtx_New cfg =
     (if \<not> mtx_Enabled cfg then None
      else Some (cfg\<lparr>APIBaseURL := trimURL (APIBaseURL cfg), HLSBaseURL := trimURL (HLSBaseURL cfg),
        WebRTCBaseURL := trimURL (WebRTCBaseURL cfg), RTSPBaseURL := trimURL (RTSPBaseURL cfg),
        RTMPBaseURL := trimURL (RTMPBaseURL cfg), PlaybackBaseURL := trimURL (PlaybackBaseURL cfg),
        PlaybackFormat := (if PlaybackFormat cfg = '''' then ''mp4'' else PlaybackFormat cfg)\<rparr>))"

record live_urls =
  lu_StreamKey :: string
  lu_HLS :: string
  lu_WebRTC :: string
  lu_RTSP :: string
  lu_RTMP :: string

definition BuildLiveURLs :: "mtx_config \<Rightarrow> string \<Rightarrow> live_urls" where
  "BuildLiveURLs c streamKey =
     (let key = normalizePath streamKey in
      \<lparr>lu_StreamKey = key,
       lu_HLS = joinPath (HLSBaseURL c) [key, ''index.m3u8''],
       lu_WebRTC = joinPath (WebRTCBaseURL c) [key],
       lu_RTSP = joinPath (RTSPBaseURL c) [key],
       lu_RTMP = joinPath (RTMPBaseURL c) [key]\<rparr>)"

record path_info =
  p_Name :: string
  p_Ready :: bool
  p_Source :: string
  p_BytesReceived :: u64

datatype 'a http_answer = NoAnswer | ErrorStatus int | Undecodable | Decoded 'a

datatype mtx_err = BaseURLEmpty | RequestFailed | StatusError int | BadBody

definition ListPaths :: "path_info list http_answer \<Rightarrow> mtx_config \<Rightarrow> mtx_err + path_info list" where
  "ListPaths a c =
     (if APIBaseURL c = '''' then Inl BaseURLEmpty
      else case a of NoAnswer \<Rightarrow> Inl RequestFailed | ErrorStatus n \<Rightarrow> Inl (StatusError n) | Undecodable \<Rightarrow> Inl BadBody
        | Decoded items \<Rightarrow> Inr (sort_key p_Name items))"

text \<open>\<open>Ping\<close> and \<open>Health\<close> read no body.\<close>

definition Ping :: "unit http_answer \<Rightarrow> mtx_config \<Rightarrow> mtx_err option" where
  "Ping a c =
     (if APIBaseURL c = '''' then Some BaseURLEmpty
      else case a of NoAnswer \<Rightarrow> Some RequestFailed | ErrorStatus n \<Rightarrow> Some (StatusError n) | _ \<Rightarrow> None)"

record summary =
  PathCount :: nat
  ReadyPathCount :: nat
  s_BytesReceived :: u64
  s_Paths :: "path_info list"

fun sum_paths :: "path_info list \<Rightarrow> nat \<times> u64 \<Rightarrow> nat \<times> u64" where
  "sum_paths [] acc = acc"
| "sum_paths (p # ps) (n, b) = sum_paths ps (if p_Ready p then Suc n else n, b + p_BytesReceived p)"

definition Summary :: "path_info list http_answer \<Rightarrow> mtx_config \<Rightarrow> mtx_err + summary" where
  "Summary a c =
     (case ListPaths a c of
        Inl e \<Rightarrow> Inl e
      | Inr ps \<Rightarrow> (case sum_paths ps (0, 0) of (n, b) \<Rightarrow>
          Inr \<lparr>PathCount = length ps, ReadyPathCount = n, s_BytesReceived = b, s_Paths = ps\<rparr>))"

record 'd playback_segment =
  pg_Start :: string
  pg_Duration :: 'd
  pg_URL :: string

definition BuildPlaybackGetURL :: "('d \<Rightarrow> string) \<Rightarrow> mtx_config \<Rightarrow> string \<Rightarrow> string \<Rightarrow> 'd \<Rightarrow> string" where
  "BuildPlaybackGetURL fmt_g c streamKey start duration =
     (if PlaybackBaseURL c = '''' then ''''
      else PlaybackBaseURL c @ ''/get?'' @ encode_query [(''duration'', fmt_g duration), (''format'', PlaybackFormat c),
        (''path'', normalizePath streamKey), (''start'', start)])"

definition fillPlaybackURLs :: "('d \<Rightarrow> string) \<Rightarrow> mtx_config \<Rightarrow> string \<Rightarrow> 'd playback_segment list \<Rightarrow> 'd playback_segment list" where
  "fillPlaybackURLs fmt_g c streamKey =
     map (\<lambda>s. if pg_URL s = '''' then s\<lparr>pg_URL := BuildPlaybackGetURL fmt_g c streamKey (pg_Start s) (pg_Duration s)\<rparr> else s)"

text \<open>The body is a list of segments, or an object with such a list.\<close>

datatype 'd playback_body = Direct "'d playback_segment list" | Wrapped "'d playback_segment list"

definition ListPlaybackSegments ::
  "('d \<Rightarrow> string) \<Rightarrow> 'd playback_body http_answer \<Rightarrow> mtx_config \<Rightarrow> string \<Rightarrow> mtx_err + 'd playback_segment list" where
  "ListPlaybackSegments fmt_g a c streamKey =
     (if PlaybackBaseURL c = '''' then Inl BaseURLEmpty
      else let key = normalizePath streamKey in
        case a of
          NoAnswer \<Rightarrow> Inl RequestFailed
        | ErrorStatus n \<Rightarrow> Inl (StatusError n)
        | Undecodable \<Rightarrow> Inl BadBody
        | Decoded (Direct ss) \<Rightarrow> Inr (fillPlaybackURLs fmt_g c key ss)
        | Decoded (Wrapped ss) \<Rightarrow> Inr (fillPlaybackURLs fmt_g c key ss))"

subsection \<open>The server's addresses\<close>

definition PublicOfferURL :: "string \<Rightarrow> string \<Rightarrow> string" where
  "PublicOfferURL publicBase streamKey =
     TrimRightSlash (TrimSpace publicBase) @ ''/pion/webrtc/'' @ TrimSlash (TrimSpace streamKey) @ ''/offer''"

definition defaultHTTPBaseURL :: "string \<Rightarrow> string" where
  "defaultHTTPBaseURL addr =
     (let raw = TrimSpace addr in
      if raw = '''' then ''http://localhost:8080''
      else if HasPrefix raw ''http://'' \<or> HasPrefix raw ''https://'' then TrimRightSlash raw
      else if HasPrefix raw '':'' then ''http://localhost'' @ raw
      else ''http://'' @ TrimRightSlash raw)"

definition defaultHLSURL :: "string \<Rightarrow> string \<Rightarrow> string" where
  "defaultHLSURL addr streamKey =
     defaultHTTPBaseURL addr @ ''/hls/'' @ TrimSlash (TrimSpace streamKey) @ ''/index.m3u8''"

record resolved_urls =
  r_HLS :: string
  r_WebRTC :: string
  r_WebRTCOffer :: string
  r_RTSP :: string
  r_RTMP :: string

text \<open>\<open>mtx\<close> is the MediaMTX client and \<open>pion\<close> the public base of the WebRTC service, if configured.\<close>

definition resolveLiveURLs :: "mtx_config option \<Rightarrow> string option \<Rightarrow> string \<Rightarrow> string \<Rightarrow> resolved_urls" where
  "resolveLiveURLs mtx pion addr streamKey =
     (let key = TrimSlash (TrimSpace streamKey);
          out0 = \<lparr>r_HLS = '''', r_WebRTC = '''', r_WebRTCOffer = '''', r_RTSP = '''', r_RTMP = ''''\<rparr>;
          out1 = (case mtx of
            None \<Rightarrow> out0
          | Some c \<Rightarrow> let u = BuildLiveURLs c key in
              out0\<lparr>r_HLS := lu_HLS u, r_WebRTC := lu_WebRTC u, r_RTSP := lu_RTSP u, r_RTMP := lu_RTMP u\<rparr>);
          out2 = (case pion of
            None \<Rightarrow> out1
          | Some b \<Rightarrow> out1\<lparr>r_WebRTCOffer := PublicOfferURL b key, r_WebRTC := PublicOfferURL b key\<rparr>) in
      if r_HLS out2 = '''' then out2\<lparr>r_HLS := defaultHLSURL addr key\<rparr> else out2)"

subsection \<open>Limits\<close>

text \<open>\<open>strconv.Atoi\<close> on a 64-bit platform; \<open>None\<close> is its error.\<close>

definition Atoi :: "string \<Rightarrow> int option" where
  "Atoi s =
     (let (neg, ds) = (case s of [] \<Rightarrow> (False, []) | c # cs \<Rightarrow>
            if c = CHR ''-'' then (True, cs) else if c = CHR ''+'' then (False, cs) else (False, s)) in
      if ds = [] \<or> \<not> list_all (\<lambda>c. cont 48 57 (of_char c :: nat)) ds then None
      else let v = (if neg then - int (read_nat 0 ds) else int (read_nat 0 ds)) in
        if - (2 ^ 63) \<le> v \<and> v < 2 ^ 63 then Some v else None)"

definition parseLimit :: "string \<Rightarrow> nat \<Rightarrow> nat" where
  "parseLimit raw fallback =
     (if raw = '''' then fallback
      else case Atoi raw of
        None \<Rightarrow> fallback
      | Some l \<Rightarrow> if l \<le> 0 then fallback else if l > int fallback then fallback else nat l)"

text \<open>The cut that the two listings of recordings make.\<close>

definition limited :: "string \<Rightarrow> 'a list \<Rightarrow> 'a list" where
  "limited raw xs = (let l = parseLimit raw (length xs) in if l < length xs then take l xs else xs)"

subsection \<open>Reading an escaped segment back\<close>

definition nibble_value :: "char \<Rightarrow> nat option" where
  "nibble_value c = (let n = of_char c :: nat in
     if cont 48 57 n then Some (n - 48) else if cont 65 70 n then Some (n - 55) else if cont 97 102 n then Some (n - 87) else None)"

fun PathUnescape :: "string \<Rightarrow> string option" where
  "PathUnescape [] = Some []"
| "PathUnescape (c # cs) =
     (if c = CHR ''%'' then
        (case cs of
           a # b # rest \<Rightarrow>
             (case (nibble_value a, nibble_value b) of
                (Some x, Some y) \<Rightarrow> map_option ((#) (char_of (16 * x + y))) (PathUnescape rest)
              | _ \<Rightarrow> None)
         | _ \<Rightarrow> None)
      else map_option ((#) c) (PathUnescape cs))"

lemma nibble_value_upper [simp]: "d < 16 \<Longrightarrow> nibble_value (upper_nibble d) = Some d"
  by (auto simp: nibble_value_def upper_nibble_def Let_def)

lemma byte_nibbles: "(of_char c :: nat) div 16 < 16" "(of_char c :: nat) mod 16 < 16"
  "char_of (16 * ((of_char c :: nat) div 16) + (of_char c :: nat) mod 16) = c"
proof -
  have "(of_char c :: nat) < 256" by (rule nat_of_char_less_256)
  then show "(of_char c :: nat) div 16 < 16" by (simp only: div_less_iff_less_mult)
  show "char_of (16 * ((of_char c :: nat) div 16) + (of_char c :: nat) mod 16) = c" by simp
qed simp

lemma PathUnescape_escaped: "PathUnescape (escape_byte c @ s) = map_option ((#) c) (PathUnescape s)"
  using byte_nibbles [of c] by (simp add: escape_byte_def Let_def)

lemma percent_escaped: "\<not> path_unescaped (CHR ''%'')"
  by (simp add: path_unescaped_def alnum_def)

lemma PathUnescape_PathEscape [simp]: "PathUnescape (PathEscape s) = Some s"
proof (induction s)
  case (Cons c s)
  then show ?case
    using percent_escaped PathUnescape_escaped [of c "PathEscape s"] by (auto simp: PathEscape_def)
qed (simp add: PathEscape_def)

lemma upper_nibble_alnum: "d < 16 \<Longrightarrow> alnum (upper_nibble d)"
  by (simp add: upper_nibble_def alnum_def Let_def)

lemma PathEscape_chars: "c \<in> set (PathEscape s) \<Longrightarrow> path_unescaped c \<or> c = CHR ''%''"
  using upper_nibble_alnum byte_nibbles(1,2)
  by (auto simp: PathEscape_def escape_byte_def Let_def path_unescaped_def split: if_splits)

lemma PathEscape_no_slash: "CHR ''/'' \<notin> set (PathEscape s)"
  using PathEscape_chars [of "CHR ''/''" s] by (auto simp: path_unescaped_def alnum_def)

subsection \<open>The shape of an address\<close>

definition key_segments :: "string \<Rightarrow> string list" where
  "key_segments key = filter (\<lambda>p. p \<noteq> '''') (Split (CHR ''/'') (normalizePath key))"

definition slashed :: "string list \<Rightarrow> string" where
  "slashed ps = concat (map (\<lambda>p. CHR ''/'' # PathEscape p) ps)"

lemma slashed_append [simp]: "slashed (ps @ qs) = slashed ps @ slashed qs" "slashed [] = ''''"
  by (simp_all add: slashed_def)

lemma add_parts_shape: "add_parts out ps = out @ slashed (filter (\<lambda>p. p \<noteq> '''') ps)"
  by (induction ps arbitrary: out) (auto simp: slashed_def)

lemma add_elems_shape: "add_elems out es = out @ slashed (concat (map key_segments es))"
  by (induction es arbitrary: out) (auto simp: add_parts_shape key_segments_def Let_def)

lemma joinPath_shape: "base \<noteq> '''' \<Longrightarrow> joinPath base es = TrimRightSlash base @ slashed (concat (map key_segments es))"
  by (simp add: joinPath_def add_elems_shape)

lemma Split_slashed: "tl (Split (CHR ''/'') (slashed ps)) = map PathEscape ps"
proof -
  have "Split (CHR ''/'') (slashed ps) = '''' # map PathEscape ps"
  proof (induction ps)
    case (Cons p ps)
    have "Split (CHR ''/'') (PathEscape p @ slashed ps) = PathEscape p # map PathEscape ps"
    proof (cases ps)
      case Nil
      then show ?thesis using Split_none [OF PathEscape_no_slash] by (simp add: slashed_def)
    next
      case (Cons q qs)
      with Cons.IH have "Split (CHR ''/'') (PathEscape q @ slashed qs) = map PathEscape ps" by (simp add: slashed_def)
      then show ?thesis using Cons Split_append [OF PathEscape_no_slash] by (simp add: slashed_def)
    qed
    then show ?case by (simp add: slashed_def)
  qed (simp add: slashed_def)
  then show ?thesis by simp
qed

text \<open>What is left of an address after the base: its path segments.\<close>

definition url_segments :: "string \<Rightarrow> string \<Rightarrow> string option list" where
  "url_segments base u = map PathUnescape (tl (Split (CHR ''/'') (drop (length (TrimRightSlash base)) u)))"

lemma url_segments_joinPath:
  "base \<noteq> '''' \<Longrightarrow> url_segments base (joinPath base es) = map Some (concat (map key_segments es))"
  by (simp add: url_segments_def joinPath_shape Split_slashed comp_def)

lemma index_segments: "key_segments ''index.m3u8'' = [''index.m3u8'']"
  by (simp add: key_segments_def normalizePath_def TrimSpace_plain plain_def TrimSlash_def TrimRightSlash_def)


definition sample_mtx :: mtx_config where
  "sample_mtx = \<lparr>mtx_Enabled = True, APIBaseURL = ''http://m:9997'', HLSBaseURL = ''http://m:8888'', WebRTCBaseURL = '''',
     RTSPBaseURL = ''rtsp://m:8554'', RTMPBaseURL = '''', PlaybackBaseURL = '''', PlaybackFormat = ''mp4''\<rparr>"


text \<open>The server's own addresses insert the key as it is: a key with a question mark names another resource.\<close>

lemma default_url_not_escaped: "defaultHLSURL '':8080'' ''a?b'' = ''http://localhost:8080/hls/a?b/index.m3u8''"
  by (simp add: defaultHLSURL_def defaultHTTPBaseURL_def TrimSpace_plain plain_def TrimSlash_def TrimRightSlash_def)

lemma offer_url_not_escaped: "PublicOfferURL ''http://h'' ''a?b'' = ''http://h/pion/webrtc/a?b/offer''"
  by (simp add: PublicOfferURL_def TrimSpace_plain plain_def TrimSlash_def TrimRightSlash_def)

subsection \<open>Resolution, summary and limits\<close>

text \<open>Every stream has an HLS address; a configured WebRTC service always takes over both WebRTC addresses.\<close>

lemma resolved_HLS: "r_HLS (resolveLiveURLs mtx pion addr key) \<noteq> ''''"
  by (simp add: resolveLiveURLs_def Let_def defaultHLSURL_def split: option.splits)

lemma resolved_pion:
  "r_WebRTC (resolveLiveURLs mtx (Some b) addr key) = PublicOfferURL b (TrimSlash (TrimSpace key))"
  "r_WebRTCOffer (resolveLiveURLs mtx (Some b) addr key) = r_WebRTC (resolveLiveURLs mtx (Some b) addr key)"
  by (simp_all add: resolveLiveURLs_def Let_def split: option.splits)

lemma sum_paths_spec:
  "sum_paths ps (n, b) = (n + length (filter p_Ready ps), b + sum_list (map p_BytesReceived ps))"
  by (induction ps arbitrary: n b) auto

text \<open>The summary agrees with the listing it was made from; the byte count wraps at 64 bits.\<close>

lemma Summary_spec:
  "Summary (Decoded items) c = (if APIBaseURL c = '''' then Inl BaseURLEmpty else
     Inr \<lparr>PathCount = length items, ReadyPathCount = length (filter p_Ready items),
       s_BytesReceived = sum_list (map p_BytesReceived items), s_Paths = sort_key p_Name items\<rparr>)"
proof -
  have "length (filter p_Ready (sort_key p_Name items)) = length (filter p_Ready items)"
    by (metis filter_sort length_sort)
  moreover have "mset (map p_BytesReceived (sort_key p_Name items)) = mset (map p_BytesReceived items)" by simp
  then have "sum_list (map p_BytesReceived (sort_key p_Name items)) = sum_list (map p_BytesReceived items)"
    by (metis sum_mset_sum_list)
  ultimately show ?thesis by (simp add: Summary_def ListPaths_def sum_paths_spec)
qed

lemma parseLimit_le: "parseLimit raw n \<le> n"
  by (auto simp: parseLimit_def split: option.splits)

lemma parseLimit_number: "Atoi raw = Some l \<Longrightarrow> 0 < l \<Longrightarrow> parseLimit raw n = min (nat l) n"
  by (auto simp: parseLimit_def Atoi_def)

lemma limited_spec: "limited raw xs = take (parseLimit raw (length xs)) xs"
  by (simp add: limited_def Let_def)

end
