(* ===== verification/Live_Sessions.thy ===== *)
theory Live_Sessions
  imports Lease Idempotency Retry_Health Live_Urls Stream_Manager
begin

section \<open>Live sessions\<close>

text \<open>
  \<open>internal/api/session.go\<close>: creating a session lease for a stream, and reattaching with its token. The
  handlers compose the leases, the idempotency store, the retry loop, the health monitor and the playback
  addresses. A request carries what the environment decides: the decoded body, the answers of
  MediaMTX and the ends of the waits, the clock at the steps that read it, and the fresh lease id. \<open>json\<close> is
  the encoder of a response. A caller that finds another one producing for its key waits there; the
  interleavings of such callers are the subject of \<open>Idempotency\<close>.

  The main results: a created session can be reattached until its lease ends, to the same stream and
  viewer; and a repeated idempotency key hands a session to whoever repeats it.
\<close>

record create_session_request =
  q_TenantID :: string
  q_DeviceID :: string
  q_ViewerID :: string
  q_PreferredProtocol :: string
  q_LastKnownEndpoint :: string

record session_urls =
  su_HLS :: string
  su_WebRTC :: string
  su_WebRTCOffer :: string

record reconnect_policy =
  InitialDelayMs :: int
  MaxDelayMs :: int
  rp_Multiplier :: rat
  MaxAttempts :: int
  rp_JitterFraction :: rat

definition defaultReconnectPolicy :: reconnect_policy where
  "defaultReconnectPolicy = \<lparr>InitialDelayMs = 200, MaxDelayMs = 5000, rp_Multiplier = 2, MaxAttempts = 6, rp_JitterFraction = 1 / 5\<rparr>"

record session_response =
  sr_SessionID :: string
  sr_StreamKey :: string
  sr_TenantID :: string
  sr_DeviceID :: string
  sr_ViewerID :: string
  RouteStatus :: string
  sr_Mode :: health_mode
  sr_ControlPlaneBackend :: string
  sr_IssuedAt :: time
  sr_LeaseExpiresAt :: time
  ReattachToken :: string
  sr_URLs :: session_urls
  sr_RetryPolicy :: reconnect_policy
  Warning :: string

definition normalizeLabelValue :: "string \<Rightarrow> string \<Rightarrow> string" where
  "normalizeLabelValue v fallback = (let cleaned = TrimSpace v in if cleaned = '''' then fallback else cleaned)"

definition normalizeCreateSessionRequest :: "create_session_request \<Rightarrow> string \<Rightarrow> create_session_request" where
  "normalizeCreateSessionRequest req streamKey =
     \<lparr>q_TenantID = normalizeLabelValue (q_TenantID req) ''default'',
      q_DeviceID = normalizeLabelValue (if q_DeviceID req = '''' then streamKey else q_DeviceID req) streamKey,
      q_ViewerID = normalizeLabelValue (q_ViewerID req) ''anonymous'',
      q_PreferredProtocol = (let p = ToLower (TrimSpace (q_PreferredProtocol req)) in
         if p = ''hls'' \<or> p = ''webrtc'' then p else ''hls''),
      q_LastKnownEndpoint = TrimSpace (q_LastKnownEndpoint req)\<rparr>"

subsection \<open>Routing\<close>

record session_server =
  ss_mtx :: "mtx_config option"
  ss_pion :: "string option"
  ss_addr :: string
  ss_monitor :: health_monitor
  ss_lease :: lease_config

datatype route_err = RouteNotFound | RouteMediaMTX mtx_err | RouteCancelled

text \<open>What the environment answers while the route is looked up: attempt by attempt the paths of MediaMTX, and
  whether the request ends during a wait.\<close>

record route_env =
  re_paths :: "nat \<Rightarrow> path_info list http_answer"
  re_cancelled :: "nat \<Rightarrow> bool"
  re_round :: "rat \<Rightarrow> rat"
  re_random :: "nat \<Rightarrow> rat"

definition route_policy :: retry_policy where
  "route_policy = \<lparr>Attempts = 3, InitialDelay = 120 * millisecond, MaxDelay = 900 * millisecond, Multiplier = 2, JitterFraction = 1 / 5\<rparr>"

definition find_path :: "mtx_config \<Rightarrow> string \<Rightarrow> path_info list http_answer \<Rightarrow> route_err option" where
  "find_path c key a =
     (case ListPaths a c of
        Inl e \<Rightarrow> Some (RouteMediaMTX e)
      | Inr ps \<Rightarrow> if list_ex (\<lambda>p. p_Name p = key \<and> p_Ready p) ps then None else Some RouteNotFound)"

definition ensureStreamReady :: "session_server \<Rightarrow> manager \<Rightarrow> route_env \<Rightarrow> string \<Rightarrow> route_err option" where
  "ensureStreamReady srv m env streamKey =
     (let key = TrimSlash (TrimSpace streamKey) in
      if key = '''' then Some RouteNotFound
      else if Get key m \<noteq> None then None
      else case ss_mtx srv of
        None \<Rightarrow> Some RouteNotFound
      | Some c \<Rightarrow> fst (Retry (re_round env) (re_random env) route_policy (\<lambda>i. find_path c key (re_paths env i))
          (\<lambda>i. if re_cancelled env i then Some RouteCancelled else None)))"

subsection \<open>Responses\<close>

definition buildSessionResponse :: "lease \<Rightarrow> string \<Rightarrow> health_mode \<Rightarrow> string \<Rightarrow> string \<Rightarrow> session_response" where
  "buildSessionResponse l token mode status warning =
     \<lparr>sr_SessionID = LeaseID l, sr_StreamKey = l_StreamKey l, sr_TenantID = TenantID l, sr_DeviceID = DeviceID l,
      sr_ViewerID = ViewerID l, RouteStatus = status, sr_Mode = mode, sr_ControlPlaneBackend = ControlPlaneBackend l,
      sr_IssuedAt = l_IssuedAt l, sr_LeaseExpiresAt = l_ExpiresAt l, ReattachToken = token,
      sr_URLs = \<lparr>su_HLS = HLSURL l, su_WebRTC = WebRTCURL l, su_WebRTCOffer = WebRTCOfferURL l\<rparr>,
      sr_RetryPolicy = defaultReconnectPolicy, Warning = warning\<rparr>"

definition session_urls_of :: "resolved_urls \<Rightarrow> session_urls" where
  "session_urls_of u = \<lparr>su_HLS = r_HLS u, su_WebRTC = r_WebRTC u, su_WebRTCOffer = r_WebRTCOffer u\<rparr>"

definition lease_input_of :: "session_server \<Rightarrow> string \<Rightarrow> create_session_request \<Rightarrow> lease_input" where
  "lease_input_of srv key req =
     (let u = resolveLiveURLs (ss_mtx srv) (ss_pion srv) (ss_addr srv) key in
      \<lparr>in_StreamKey = key, in_TenantID = q_TenantID req, in_DeviceID = q_DeviceID req, in_ViewerID = q_ViewerID req,
       in_PreferredProtocol = q_PreferredProtocol req, in_LastKnownEndpoint = q_LastKnownEndpoint req,
       in_HLSURL = r_HLS u, in_WebRTCURL = r_WebRTC u, in_WebRTCOfferURL = r_WebRTCOffer u\<rparr>)"

text \<open>\<open>issueSession\<close>; the memory store cannot fail.\<close>

definition issueSession ::
  "(token_claims \<Rightarrow> string) \<Rightarrow> (string \<Rightarrow> string) \<Rightarrow> session_server \<Rightarrow> string \<Rightarrow> time \<Rightarrow> string \<Rightarrow> create_session_request
    \<Rightarrow> lease_items \<Rightarrow> session_response \<times> lease_items" where
  "issueSession enc mac srv uid now key req ls =
     (case Issue enc mac (ss_lease srv) uid now (lease_input_of srv key req) ls of
        ((l, token), ls') \<Rightarrow> (buildSessionResponse l token (hs_Mode (Snapshot now (ss_monitor srv))) ''live'' '''', ls'))"

subsection \<open>The idempotent call\<close>

text \<open>\<open>IdempotencyStore.Do\<close> for a caller that does not have to wait: \<open>now\<close> is the clock at the lookup and \<open>later\<close>
  at the end of the producer.\<close>

datatype do_outcome = MustWait | Answer response bool

definition DoCall ::
  "time \<Rightarrow> time \<Rightarrow> string list \<Rightarrow> string \<Rightarrow> ('s \<Rightarrow> response \<times> 's) \<Rightarrow> idem_store \<Rightarrow> 's \<Rightarrow> do_outcome \<times> idem_store \<times> 's" where
  "DoCall now later ks key produce st s =
     (if key = '''' then (case produce s of (r, s') \<Rightarrow> (Answer r False, st, s'))
      else case prepareEntry now ks key st of
        (Replay r, st') \<Rightarrow> (Answer r True, st', s)
      | (Wait i, st') \<Rightarrow> (MustWait, st', s)
      | (Produce i, st') \<Rightarrow> (case produce s of (r, s') \<Rightarrow> (Answer r False, finalizeEntry later key i r None st', s')))"

subsection \<open>Creating a session\<close>

datatype 'a decoded_body = EmptyBody | InvalidBody | JsonBody 'a

definition empty_request :: create_session_request where
  "empty_request = \<lparr>q_TenantID = '''', q_DeviceID = '''', q_ViewerID = '''', q_PreferredProtocol = '''', q_LastKnownEndpoint = ''''\<rparr>"

definition decodeOptionalJSON :: "create_session_request decoded_body \<Rightarrow> create_session_request option" where
  "decodeOptionalJSON b = (case b of EmptyBody \<Rightarrow> Some empty_request | InvalidBody \<Rightarrow> None | JsonBody r \<Rightarrow> Some r)"

definition session_cache_key :: "string \<Rightarrow> string \<Rightarrow> string" where
  "session_cache_key key idem = (if idem = '''' then '''' else ''live-session:'' @ key @ '':'' @ idem)"

record create_call =
  cc_key :: string
  cc_body :: "create_session_request decoded_body"
  cc_idem :: string
  cc_uid :: string
  cc_now :: time
  cc_issue :: time
  cc_later :: time
  cc_keys :: "string list"
  cc_route :: route_env

record session_state =
  st_manager :: manager
  st_leases :: lease_items
  st_idem :: idem_store

datatype session_reply = Refused int | Blocked | Replied int bool bytes

definition session_answer ::
  "(session_response \<Rightarrow> bytes) \<Rightarrow> (token_claims \<Rightarrow> string) \<Rightarrow> (string \<Rightarrow> string) \<Rightarrow> session_server \<Rightarrow> create_call \<Rightarrow> string
    \<Rightarrow> create_session_request \<Rightarrow> lease_items \<Rightarrow> response \<times> lease_items" where
  "session_answer json enc mac srv c key req ls =
     (case issueSession enc mac srv (cc_uid c) (cc_issue c) key req ls of
        (p, ls') \<Rightarrow> (\<lparr>StatusCode = 201, ContentType = ''application/json'', Body = json p\<rparr>, ls'))"

definition createLiveSession ::
  "(session_response \<Rightarrow> bytes) \<Rightarrow> (token_claims \<Rightarrow> string) \<Rightarrow> (string \<Rightarrow> string) \<Rightarrow> session_server \<Rightarrow> create_call
    \<Rightarrow> session_state \<Rightarrow> session_reply \<times> session_state" where
  "createLiveSession json enc mac srv c st =
     (let key = TrimSpace (cc_key c) in
      if key = '''' then (Refused 400, st)
      else case decodeOptionalJSON (cc_body c) of
        None \<Rightarrow> (Refused 400, st)
      | Some req0 \<Rightarrow>
          (let req = normalizeCreateSessionRequest req0 key in
           case ensureStreamReady srv (st_manager st) (cc_route c) key of
             Some RouteNotFound \<Rightarrow> (Refused 404, st)
           | Some _ \<Rightarrow> (Refused 502, st)
           | None \<Rightarrow>
               (case DoCall (cc_now c) (cc_later c) (cc_keys c) (session_cache_key key (TrimSpace (cc_idem c)))
                   (session_answer json enc mac srv c key req) (st_idem st) (st_leases st) of
                  (MustWait, idem, ls) \<Rightarrow> (Blocked, st\<lparr>st_idem := idem\<rparr>)
                | (Answer r replayed, idem, ls) \<Rightarrow>
                    (Replied (StatusCode r) replayed (Body r), st\<lparr>st_idem := idem, st_leases := ls\<rparr>))))"

subsection \<open>Reattaching\<close>

record reattach_call =
  rc_body :: "string decoded_body"
  rc_now :: time
  rc_route :: route_env

datatype reattach_reply = ReattachRefused int | Reattached session_response

definition lease_err_status :: "lease_err \<Rightarrow> int" where
  "lease_err_status e = (case e of ErrInvalidToken \<Rightarrow> 401 | ErrLeaseExpired \<Rightarrow> 410 | ErrLeaseMissing \<Rightarrow> 404)"

definition reattachLiveSession ::
  "(token_claims \<Rightarrow> string) \<Rightarrow> (string \<Rightarrow> token_claims option) \<Rightarrow> (string \<Rightarrow> string) \<Rightarrow> session_server \<Rightarrow> reattach_call
    \<Rightarrow> session_state \<Rightarrow> reattach_reply \<times> session_state" where
  "reattachLiveSession enc dec mac srv c st =
     (case rc_body c of
        EmptyBody \<Rightarrow> (ReattachRefused 400, st)
      | InvalidBody \<Rightarrow> (ReattachRefused 400, st)
      | JsonBody raw \<Rightarrow>
          (let token = TrimSpace raw in
           if token = '''' then (ReattachRefused 400, st)
           else case Reattach enc dec mac (ss_lease srv) (rc_now c) token (st_leases st) of
             (Inl e, ls) \<Rightarrow> (ReattachRefused (lease_err_status e), st\<lparr>st_leases := ls\<rparr>)
           | (Inr (l, renewed), ls) \<Rightarrow>
               (let mode = hs_Mode (Snapshot (rc_now c) (ss_monitor srv));
                    routed = ensureStreamReady srv (st_manager st) (rc_route c) (l_StreamKey l) = None;
                    resp = buildSessionResponse l renewed mode (if routed then ''live'' else ''last_known'')
                      (if routed then '''' else ''stream not currently routable, using last known endpoint'') in
                (Reattached (if routed
                    then resp\<lparr>sr_URLs := session_urls_of (resolveLiveURLs (ss_mtx srv) (ss_pion srv) (ss_addr srv) (l_StreamKey l))\<rparr>
                    else resp),
                 st\<lparr>st_leases := ls\<rparr>))))"

subsection \<open>Repeated calls\<close>

lemma prepareEntry_new:
  assumes "entries st key = None"
  shows "prepareEntry now ks key st =
    (Produce (length (idem_store.objs st)), enforceMaxKeys ks (insert_entry now key (gc now st)))"
  using assms shrinks_gc [of st now] by (auto simp: prepareEntry_def Let_def shrinks_def gc_def)

lemma finalize_new:
  assumes "entries st key = None"
    and "st' = finalizeEntry later key (length (idem_store.objs st)) r None (enforceMaxKeys ks (insert_entry now key (gc now st)))"
  shows "\<exists>i. entries st' key = Some i \<and> ready (idem_store.objs st' ! i) \<and> response (idem_store.objs st' ! i) = r \<and>
    expiresAt (idem_store.objs st' ! i) = later + ttl st"
proof -
  let ?s = "insert_entry now key (gc now st)" and ?n = "length (idem_store.objs st)"
  have s: "entries ?s key = Some ?n" "\<not> ready (idem_store.objs ?s ! ?n)" "length (idem_store.objs ?s) = Suc ?n" "ttl ?s = ttl st"
    by (simp_all add: insert_entry_def gc_def)
  have sh: "shrinks ?s (enforceMaxKeys ks ?s)" by (rule shrinks_enforce)
  then have "\<And>k i. entries ?s k = Some i \<Longrightarrow> \<not> ready (idem_store.objs ?s ! i) \<Longrightarrow> entries (enforceMaxKeys ks ?s) k = Some i"
    unfolding shrinks_def by blast
  with s have "entries (enforceMaxKeys ks ?s) key = Some ?n" by blast
  moreover have "idem_store.objs (enforceMaxKeys ks ?s) = idem_store.objs ?s" "ttl (enforceMaxKeys ks ?s) = ttl st"
    using sh s(4) by (simp_all add: shrinks_def)
  ultimately show ?thesis using s assms(2) by (simp add: finalizeEntry_def)
qed

lemma prepareEntry_replay:
  assumes "entries st key = Some i" "ready (idem_store.objs st ! i)" "now < expiresAt (idem_store.objs st ! i)"
  shows "prepareEntry now ks key st = (Replay (response (idem_store.objs st ! i)), gc now st)"
  using assms by (simp add: prepareEntry_def Let_def gc_def replayResponse_def)

lemma DoCall_first:
  fixes s :: 's
  assumes "key = '''' \<or> entries st key = None" "produce s = (r, s')"
  shows "\<exists>st'. DoCall now later ks key produce st s = (Answer r False, st', s') \<and>
    (key \<noteq> '''' \<longrightarrow> (\<forall>now2 later2 ks2 produce2 (s2 :: 's). now2 < later + ttl st \<longrightarrow>
       DoCall now2 later2 ks2 key produce2 st' s2 = (Answer r True, gc now2 st', s2)))"
proof (cases "key = ''''")
  case False
  let ?st = "finalizeEntry later key (length (idem_store.objs st)) r None (enforceMaxKeys ks (insert_entry now key (gc now st)))"
  have st: "entries st key = None" using assms(1) False by simp
  from finalize_new [OF st refl, of later r ks now] obtain i where
    "entries ?st key = Some i" "ready (idem_store.objs ?st ! i)" "response (idem_store.objs ?st ! i) = r" "expiresAt (idem_store.objs ?st ! i) = later + ttl st"
    by blast
  then have "now2 < later + ttl st \<Longrightarrow> DoCall now2 later2 ks2 key produce2 ?st s2 = (Answer r True, gc now2 ?st, s2)"
    for now2 later2 ks2 produce2 and s2 :: 's
    using False prepareEntry_replay [of ?st key i now2 ks2] by (simp add: DoCall_def)
  moreover have "DoCall now later ks key produce st s = (Answer r False, ?st, s')"
    using False assms(2) prepareEntry_new [OF st, of now ks] by (simp add: DoCall_def)
  ultimately show ?thesis by blast
qed (use assms(2) in \<open>simp add: DoCall_def\<close>)

subsection \<open>What a call creates\<close>

definition session_lease :: "session_server \<Rightarrow> create_call \<Rightarrow> create_session_request \<Rightarrow> lease" where
  "session_lease srv c req0 =
     (let key = TrimSpace (cc_key c) in
      new_lease (ss_lease srv) (cc_uid c) (cc_issue c) (lease_input_of srv key (normalizeCreateSessionRequest req0 key)))"

definition first_response ::
  "(token_claims \<Rightarrow> string) \<Rightarrow> (string \<Rightarrow> string) \<Rightarrow> session_server \<Rightarrow> create_call \<Rightarrow> create_session_request \<Rightarrow> session_response" where
  "first_response enc mac srv c req0 =
     (let l = session_lease srv c req0 in
      buildSessionResponse l (signToken enc mac (claims_of l)) (hs_Mode (Snapshot (cc_issue c) (ss_monitor srv))) ''live'' '''')"

text \<open>A call with a trimmed key that is routed, a body that decodes, and an idempotency key that is new.\<close>

definition create_ok :: "session_server \<Rightarrow> create_call \<Rightarrow> create_session_request \<Rightarrow> session_state \<Rightarrow> bool" where
  "create_ok srv c req0 st \<longleftrightarrow> TrimSpace (cc_key c) \<noteq> '''' \<and> decodeOptionalJSON (cc_body c) = Some req0 \<and>
     ensureStreamReady srv (st_manager st) (cc_route c) (TrimSpace (cc_key c)) = None"

definition call_cache_key :: "create_call \<Rightarrow> string" where
  "call_cache_key c = session_cache_key (TrimSpace (cc_key c)) (TrimSpace (cc_idem c))"

lemma session_answer_first:
  assumes "create_ok srv c req0 st"
  shows "session_answer json enc mac srv c (TrimSpace (cc_key c)) (normalizeCreateSessionRequest req0 (TrimSpace (cc_key c))) ls =
    (\<lparr>StatusCode = 201, ContentType = ''application/json'', Body = json (first_response enc mac srv c req0)\<rparr>,
     mem_save (cc_issue c) (session_lease srv c req0) ls)"
  by (simp add: session_answer_def issueSession_def Issue_def first_response_def session_lease_def Let_def)

lemma createLiveSession_do:
  assumes "create_ok srv c req0 st"
    and "DoCall (cc_now c) (cc_later c) (cc_keys c) (call_cache_key c)
      (session_answer json enc mac srv c (TrimSpace (cc_key c)) (normalizeCreateSessionRequest req0 (TrimSpace (cc_key c))))
      (st_idem st) (st_leases st) = (Answer r replayed, idem, ls)"
  shows "createLiveSession json enc mac srv c st =
    (Replied (StatusCode r) replayed (Body r), st\<lparr>st_idem := idem, st_leases := ls\<rparr>)"
  using assms by (simp add: createLiveSession_def create_ok_def call_cache_key_def Let_def)

lemma createLiveSession_first:
  assumes ok: "create_ok srv c req0 st" and new: "call_cache_key c = '''' \<or> entries (st_idem st) (call_cache_key c) = None"
  shows "\<exists>st'. createLiveSession json enc mac srv c st = (Replied 201 False (json (first_response enc mac srv c req0)), st') \<and>
    st_leases st' = mem_save (cc_issue c) (session_lease srv c req0) (st_leases st) \<and> st_manager st' = st_manager st \<and>
    (call_cache_key c \<noteq> '''' \<longrightarrow> (\<forall>c2 req2 st2. call_cache_key c2 = call_cache_key c \<and> cc_now c2 < cc_later c + ttl (st_idem st) \<and>
       st_idem st2 = st_idem st' \<and> create_ok srv c2 req2 st2 \<longrightarrow>
       fst (createLiveSession json enc mac srv c2 st2) = Replied 201 True (json (first_response enc mac srv c req0)) \<and>
       st_leases (snd (createLiveSession json enc mac srv c2 st2)) = st_leases st2))"
proof -
  let ?r = "\<lparr>StatusCode = 201, ContentType = ''application/json'', Body = json (first_response enc mac srv c req0)\<rparr>"
  from DoCall_first [where now = "cc_now c" and later = "cc_later c" and ks = "cc_keys c" and s = "st_leases st"
      and produce = "session_answer json enc mac srv c (TrimSpace (cc_key c)) (normalizeCreateSessionRequest req0 (TrimSpace (cc_key c)))",
      OF new session_answer_first [OF ok, of json enc mac "st_leases st"]] obtain idem where
    d: "DoCall (cc_now c) (cc_later c) (cc_keys c) (call_cache_key c)
      (session_answer json enc mac srv c (TrimSpace (cc_key c)) (normalizeCreateSessionRequest req0 (TrimSpace (cc_key c))))
      (st_idem st) (st_leases st) = (Answer ?r False, idem, mem_save (cc_issue c) (session_lease srv c req0) (st_leases st))"
    and rep: "call_cache_key c \<noteq> '''' \<longrightarrow> (\<forall>now2 later2 ks2 produce2 (s2 :: lease_items). now2 < cc_later c + ttl (st_idem st) \<longrightarrow>
       DoCall now2 later2 ks2 (call_cache_key c) produce2 idem s2 = (Answer ?r True, gc now2 idem, s2))" by blast
  note first = createLiveSession_do [OF ok d]
  have "fst (createLiveSession json enc mac srv c2 st2) = Replied 201 True (json (first_response enc mac srv c req0)) \<and>
      st_leases (snd (createLiveSession json enc mac srv c2 st2)) = st_leases st2"
    if c2: "call_cache_key c \<noteq> ''''" "call_cache_key c2 = call_cache_key c" "cc_now c2 < cc_later c + ttl (st_idem st)"
      "st_idem st2 = idem" "create_ok srv c2 req2 st2" for c2 req2 and st2 :: session_state
  proof -
    have "DoCall (cc_now c2) (cc_later c2) (cc_keys c2) (call_cache_key c2)
      (session_answer json enc mac srv c2 (TrimSpace (cc_key c2)) (normalizeCreateSessionRequest req2 (TrimSpace (cc_key c2))))
      (st_idem st2) (st_leases st2) = (Answer ?r True, gc (cc_now c2) idem, st_leases st2)"
      using rep c2 by simp
    from createLiveSession_do [OF c2(5) this] show ?thesis by simp
  qed
  then show ?thesis using first by auto
qed

subsection \<open>Properties\<close>

lemma Issue_session:
  "Issue enc mac (ss_lease srv) (cc_uid c) (cc_issue c)
      (lease_input_of srv (TrimSpace (cc_key c)) (normalizeCreateSessionRequest req0 (TrimSpace (cc_key c)))) ls =
    ((session_lease srv c req0, signToken enc mac (claims_of (session_lease srv c req0))),
     mem_save (cc_issue c) (session_lease srv c req0) ls)"
  by (simp add: Issue_def session_lease_def Let_def)

lemma first_response_fields:
  "ReattachToken (first_response enc mac srv c req0) = signToken enc mac (claims_of (session_lease srv c req0))"
  "sr_SessionID (first_response enc mac srv c req0) = cc_uid c"
  "sr_StreamKey (first_response enc mac srv c req0) = TrimSpace (cc_key c)"
  "sr_TenantID (first_response enc mac srv c req0) = TenantID (session_lease srv c req0)"
  "sr_DeviceID (first_response enc mac srv c req0) = DeviceID (session_lease srv c req0)"
  "sr_ViewerID (first_response enc mac srv c req0) = ViewerID (session_lease srv c req0)"
  by (auto simp: first_response_def buildSessionResponse_def session_lease_def new_lease_def lease_input_of_def
      normalizeCreateSessionRequest_def normalizeLabelValue_def Let_def)

lemma first_response_viewer:
  "sr_ViewerID (first_response enc mac srv c req0) = normalizeLabelValue (q_ViewerID req0) ''anonymous''"
proof -
  have "TrimSpace ''anonymous'' = ''anonymous''" by (rule TrimSpace_plain) (simp add: plain_def)
  then show ?thesis
    by (auto simp: first_response_def buildSessionResponse_def session_lease_def new_lease_def lease_input_of_def
      normalizeCreateSessionRequest_def normalizeLabelValue_def Let_def)
qed

lemma signToken_nonempty: "signToken enc mac c \<noteq> ''''"
  by (simp add: signToken_def)

text \<open>Property C15: a created session can be reattached. If the stream is routed and the idempotency key, if any, is new, the
  call answers 201 with a session for the trimmed stream key; its token, presented before the lease ends, gives
  a response for the same session, stream, tenant, device and viewer, valid for the full time again, whose
  status tells whether the stream can still be routed.\<close>

theorem session_reattach_roundtrip:
  assumes "create_ok srv c req0 st" "call_cache_key c = '''' \<or> entries (st_idem st) (call_cache_key c) = None"
    and "codec_ok enc dec mac (claims_of (session_lease srv c req0))" "cc_uid c \<noteq> ''''"
    and "rc_body r = JsonBody (ReattachToken (first_response enc mac srv c req0))"
    and "TrimSpace (ReattachToken (first_response enc mac srv c req0)) = ReattachToken (first_response enc mac srv c req0)"
    and "0 \<le> l_ttl (ss_lease srv)" "0 \<le> skew (ss_lease srv)" "cc_issue c \<le> rc_now r"
    and "rc_now r \<le> unix (cc_issue c + l_ttl (ss_lease srv)) * second"
  shows "\<exists>st' p'. createLiveSession json enc mac srv c st = (Replied 201 False (json (first_response enc mac srv c req0)), st') \<and>
    fst (reattachLiveSession enc dec mac srv r st') = Reattached p' \<and>
    sr_SessionID p' = cc_uid c \<and> sr_StreamKey p' = TrimSpace (cc_key c) \<and>
    sr_TenantID p' = sr_TenantID (first_response enc mac srv c req0) \<and>
    sr_DeviceID p' = sr_DeviceID (first_response enc mac srv c req0) \<and>
    sr_ViewerID p' = sr_ViewerID (first_response enc mac srv c req0) \<and>
    sr_LeaseExpiresAt p' = rc_now r + l_ttl (ss_lease srv) \<and>
    (RouteStatus p' = ''live'' \<longleftrightarrow> ensureStreamReady srv (st_manager st) (rc_route r) (TrimSpace (cc_key c)) = None)"
proof -
  let ?l = "session_lease srv c req0" and ?p = "first_response enc mac srv c req0"
  let ?l' = "?l\<lparr>l_IssuedAt := rc_now r, l_ExpiresAt := rc_now r + l_ttl (ss_lease srv)\<rparr>"
  from createLiveSession_first [OF assms(1,2), of json enc mac] obtain st' where
    first: "createLiveSession json enc mac srv c st = (Replied 201 False (json ?p), st')"
    and ls: "st_leases st' = mem_save (cc_issue c) ?l (st_leases st)" "st_manager st' = st_manager st" by blast
  have "TrimSpace (in_StreamKey (lease_input_of srv (TrimSpace (cc_key c))
      (normalizeCreateSessionRequest req0 (TrimSpace (cc_key c))))) \<noteq> ''''"
    using assms(1) by (simp add: create_ok_def lease_input_of_def Let_def)
  moreover have "rc_now r \<le> cc_issue c + l_ttl (ss_lease srv)"
    using assms(10) unix_bounds(1) [of "cc_issue c + l_ttl (ss_lease srv)"] by linarith
  ultimately obtain tok' ls' where re: "Reattach enc dec mac (ss_lease srv) (rc_now r) (ReattachToken ?p) (st_leases st') =
      (Inr (?l', tok'), ls')"
    using Reattach_issued [OF Issue_session assms(3,4), of "rc_now r" "st_leases st"] assms(7-10) ls(1)
    by (cases "Reattach enc dec mac (ss_lease srv) (rc_now r) (ReattachToken ?p) (st_leases st')")
      (simp add: first_response_fields Let_def)
  have "l_StreamKey ?l = TrimSpace (cc_key c)" "LeaseID ?l = cc_uid c"
    by (simp_all add: session_lease_def lease_input_of_def Let_def)
  then show ?thesis
    using first re assms(5,6) ls(2) signToken_nonempty
    by (simp add: reattachLiveSession_def buildSessionResponse_def first_response_fields Let_def)
qed

definition demo_server :: session_server where
  "demo_server = \<lparr>ss_mtx = None, ss_pion = None, ss_addr = '':8080'', ss_monitor = NewMonitor 0 [],
     ss_lease = NewLeaseService ''memory'' 0 0\<rparr>"

definition demo_route :: route_env where
  "demo_route = \<lparr>re_paths = \<lambda>_. NoAnswer, re_cancelled = \<lambda>_. False, re_round = \<lambda>x. x, re_random = \<lambda>_. 0\<rparr>"

definition demo_state :: session_state where
  "demo_state = \<lparr>st_manager = snd (Register ''a:b'' ''n'' (snd (Register ''a'' ''n'' NewStreamManager))),
     st_leases = Map.empty, st_idem = NewIdempotencyStore 0 0\<rparr>"

definition demo_call :: "string \<Rightarrow> string \<Rightarrow> string \<Rightarrow> string \<Rightarrow> time \<Rightarrow> create_call" where
  "demo_call key idem viewer uid now =
     \<lparr>cc_key = key, cc_body = JsonBody (empty_request\<lparr>q_ViewerID := viewer\<rparr>), cc_idem = idem, cc_uid = uid,
      cc_now = now, cc_issue = now, cc_later = now, cc_keys = [], cc_route = demo_route\<rparr>"

lemma TrimSpace_demo: "TrimSpace ''a'' = ''a''" "TrimSpace ''b:c'' = ''b:c''" "TrimSpace ''a:b'' = ''a:b''" "TrimSpace ''c'' = ''c''"
    "TrimSpace ''p.m'' = ''p.m''" "TrimSpace ''alice'' = ''alice''" "TrimSpace ''cam1'' = ''cam1''"
  by (simp_all add: TrimSpace_plain plain_def)

lemma demo_streams: "Get ''a'' (st_manager demo_state) \<noteq> None" "Get ''a:b'' (st_manager demo_state) \<noteq> None"
  by (simp_all add: demo_state_def Register_def Get_def NewStreamManager_def)

lemma TrimSlash_demo: "TrimSlash ''a'' = ''a''" "TrimSlash ''a:b'' = ''a:b''"
  by (simp_all add: TrimSlash_def TrimRightSlash_def)

lemma ensureStreamReady_local:
  "TrimSlash (TrimSpace key) \<noteq> '''' \<Longrightarrow> Get (TrimSlash (TrimSpace key)) m \<noteq> None \<Longrightarrow> ensureStreamReady srv m env key = None"
  by (simp add: ensureStreamReady_def Let_def)

lemma demo_create_ok:
  assumes "key = ''a'' \<or> key = ''a:b''" "st_manager st = st_manager demo_state"
  shows "create_ok demo_server (demo_call key idem viewer uid now) (empty_request\<lparr>q_ViewerID := viewer\<rparr>) st"
proof -
  have k: "TrimSpace key = key" "TrimSlash key = key" "key \<noteq> ''''" "Get key (st_manager demo_state) \<noteq> None"
    using assms(1) TrimSpace_demo TrimSlash_demo demo_streams by blast+
  then show ?thesis
    using assms(2) ensureStreamReady_local [of key "st_manager demo_state" demo_server demo_route]
    by (simp add: create_ok_def demo_call_def decodeOptionalJSON_def)
qed

theorem session_reattach_roundtrip_witness:
  "\<exists>st' p' req. createLiveSession (\<lambda>_. []) (\<lambda>_. ''p'') (\<lambda>_. ''m'') demo_server (demo_call ''a'' '''' ''alice'' ''u1'' 0) demo_state =
      (Replied 201 False [], st') \<and>
    fst (reattachLiveSession (\<lambda>_. ''p'') (\<lambda>_. Some (claims_of (session_lease demo_server (demo_call ''a'' '''' ''alice'' ''u1'' 0)
      (empty_request\<lparr>q_ViewerID := ''alice''\<rparr>)))) (\<lambda>_. ''m'') demo_server
      \<lparr>rc_body = JsonBody ''p.m'', rc_now = 30 * second, rc_route = demo_route\<rparr> st') = Reattached p' \<and>
    sr_SessionID p' = ''u1'' \<and> RouteStatus p' = ''live''"
proof -
  let ?c = "demo_call ''a'' '''' ''alice'' ''u1'' 0" and ?q = "empty_request\<lparr>q_ViewerID := ''alice''\<rparr>"
  let ?r = "\<lparr>rc_body = JsonBody ''p.m'', rc_now = 30 * second, rc_route = demo_route\<rparr>"
  have ok: "create_ok demo_server ?c ?q demo_state" by (rule demo_create_ok) simp_all
  have tok: "ReattachToken (first_response (\<lambda>_. ''p'') (\<lambda>_. ''m'') demo_server ?c ?q) = ''p.m''"
    by (simp add: first_response_fields signToken_def)
  have key: "call_cache_key ?c = '''' \<or> entries (st_idem demo_state) (call_cache_key ?c) = None"
    by (simp add: call_cache_key_def session_cache_key_def demo_call_def)
  have codec: "codec_ok (\<lambda>_. ''p'') (\<lambda>_. Some (claims_of (session_lease demo_server ?c ?q))) (\<lambda>_. ''m'')
      (claims_of (session_lease demo_server ?c ?q))" by (simp add: codec_ok_def)
  have t: "l_ttl (ss_lease demo_server) = 90 * second" "skew (ss_lease demo_server) = 0"
    by (simp_all add: demo_server_def NewLeaseService_def)
  have call: "cc_uid ?c = ''u1''" "cc_issue ?c = 0" "cc_key ?c = ''a''" by (simp_all add: demo_call_def)
  have live: "ensureStreamReady demo_server (st_manager demo_state) demo_route (TrimSpace (cc_key ?c)) = None"
    using ok by (simp add: create_ok_def demo_call_def)
  from session_reattach_roundtrip [OF ok key codec, of ?r "\<lambda>_. []"] show ?thesis
    unfolding tok call t
    using live by (auto simp: TrimSpace_demo unix_def call)
qed

text \<open>A repeated idempotency key hands out the session of another stream and viewer. A first call creates a session;
  a second one arrives while its answer is kept, with any body and for any stream that is routed, such that stream key, a
  colon and idempotency key make the same text as for the first. Its answer is the first session, with its
  stream, viewer and reattach token, and no lease is made for the stream that was asked for.\<close>

theorem session_replay_ignores_stream_and_viewer:
  assumes "create_ok srv c req0 st" "entries (st_idem st) (call_cache_key c) = None" "call_cache_key c \<noteq> ''''"
    and "call_cache_key c2 = call_cache_key c" "cc_now c2 < cc_later c + ttl (st_idem st)"
    and "snd (createLiveSession json enc mac srv c st) = st1" "create_ok srv c2 req2 st1"
  shows "fst (createLiveSession json enc mac srv c st) = Replied 201 False (json (first_response enc mac srv c req0)) \<and>
    fst (createLiveSession json enc mac srv c2 st1) = Replied 201 True (json (first_response enc mac srv c req0)) \<and>
    st_leases (snd (createLiveSession json enc mac srv c2 st1)) = st_leases st1 \<and>
    sr_StreamKey (first_response enc mac srv c req0) = TrimSpace (cc_key c) \<and>
    sr_ViewerID (first_response enc mac srv c req0) = normalizeLabelValue (q_ViewerID req0) ''anonymous''"
  using createLiveSession_first [OF assms(1) disjI2 [OF assms(2)], of json enc mac] assms(3-7)
    first_response_viewer first_response_fields(3) by auto

theorem session_replay_ignores_stream_and_viewer_witness:
  "\<exists>st1. fst (createLiveSession (\<lambda>p. map (\<lambda>c. byte_of_nat (of_char c)) (sr_StreamKey p)) (\<lambda>_. ''p'') (\<lambda>_. ''m'') demo_server
       (demo_call ''a:b'' ''c'' ''bob'' ''u2'' second) st1) = Replied 201 True (map (\<lambda>c. byte_of_nat (of_char c)) ''a'')"
proof -
  let ?json = "\<lambda>p. map (\<lambda>c. byte_of_nat (of_char c)) (sr_StreamKey p)"
  let ?c = "demo_call ''a'' ''b:c'' ''alice'' ''u1'' 0" and ?c2 = "demo_call ''a:b'' ''c'' ''bob'' ''u2'' second"
  let ?st1 = "snd (createLiveSession ?json (\<lambda>_. ''p'') (\<lambda>_. ''m'') demo_server ?c demo_state)"
  have ok: "create_ok demo_server ?c (empty_request\<lparr>q_ViewerID := ''alice''\<rparr>) demo_state" by (rule demo_create_ok) simp_all
  have new: "entries (st_idem demo_state) (call_cache_key ?c) = None"
    by (simp add: demo_state_def NewIdempotencyStore_def)
  have keys: "call_cache_key ?c \<noteq> ''''" "call_cache_key ?c2 = call_cache_key ?c"
    by (simp_all add: call_cache_key_def session_cache_key_def demo_call_def TrimSpace_demo)
  have t: "cc_now ?c2 < cc_later ?c + ttl (st_idem demo_state)"
    by (simp add: demo_call_def demo_state_def NewIdempotencyStore_def)
  have "st_manager ?st1 = st_manager demo_state"
    using createLiveSession_first [OF ok disjI2 [OF new], of ?json "\<lambda>_. ''p''" "\<lambda>_. ''m''"] by auto
  then have ok2: "create_ok demo_server ?c2 (empty_request\<lparr>q_ViewerID := ''bob''\<rparr>) ?st1" by (intro demo_create_ok) simp_all
  have key: "TrimSpace (cc_key ?c) = ''a''" by (simp add: demo_call_def TrimSpace_demo)
  show ?thesis
    using session_replay_ignores_stream_and_viewer [OF ok new keys t refl ok2] key
    by (intro exI [of _ ?st1]) simp
qed

end
