(* ===== verification/Media_Proc.thy ===== *)
theory Media_Proc
  imports Prelude
begin

section \<open>The supervised MediaMTX process\<close>

text \<open>
  \<open>internal/mediamtxproc/manager.go\<close>: a manager launches a child process, waits until its API answers, and
  a supervisor goroutine restarts it when it exits. The child processes that were launched are a list; the manager
  holds the index of the last one. The supervisor is a machine with a phase for each place where it can
  wait; the environment decides when a child exits, whether a launch works, whether the API answers, when
  \<open>Stop\<close> is called and when the context ends. The log pipes are left out.

  The main results: at most one child ever runs, the delay before a restart stays between one and thirty
  seconds and doubles, and a stop that falls into such a delay is followed by another launch.
\<close>

abbreviation defaultReadyTimeout :: duration where "defaultReadyTimeout \<equiv> 15 * second"
abbreviation defaultReadyPoll :: duration where "defaultReadyPoll \<equiv> 300 * millisecond"
abbreviation minRestartDelay :: duration where "minRestartDelay \<equiv> 1 * second"
abbreviation maxRestartDelay :: duration where "maxRestartDelay \<equiv> 30 * second"

record proc_config =
  pc_Enabled :: bool
  BinaryPath :: string
  ConfigPath :: string
  pc_APIBaseURL :: string
  ReadyTimeout :: duration

datatype child = Running | Exited

text \<open>The supervisor: not started, in \<open>cmd.Wait\<close>, in the delay before a restart, waiting for the restarted
  API, or returned. The number is the variable \<open>delay\<close>.\<close>

datatype sup_phase = NotStarted | Waiting duration | BackingOff duration | Readying duration | Returned

record proc_manager =
  pm_cfg :: proc_config
  children :: "child list"
  cmd :: "nat option"
  pm_stopped :: bool
  ctx_done :: bool
  phase :: sup_phase

definition NewProc :: "proc_config \<Rightarrow> proc_manager" where
  "NewProc cfg = \<lparr>pm_cfg = (if ReadyTimeout cfg = 0 then cfg\<lparr>ReadyTimeout := defaultReadyTimeout\<rparr> else cfg),
     children = [], cmd = None, pm_stopped = False, ctx_done = False, phase = NotStarted\<rparr>"

text \<open>The command line of \<open>launch\<close>, and the launch: a failed one leaves the manager as it is.\<close>

definition launch_args :: "proc_config \<Rightarrow> string list" where
  "launch_args cfg = (if ConfigPath cfg \<noteq> '''' then [ConfigPath cfg] else [])"

definition launch :: "bool \<Rightarrow> proc_manager \<Rightarrow> bool \<times> proc_manager" where
  "launch ok m =
     (if ok \<and> \<not> ctx_done m then (True, m\<lparr>children := children m @ [Running], cmd := Some (length (children m))\<rparr>)
      else (False, m))"

text \<open>\<open>waitReady\<close>: each round has its time, whether the context has ended, and the status that the API answered.
  \<open>None\<close>: still polling.\<close>

datatype ready_result = IsReady | TimedOut | CtxEnded

fun waitReady :: "time \<Rightarrow> (time \<times> bool \<times> int option) list \<Rightarrow> ready_result option" where
  "waitReady deadline [] = None"
| "waitReady deadline ((now, ended, answer) # rounds) =
     (if now > deadline then Some TimedOut
      else if ended then Some CtxEnded
      else case answer of
        Some status \<Rightarrow> if status < 500 then Some IsReady else waitReady deadline rounds
      | None \<Rightarrow> waitReady deadline rounds)"

text \<open>\<open>Stop\<close> sets the flag; then \<open>terminate\<close> sends the child an interrupt and kills it if it has not exited within 8 s. The two
  run while the supervisor does, so they are two steps.\<close>

datatype signal = Interrupt | Kill

definition terminate :: "bool \<Rightarrow> proc_manager \<Rightarrow> signal list \<times> proc_manager" where
  "terminate exits_in_time m =
     (case cmd m of
        None \<Rightarrow> ([], m)
      | Some i \<Rightarrow> (Interrupt # (if exits_in_time then [] else [Kill]), m\<lparr>children := (children m)[i := Exited]\<rparr>))"

definition StopProc :: "proc_manager \<Rightarrow> proc_manager" where
  "StopProc m = m\<lparr>pm_stopped := True\<rparr>"

definition StartProc :: "bool \<Rightarrow> ready_result \<Rightarrow> proc_manager \<Rightarrow> bool \<times> proc_manager" where
  "StartProc launch_ok r m =
     (case launch launch_ok m of
        (False, m1) \<Rightarrow> (False, m1)
      | (True, m1) \<Rightarrow> if r = IsReady then (True, m1\<lparr>phase := Waiting minRestartDelay\<rparr>) else (False, m1))"

definition next_delay :: "duration \<Rightarrow> duration" where
  "next_delay d = (if d * 2 > maxRestartDelay then maxRestartDelay else d * 2)"

definition child_at :: "proc_manager \<Rightarrow> child" where
  "child_at m = (case cmd m of None \<Rightarrow> Exited | Some i \<Rightarrow> children m ! i)"

text \<open>One round of \<open>supervise\<close>: the end of \<open>cmd.Wait\<close>; the end of the delay, by the context or the timer; and
  the end of \<open>waitReady\<close>.\<close>

definition wait_ends :: "proc_manager \<Rightarrow> proc_manager" where
  "wait_ends m = (case phase m of
     Waiting d \<Rightarrow> m\<lparr>phase := (if cmd m = None \<or> pm_stopped m then Returned else BackingOff d)\<rparr> | _ \<Rightarrow> m)"

definition delay_ends :: "bool \<Rightarrow> bool \<Rightarrow> proc_manager \<Rightarrow> proc_manager" where
  "delay_ends cancelled launch_ok m = (case phase m of
     BackingOff d \<Rightarrow>
       if cancelled then m\<lparr>phase := Returned\<rparr>
       else (case launch launch_ok m of
          (ok, m1) \<Rightarrow> m1\<lparr>phase := (if ok then Readying (next_delay d) else Waiting (next_delay d))\<rparr>)
   | _ \<Rightarrow> m)"

definition ready_ends :: "ready_result \<Rightarrow> proc_manager \<Rightarrow> proc_manager" where
  "ready_ends r m = (case phase m of
     Readying d \<Rightarrow> m\<lparr>phase := Waiting (if r = IsReady then minRestartDelay else d)\<rparr> | _ \<Rightarrow> m)"

inductive proc_step :: "proc_manager \<Rightarrow> proc_manager \<Rightarrow> bool" where
  start: "phase m = NotStarted \<Longrightarrow> cmd m = None \<Longrightarrow> proc_step m (snd (StartProc ok r m))"
| exits: "i < length (children m) \<Longrightarrow> proc_step m (m\<lparr>children := (children m)[i := Exited]\<rparr>)"
| waited: "phase m = Waiting d \<Longrightarrow> child_at m = Exited \<Longrightarrow> proc_step m (wait_ends m)"
| delayed: "phase m = BackingOff d \<Longrightarrow> (cancelled \<longrightarrow> ctx_done m) \<Longrightarrow> proc_step m (delay_ends cancelled ok m)"
| readied: "phase m = Readying d \<Longrightarrow> proc_step m (ready_ends r m)"
| stop: "proc_step m (StopProc m)"
| context_ends: "proc_step m (m\<lparr>ctx_done := True\<rparr>)"

inductive proc_reachable :: "proc_config \<Rightarrow> proc_manager \<Rightarrow> bool" for cfg where
  init: "proc_reachable cfg (NewProc cfg)"
| step: "proc_reachable cfg m \<Longrightarrow> proc_step m m' \<Longrightarrow> proc_reachable cfg m'"

inductive_cases proc_stepE: "proc_step m m'"

subsection \<open>The invariant\<close>

definition delay_ok :: "duration \<Rightarrow> bool" where
  "delay_ok d \<longleftrightarrow> minRestartDelay \<le> d \<and> d \<le> maxRestartDelay"

text \<open>The manager holds the last child; all others have exited, and so has the last one during a delay.\<close>

definition proc_inv :: "proc_manager \<Rightarrow> bool" where
  "proc_inv m \<longleftrightarrow>
     cmd m = (if children m = [] then None else Some (length (children m) - 1)) \<and>
     (\<forall>i. Suc i < length (children m) \<longrightarrow> children m ! i = Exited) \<and>
     (case phase m of
        BackingOff d \<Rightarrow> delay_ok d \<and> child_at m = Exited \<and> children m \<noteq> []
      | Waiting d \<Rightarrow> delay_ok d \<and> children m \<noteq> [] | Readying d \<Rightarrow> delay_ok d \<and> children m \<noteq> [] | _ \<Rightarrow> True)"

text \<open>\<open>terminate\<close> leaves no running child, and is a step that a child's own exit could be too.\<close>

lemma terminate_exits:
  assumes "proc_inv m"
  shows "child_at (snd (terminate b m)) = Exited" "cmd m \<noteq> None \<Longrightarrow> proc_step m (snd (terminate b m))"
proof -
  show "child_at (snd (terminate b m)) = Exited"
    using assms by (auto simp: terminate_def child_at_def proc_inv_def split: option.splits if_splits)
  show "proc_step m (snd (terminate b m))" if c: "cmd m \<noteq> None"
  proof -
    obtain i where i: "cmd m = Some i" "i < length (children m)" using assms c by (auto simp: proc_inv_def split: if_splits)
    then show ?thesis using proc_step.exits [of i m] by (simp add: terminate_def)
  qed
qed

lemma delay_ok_next: "delay_ok d \<Longrightarrow> delay_ok (next_delay d)"
  by (auto simp: delay_ok_def next_delay_def)

lemma delay_ok_min: "delay_ok minRestartDelay"
  by (simp add: delay_ok_def)

lemma proc_inv_new: "proc_inv (NewProc cfg)"
  by (simp add: proc_inv_def NewProc_def)

lemma launch_inv:
  assumes "cmd m = (if children m = [] then None else Some (length (children m) - 1))"
    and "\<forall>i < length (children m). children m ! i = Exited" "launch ok m = (b, m')"
  shows "cmd m' = (if children m' = [] then None else Some (length (children m') - 1)) \<and>
    (\<forall>i. Suc i < length (children m') \<longrightarrow> children m' ! i = Exited) \<and> phase m' = phase m \<and>
    (children m \<noteq> [] \<or> b \<longrightarrow> children m' \<noteq> [])"
  using assms by (auto simp: launch_def nth_append split: if_splits)

lemma all_exited:
  assumes "proc_inv m" "child_at m = Exited" "i < length (children m)"
  shows "children m ! i = Exited"
proof (cases "Suc i < length (children m)")
  case True
  with assms(1) show ?thesis by (simp add: proc_inv_def)
next
  case False
  with assms(3) have "i = length (children m) - 1" "children m \<noteq> []" by auto
  with assms(1,2) show ?thesis by (auto simp: proc_inv_def child_at_def)
qed

lemma proc_inv_step:
  assumes "proc_inv m" "proc_step m m'"
  shows "proc_inv m'"
  using assms(2)
proof cases
  case (start ok r)
  then have "children m = []" using assms(1) by (auto simp: proc_inv_def split: if_splits)
  then show ?thesis using start delay_ok_min by (auto simp: proc_inv_def StartProc_def launch_def)
next
  case (exits i)
  then show ?thesis using assms(1)
    by (auto simp: proc_inv_def child_at_def nth_list_update split: sup_phase.splits)
next
  case (waited d)
  then show ?thesis using assms(1)
    by (auto simp: proc_inv_def wait_ends_def child_at_def split: if_splits)
next
  case (delayed d cancelled ok)
  obtain b m1 where l: "launch ok m = (b, m1)" by fastforce
  have d: "delay_ok d" "child_at m = Exited" "children m \<noteq> []" using assms(1) delayed by (auto simp: proc_inv_def)
  then have "\<forall>i < length (children m). children m ! i = Exited" using all_exited [OF assms(1)] by blast
  with launch_inv [OF _ this l] assms(1) have
    m1: "cmd m1 = (if children m1 = [] then None else Some (length (children m1) - 1))"
      "\<forall>i. Suc i < length (children m1) \<longrightarrow> children m1 ! i = Exited" "children m1 \<noteq> []"
    using d(3) by (auto simp: proc_inv_def)
  show ?thesis
    using m1 l d(1) delay_ok_next [of d] delayed assms(1)
    by (auto simp: proc_inv_def delay_ends_def child_at_def)
next
  case (readied d r)
  then show ?thesis using assms(1) delay_ok_min by (auto simp: proc_inv_def ready_ends_def)
next
  case stop
  then show ?thesis using assms(1) by (auto simp: proc_inv_def StopProc_def child_at_def split: sup_phase.splits)
next
  case context_ends
  then show ?thesis using assms(1) by (auto simp: proc_inv_def child_at_def split: sup_phase.splits)
qed

lemma proc_reachable_inv: "proc_reachable cfg m \<Longrightarrow> proc_inv m"
  by (induction rule: proc_reachable.induct) (auto intro: proc_inv_new proc_inv_step)

lemma running_le_one:
  assumes "\<forall>i. Suc i < length cs \<longrightarrow> cs ! i = Exited"
  shows "length (filter (\<lambda>c. c = Running) cs) \<le> 1"
proof (cases cs rule: rev_cases)
  case (snoc bs b)
  have "\<forall>c\<in>set bs. c = Exited"
  proof
    fix c assume "c \<in> set bs"
    then obtain i where "i < length bs" "bs ! i = c" by (auto simp: in_set_conv_nth)
    then show "c = Exited" using assms snoc by (auto simp: nth_append)
  qed
  then have "filter (\<lambda>c. c = Running) bs = []" by (auto simp: filter_empty_conv)
  then show ?thesis using snoc by simp
qed simp

text \<open>The delays before successive restarts that all fail: 1, 2, 4, 8, 16 s, then 30 s for ever.\<close>

lemma restart_delays: "(next_delay ^^ n) minRestartDelay = min (2 ^ n * second) maxRestartDelay"
proof (induction n)
  case (Suc n)
  then show ?case by (auto simp: next_delay_def min_def)
qed simp

text \<open>Property C28: at most one child process runs. In every reachable state, whatever launches fail, whichever children
  crash and whenever the API answers, all children but the last launched have exited, the manager holds the last
  one, and the delay before a restart is between one and thirty seconds.\<close>

theorem one_child_at_most:
  assumes "proc_reachable cfg m"
  shows "length (filter (\<lambda>c. c = Running) (children m)) \<le> 1 \<and>
    (\<forall>i < length (children m). children m ! i = Running \<longrightarrow> cmd m = Some i) \<and>
    (\<forall>d. phase m \<in> {Waiting d, BackingOff d, Readying d} \<longrightarrow> delay_ok d)"
proof -
  have inv: "proc_inv m" using assms by (rule proc_reachable_inv)
  then have others: "\<forall>i. Suc i < length (children m) \<longrightarrow> children m ! i = Exited" by (simp add: proc_inv_def)
  have "cmd m = Some i" if i: "i < length (children m)" "children m ! i = Running" for i
  proof -
    have "\<not> Suc i < length (children m)" using others i by auto
    with i have "i = length (children m) - 1" "children m \<noteq> []" by auto
    then show ?thesis using inv by (simp add: proc_inv_def)
  qed
  moreover have "\<forall>d. phase m \<in> {Waiting d, BackingOff d, Readying d} \<longrightarrow> delay_ok d"
    using inv by (auto simp: proc_inv_def)
  ultimately show ?thesis using running_le_one [OF others] by blast
qed

definition demo_config :: proc_config where
  "demo_config = \<lparr>pc_Enabled = True, BinaryPath = ''mediamtx'', ConfigPath = '''', pc_APIBaseURL = ''http://m:9997'', ReadyTimeout = 0\<rparr>"

text \<open>A child that was launched, answered, crashed, and waits for its restart.\<close>

definition demo_backing_off :: proc_manager where
  "demo_backing_off = (NewProc demo_config)\<lparr>children := [Exited], cmd := Some 0, phase := BackingOff minRestartDelay\<rparr>"

lemma demo_reachable: "proc_reachable demo_config demo_backing_off"
proof -
  let ?m0 = "NewProc demo_config"
  let ?m1 = "snd (StartProc True IsReady ?m0)"
  let ?m2 = "?m1\<lparr>children := (children ?m1)[0 := Exited]\<rparr>"
  have m1: "?m1 = ?m0\<lparr>children := [Running], cmd := Some 0, phase := Waiting minRestartDelay\<rparr>"
    by (simp add: StartProc_def launch_def NewProc_def)
  have "proc_step ?m0 ?m1" by (rule proc_step.start) (simp_all add: NewProc_def)
  moreover have "proc_step ?m1 ?m2" by (rule proc_step.exits) (simp add: m1)
  moreover have "proc_step ?m2 (wait_ends ?m2)" by (rule proc_step.waited) (simp_all add: m1 child_at_def)
  moreover have "wait_ends ?m2 = demo_backing_off"
    unfolding m1 by (simp add: wait_ends_def demo_backing_off_def NewProc_def)
  ultimately show ?thesis by (metis proc_reachable.init proc_reachable.step)
qed

theorem one_child_at_most_witness:
  "proc_reachable demo_config (delay_ends False True demo_backing_off) \<and>
   children (delay_ends False True demo_backing_off) = [Exited, Running] \<and>
   length (filter (\<lambda>c. c = Running) (children (delay_ends False True demo_backing_off))) \<le> 1"
proof -
  have "proc_step demo_backing_off (delay_ends False True demo_backing_off)"
    by (rule proc_step.delayed) (simp_all add: demo_backing_off_def)
  then have "proc_reachable demo_config (delay_ends False True demo_backing_off)"
    using demo_reachable proc_reachable.step by blast
  then show ?thesis
    using one_child_at_most by (simp add: demo_backing_off_def delay_ends_def launch_def NewProc_def)
qed

text \<open>A stop during the delay before a restart does not last. Whenever the supervisor is in that delay and the
  context has not ended, \<open>Stop\<close> marks the manager as stopped and finds no running child; the next step of the supervisor
  launches a new one all the same, which runs on after \<open>Stop\<close> has returned until it exits by itself.\<close>

theorem stop_in_delay_relaunches:
  assumes "proc_reachable cfg m" "phase m = BackingOff d" "\<not> ctx_done m"
  shows "child_at (StopProc m) = Exited \<and>
    (\<exists>m'. proc_step (StopProc m) m' \<and> pm_stopped m' \<and> child_at m' = Running \<and> phase m' = Readying (next_delay d))"
proof -
  have "child_at m = Exited" using proc_reachable_inv [OF assms(1)] assms(2) by (simp add: proc_inv_def)
  then have "child_at (StopProc m) = Exited" by (cases "cmd m") (simp_all add: child_at_def StopProc_def)
  moreover have "proc_step (StopProc m) (delay_ends False True (StopProc m))"
    by (rule proc_step.delayed [of _ d]) (simp_all add: StopProc_def assms(2))
  moreover have "pm_stopped (delay_ends False True (StopProc m))" "child_at (delay_ends False True (StopProc m)) = Running"
      "phase (delay_ends False True (StopProc m)) = Readying (next_delay d)"
    using assms(2,3) by (simp_all add: delay_ends_def StopProc_def launch_def child_at_def)
  ultimately show ?thesis by blast
qed

theorem stop_in_delay_relaunches_witness:
  "\<exists>m'. proc_step (StopProc demo_backing_off) m' \<and> pm_stopped m' \<and> child_at m' = Running"
  using stop_in_delay_relaunches [OF demo_reachable, of minRestartDelay] by (auto simp: demo_backing_off_def NewProc_def)

text \<open>A wait for the API ends: with the answer, the context, or a round after the deadline.\<close>

lemma waitReady_ends:
  assumes "\<exists>(now, ended, answer)\<in>set rounds. now > deadline"
  shows "waitReady deadline rounds \<noteq> None"
  using assms by (induction deadline rounds rule: waitReady.induct) (auto split: option.splits)

end
