(* ===== verification/Onvif.thy ===== *)
theory Onvif
  imports Camera_Service
begin

section \<open>ONVIF cameras\<close>

text \<open>
  \<open>internal/onvif/client.go\<close>, \<open>internal/onvif/nic.go\<close> and the handlers of \<open>internal/api/onvif.go\<close>. The network and
  the ONVIF libraries are arguments: which device answers at an address, and for each call of a device whether it
  failed in transport, or with which HTTP status and which decoded body it was answered. A Go panic, which the
  router turns into status 500, is a value of its own.

  The main results: which profiles become main and sub stream; exactly which devices make the server
  panic; and that the commands report success whatever status the camera answers with.
\<close>

subsection \<open>Addresses\<close>

text \<open>\<open>url.Parse\<close>, with the parts of \<open>Go_Url\<close>: without the restrictions of a request URI, and with a fragment.
  A host is decoded.\<close>

fun decode_host :: "string \<Rightarrow> string" where
  "decode_host [] = []"
| "decode_host (c # cs) =
     (if c = CHR ''%'' then
        (case cs of a # b # rest \<Rightarrow> char_of (hex_val a * 16 + hex_val b) # decode_host rest | _ \<Rightarrow> c # decode_host cs)
      else c # decode_host cs)"

definition before :: "char \<Rightarrow> string \<Rightarrow> string" where
  "before c s = (case cut c s of None \<Rightarrow> s | Some (a, _) \<Rightarrow> a)"

definition parse_rest :: "string \<Rightarrow> string \<Rightarrow> uri option" where
  "parse_rest scheme rest =
     (if (rest = '''' \<or> hd rest \<noteq> CHR ''/'') \<and> scheme \<noteq> '''' then Some \<lparr>uri_scheme = scheme, uri_host = '''', uri_user = False\<rparr>
      else if (rest = '''' \<or> hd rest \<noteq> CHR ''/'') \<and> CHR '':'' \<in> set (before (CHR ''/'') rest) then None
      else if (scheme \<noteq> '''' \<or> take 3 rest \<noteq> ''///'') \<and> take 2 rest = ''//'' then
        (let auth = before (CHR ''/'') (drop 2 rest) in
         case parse_authority auth of
           None \<Rightarrow> None
         | Some (user, host) \<Rightarrow>
             if valid_escapes InPath (drop (2 + length auth) rest)
             then Some \<lparr>uri_scheme = scheme, uri_host = decode_host host, uri_user = user\<rparr> else None)
      else if valid_escapes InPath rest then Some \<lparr>uri_scheme = scheme, uri_host = '''', uri_user = False\<rparr> else None)"

definition url_Parse :: "string \<Rightarrow> uri option" where
  "url_Parse raw =
     (let u = before (CHR ''#'') raw in
      if list_ex (\<lambda>c. char_nat c < 32 \<or> char_nat c = 127) u \<or> \<not> valid_escapes InPath (drop (Suc (length u)) raw) then None
      else if u = ''*'' then Some \<lparr>uri_scheme = '''', uri_host = '''', uri_user = False\<rparr>
      else case getScheme u of
        None \<Rightarrow> None
      | Some (sch, rest) \<Rightarrow> parse_rest (ToLower sch) (before (CHR ''?'') rest))"

definition splitHostPort :: "string \<Rightarrow> string \<times> string" where
  "splitHostPort hp =
     (let (host, port) = (case cut_last (CHR '':'') hp of
            Some (h, p) \<Rightarrow> if validOptionalPort (CHR '':'' # p) then (h, p) else (hp, '''')
          | None \<Rightarrow> (hp, ''''))
      in (if host \<noteq> '''' \<and> hd host = CHR ''['' \<and> last host = CHR '']'' then butlast (tl host) else host, port))"

definition Hostname :: "uri \<Rightarrow> string" where
  "Hostname u = fst (splitHostPort (uri_host u))"

definition Port :: "uri \<Rightarrow> string" where
  "Port u = snd (splitHostPort (uri_host u))"

text \<open>\<open>strings.ReplaceAll\<close>; an empty pattern matches before every rune and at the end.\<close>

function replace_nonempty :: "string \<Rightarrow> string \<Rightarrow> string \<Rightarrow> string" where
  "replace_nonempty s old new =
     (if s = '''' \<or> old = '''' then s
      else if prefix old s then new @ replace_nonempty (drop (length old) s) old new
      else hd s # replace_nonempty (tl s) old new)"
  by pat_completeness auto
termination by (relation "measure (\<lambda>(s, _, _). length s)") auto

declare replace_nonempty.simps [simp del]

function insert_between :: "string \<Rightarrow> string \<Rightarrow> string" where
  "insert_between s new =
     (if s = '''' then new
      else let n = rune_width (map of_char s) in new @ take n s @ insert_between (drop n s) new)"
  by pat_completeness auto
termination
proof (relation "measure (length \<circ> fst)")
  fix s new :: string and n assume "s \<noteq> ''''" "n = rune_width (map of_char s)"
  then show "((drop n s, new), s, new) \<in> measure (length \<circ> fst)"
    using rune_width_pos [of "map of_char s"] by simp
qed simp

declare insert_between.simps [simp del]

definition ReplaceAll :: "string \<Rightarrow> string \<Rightarrow> string \<Rightarrow> string" where
  "ReplaceAll s old new = (if old = '''' then insert_between s new else replace_nonempty s old new)"

definition normalizeHost :: "string \<Rightarrow> string \<Rightarrow> string" where
  "normalizeHost rtspURL deviceHostname =
     (case url_Parse rtspURL of
        None \<Rightarrow> rtspURL
      | Some u \<Rightarrow> if Hostname u \<noteq> deviceHostname then ReplaceAll rtspURL (Hostname u) deviceHostname else rtspURL)"

subsection \<open>Discovery\<close>

record interface =
  if_Name :: string
  if_Loopback :: bool
  if_Up :: bool

definition listNICNames :: "interface list option \<Rightarrow> string list option" where
  "listNICNames ifaces = map_option (\<lambda>is. map if_Name (filter (\<lambda>i. \<not> if_Loopback i \<and> if_Up i) is)) ifaces"

fun add_found :: "string list \<Rightarrow> string set \<times> string list \<Rightarrow> string set \<times> string list" where
  "add_found [] acc = acc"
| "add_found (ep # eps) (seen, results) =
     add_found eps (if ep \<in> seen then (seen, results) else (insert ep seen, results @ [ep]))"

fun probe_all :: "(string \<Rightarrow> string list option) \<Rightarrow> string list \<Rightarrow> string set \<times> string list \<Rightarrow> string set \<times> string list" where
  "probe_all probe [] acc = acc"
| "probe_all probe (nic # nics) acc =
     probe_all probe nics (case probe nic of None \<Rightarrow> acc | Some eps \<Rightarrow> add_found eps acc)"

definition discoverMulticast :: "(string \<Rightarrow> string list option) \<Rightarrow> interface list option \<Rightarrow> string list option" where
  "discoverMulticast probe ifaces =
     (case listNICNames ifaces of None \<Rightarrow> None | Some nics \<Rightarrow> Some (snd (probe_all probe nics ({}, []))))"

definition Discover :: "(string \<Rightarrow> string list option) \<Rightarrow> interface list option \<Rightarrow> string \<Rightarrow> string list option" where
  "Discover probe ifaces nicName =
     (if nicName = '''' \<or> nicName = ''all'' then discoverMulticast probe ifaces else probe nicName)"

subsection \<open>Profiles\<close>

record cprofile =
  pf_Token :: string
  pf_Name :: string
  SourceToken :: string
  Width :: int
  Height :: int
  PTZConfiguration :: bool

text \<open>A product of two \<open>int\<close>s wraps at 64 bits.\<close>

definition resolution :: "cprofile \<Rightarrow> int" where
  "resolution p = signed_take_bit 63 (Width p * Height p)"

abbreviation maxInt :: int where "maxInt \<equiv> 9223372036854775807"

definition named_main :: "cprofile \<Rightarrow> bool" where
  "named_main p \<longleftrightarrow> (let lower = ToLower (pf_Name p) in
     Contains lower ''main'' \<or> Contains lower ''primary'' \<or> Contains lower ''hd'')"

definition named_sub :: "cprofile \<Rightarrow> bool" where
  "named_sub p \<longleftrightarrow> (let lower = ToLower (pf_Name p) in
     Contains lower ''sub'' \<or> Contains lower ''secondary'' \<or> Contains lower ''sd'')"

text \<open>The three loops of \<open>classifyProfiles\<close>. An index is \<open>None\<close> where the code has -1.\<close>

fun name_phase :: "nat \<Rightarrow> cprofile list \<Rightarrow> nat option \<times> nat option \<Rightarrow> nat option \<times> nat option" where
  "name_phase i [] acc = acc"
| "name_phase i (p # ps) (m, s) =
     name_phase (Suc i) ps
       (if m = None \<and> named_main p then (Some i, s)
        else if s = None \<and> named_sub p then (m, Some i)
        else (m, s))"

record search =
  mainIdx :: "nat option"
  subIdx :: "nat option"
  maxRes :: int
  minRes :: int
  usedSrc :: "string set"

definition resolution_step :: "nat \<Rightarrow> cprofile \<Rightarrow> search \<Rightarrow> search" where
  "resolution_step i p st =
     (if SourceToken p \<in> usedSrc st then st
      else if mainIdx st = None \<and> resolution p > maxRes st then
        st\<lparr>maxRes := resolution p, mainIdx := Some i, usedSrc := insert (SourceToken p) (usedSrc st)\<rparr>
      else if mainIdx st \<noteq> None \<and> subIdx st = None \<and> mainIdx st \<noteq> Some i \<and> resolution p < minRes st then
        st\<lparr>minRes := resolution p, subIdx := Some i, usedSrc := insert (SourceToken p) (usedSrc st)\<rparr>
      else st)"

fun resolution_phase :: "nat \<Rightarrow> cprofile list \<Rightarrow> search \<Rightarrow> search" where
  "resolution_phase i [] st = st"
| "resolution_phase i (p # ps) st = resolution_phase (Suc i) ps (resolution_step i p st)"

fun smallest_other :: "nat \<Rightarrow> nat \<Rightarrow> cprofile list \<Rightarrow> int \<times> nat option \<Rightarrow> int \<times> nat option" where
  "smallest_other m i [] acc = acc"
| "smallest_other m i (p # ps) (least, s) =
     smallest_other m (Suc i) ps (if i \<noteq> m \<and> resolution p < least then (resolution p, Some i) else (least, s))"

definition classifyProfiles :: "cprofile list \<Rightarrow> nat option \<times> nat option" where
  "classifyProfiles ps =
     (case name_phase 0 ps (None, None) of (m, s) \<Rightarrow>
        if m = None \<or> s = None then
          (let st = resolution_phase 0 ps \<lparr>mainIdx = m, subIdx = s, maxRes = 0, minRes = maxInt, usedSrc = {}\<rparr> in
           case (mainIdx st, subIdx st) of
             (Some i, None) \<Rightarrow> (Some i, snd (smallest_other i 0 ps (minRes st, None)))
           | r \<Rightarrow> r)
        else (m, s))"

subsection \<open>Devices\<close>

datatype 'a soap = NoSoap | Soap int "'a option"

datatype 'f ptz_command = ContinuousMove string 'f 'f 'f | StopMove string

record device_info =
  Manufacturer :: string
  di_Model :: string
  FirmwareVersion :: string
  SerialNumber :: string
  HardwareID :: string

record 'f device =
  GetProfiles :: "cprofile list soap"
  GetSnapshotUri :: "string \<Rightarrow> string soap"
  GetStreamUri :: "string \<Rightarrow> string soap"
  GetDeviceInformation :: "device_info soap"
  ptz_call :: "'f ptz_command \<Rightarrow> unit soap"
  SystemReboot :: "unit soap"

text \<open>Connecting to a host and port with a user and a password.\<close>

type_synonym 'f network = "string \<Rightarrow> string \<Rightarrow> string \<Rightarrow> 'f device option"

datatype onvif_err = BadXAddr | ConnectFailed | CallFailed | StatusReturned int | ParseFailed | NoProfiles | BadLogin | NoSnapshot

datatype 'a outcome = Panics | Failed onvif_err | Done 'a

definition connect :: "'f network \<Rightarrow> string \<Rightarrow> string \<Rightarrow> string \<Rightarrow> (uri \<Rightarrow> 'f device \<Rightarrow> 'a outcome) \<Rightarrow> 'a outcome" where
  "connect net xaddr user pass k =
     (case url_Parse xaddr of
        None \<Rightarrow> Failed BadXAddr
      | Some u \<Rightarrow> (case net (Hostname u @ '':'' @ Port u) user pass of
          None \<Rightarrow> Failed ConnectFailed
        | Some dev \<Rightarrow> k u dev))"

definition fetchStreamURI :: "'f device \<Rightarrow> string \<Rightarrow> string outcome" where
  "fetchStreamURI dev token =
     (case GetStreamUri dev token of
        NoSoap \<Rightarrow> Failed CallFailed
      | Soap _ None \<Rightarrow> Failed ParseFailed
      | Soap _ (Some uri) \<Rightarrow> Done uri)"

fun fetch_streams :: "'f device \<Rightarrow> string \<Rightarrow> nat \<Rightarrow> nat option \<Rightarrow> nat \<Rightarrow> cprofile list \<Rightarrow> stream_info \<Rightarrow> stream_info outcome" where
  "fetch_streams dev host m s i [] info = Done info"
| "fetch_streams dev host m s i (p # ps) info =
     (if i \<noteq> m \<and> Some i \<noteq> s then fetch_streams dev host m s (Suc i) ps info
      else case fetchStreamURI dev (pf_Token p) of
        Panics \<Rightarrow> Panics
      | Failed e \<Rightarrow> Failed e
      | Done uri \<Rightarrow>
          (let rtsp = normalizeHost uri host in
           fetch_streams dev host m s (Suc i) ps (if i = m then info\<lparr>si_Main := rtsp\<rparr> else info\<lparr>si_Sub := rtsp\<rparr>)))"

text \<open>\<open>profiles[mainIdx]\<close> with index -1 panics.\<close>

definition GetStreams :: "'f network \<Rightarrow> string \<Rightarrow> string \<Rightarrow> string \<Rightarrow> stream_info outcome" where
  "GetStreams net xaddr user pass = connect net xaddr user pass (\<lambda>u dev.
     (case GetProfiles dev of
        NoSoap \<Rightarrow> Failed CallFailed
      | Soap status body \<Rightarrow>
          if status \<noteq> 200 then Failed (StatusReturned status)
          else (case body of
            None \<Rightarrow> Failed ParseFailed
          | Some ps \<Rightarrow>
              if ps = [] then Failed NoProfiles
              else (case classifyProfiles ps of
                (None, _) \<Rightarrow> Panics
              | (Some m, s) \<Rightarrow>
                  fetch_streams dev (Hostname u) m s 0 ps
                    \<lparr>si_Main = '''', si_Sub = '''', si_PTZ = PTZConfiguration (ps ! m),
                     si_Snapshot = (GetSnapshotUri dev (pf_Token (ps ! m)) \<noteq> NoSoap)\<rparr>))))"

definition GetDeviceInfo :: "'f network \<Rightarrow> string \<Rightarrow> string \<Rightarrow> string \<Rightarrow> device_info outcome" where
  "GetDeviceInfo net xaddr user pass = connect net xaddr user pass (\<lambda>u dev.
     (case GetDeviceInformation dev of
        NoSoap \<Rightarrow> Failed CallFailed
      | Soap status body \<Rightarrow>
          if status = 401 then Failed BadLogin
          else (case body of None \<Rightarrow> Failed ParseFailed | Some info \<Rightarrow> Done info)))"

text \<open>The token of the main profile, as \<open>GetSnapshotURI\<close>, \<open>PTZMove\<close> and \<open>PTZStop\<close> look it up: no status is
  checked.\<close>

definition with_main_token :: "'f device \<Rightarrow> (string \<Rightarrow> 'a outcome) \<Rightarrow> 'a outcome" where
  "with_main_token dev k =
     (case GetProfiles dev of
        NoSoap \<Rightarrow> Failed CallFailed
      | Soap _ None \<Rightarrow> Failed ParseFailed
      | Soap _ (Some ps) \<Rightarrow>
          if ps = [] then Failed NoProfiles
          else (case classifyProfiles ps of (None, _) \<Rightarrow> Panics | (Some m, _) \<Rightarrow> k (pf_Token (ps ! m))))"

text \<open>The snapshot's address, and the user and password that are put into it.\<close>

definition GetSnapshotURI :: "'f network \<Rightarrow> string \<Rightarrow> string \<Rightarrow> string \<Rightarrow> (string \<times> (string \<times> string) option) outcome" where
  "GetSnapshotURI net xaddr user pass = connect net xaddr user pass (\<lambda>u dev. with_main_token dev (\<lambda>token.
     (case GetSnapshotUri dev token of
        NoSoap \<Rightarrow> Failed CallFailed
      | Soap _ None \<Rightarrow> Failed ParseFailed
      | Soap _ (Some uri) \<Rightarrow>
          if uri = '''' then Failed NoSnapshot
          else (case url_Parse uri of
            Some pu \<Rightarrow> if \<not> uri_user pu then Done (uri, Some (user, pass)) else Done (uri, None)
          | None \<Rightarrow> Done (uri, None)))))"

definition PTZMove :: "'f network \<Rightarrow> string \<Rightarrow> string \<Rightarrow> string \<Rightarrow> 'f \<Rightarrow> 'f \<Rightarrow> 'f \<Rightarrow> unit outcome" where
  "PTZMove net xaddr user pass pan tilt zoom = connect net xaddr user pass (\<lambda>u dev. with_main_token dev (\<lambda>token.
     (if ptz_call dev (ContinuousMove token pan tilt zoom) = NoSoap then Failed CallFailed else Done ())))"

definition PTZStop :: "'f network \<Rightarrow> string \<Rightarrow> string \<Rightarrow> string \<Rightarrow> unit outcome" where
  "PTZStop net xaddr user pass = connect net xaddr user pass (\<lambda>u dev. with_main_token dev (\<lambda>token.
     (if ptz_call dev (StopMove token) = NoSoap then Failed CallFailed else Done ())))"

definition Reboot :: "'f network \<Rightarrow> string \<Rightarrow> string \<Rightarrow> string \<Rightarrow> unit outcome" where
  "Reboot net xaddr user pass = connect net xaddr user pass (\<lambda>u dev.
     (if SystemReboot dev = NoSoap then Failed CallFailed else Done ()))"

subsection \<open>Handlers\<close>

text \<open>An answer is a status and, for 200, what is encoded into the body. \<open>middleware.Recoverer\<close> answers a panic
  with 500.\<close>

definition answer :: "'a outcome \<Rightarrow> int \<times> 'a option" where
  "answer r = (case r of Panics \<Rightarrow> (500, None) | Failed _ \<Rightarrow> (502, None) | Done a \<Rightarrow> (200, Some a))"

definition onvifDiscover :: "(string \<Rightarrow> string list option) \<Rightarrow> interface list option \<Rightarrow> string \<Rightarrow> int \<times> string list option" where
  "onvifDiscover probe ifaces nic = (case Discover probe ifaces nic of None \<Rightarrow> (500, None) | Some eps \<Rightarrow> (200, Some eps))"

definition onvifGetInfo :: "'f network \<Rightarrow> string \<Rightarrow> string \<Rightarrow> string \<Rightarrow> int \<times> device_info option" where
  "onvifGetInfo net endpoint user pass =
     (if endpoint = '''' then (400, None) else answer (GetDeviceInfo net endpoint user pass))"

text \<open>The adapter with the panic of \<open>GetStreams\<close> passed on.\<close>

definition resolve_onvif :: "'f network \<Rightarrow> resolve_params \<Rightarrow> int \<times> camera_stream option" where
  "resolve_onvif net p =
     (if rp_Endpoint p \<noteq> '''' \<and> GetStreams net (rp_Endpoint p) (rp_Username p) (rp_Password p) = Panics then (500, None)
      else case onvif_Resolve (\<lambda>e u w. case GetStreams net e u w of Done info \<Rightarrow> Some info | _ \<Rightarrow> None) p of
        Inl _ \<Rightarrow> (502, None)
      | Inr s \<Rightarrow> (200, Some s))"

definition onvifResolve :: "'f network \<Rightarrow> resolve_params option \<Rightarrow> int \<times> camera_stream option" where
  "onvifResolve net body =
     (case body of
        None \<Rightarrow> (400, None)
      | Some p \<Rightarrow> if rp_Endpoint p = '''' then (400, None) else resolve_onvif net p)"

definition onvifSnapshot ::
  "'f network \<Rightarrow> (string \<times> (string \<times> string) option \<Rightarrow> 'i option) \<Rightarrow> string \<Rightarrow> string \<Rightarrow> string \<Rightarrow> int \<times> 'i option" where
  "onvifSnapshot net http_get endpoint user pass =
     (if endpoint = '''' then (400, None)
      else case GetSnapshotURI net endpoint user pass of
        Panics \<Rightarrow> (500, None)
      | Failed _ \<Rightarrow> (502, None)
      | Done uri \<Rightarrow> (case http_get uri of None \<Rightarrow> (502, None) | Some img \<Rightarrow> (200, Some img)))"

record 'f ptz_request =
  pr_Endpoint :: string
  pr_Username :: string
  pr_Password :: string
  pr_Pan :: 'f
  pr_Tilt :: 'f
  pr_Zoom :: 'f
  pr_Stop :: bool

definition onvifPTZ :: "'f network \<Rightarrow> 'f ptz_request option \<Rightarrow> int \<times> unit option" where
  "onvifPTZ net body =
     (case body of
        None \<Rightarrow> (400, None)
      | Some r \<Rightarrow> answer
          (if pr_Stop r then PTZStop net (pr_Endpoint r) (pr_Username r) (pr_Password r)
           else PTZMove net (pr_Endpoint r) (pr_Username r) (pr_Password r) (pr_Pan r) (pr_Tilt r) (pr_Zoom r)))"

definition onvifReboot :: "'f network \<Rightarrow> (string \<times> string \<times> string) option \<Rightarrow> int \<times> unit option" where
  "onvifReboot net body =
     (case body of None \<Rightarrow> (400, None) | Some (endpoint, user, pass) \<Rightarrow> answer (Reboot net endpoint user pass))"

text \<open>The body: not a JSON object, or its \<open>source\<close> and what the parameters decode to.\<close>

definition cameraResolve :: "'f network \<Rightarrow> (string \<times> resolve_params option) option \<Rightarrow> int \<times> camera_stream option" where
  "cameraResolve net body =
     (case body of
        None \<Rightarrow> (400, None)
      | Some (_, None) \<Rightarrow> (400, None)
      | Some (source, Some p) \<Rightarrow>
          if source = ''onvif'' then resolve_onvif net p
          else if source = ''manual'' \<or> source = '''' then
            (case manual_Resolve p of Inl _ \<Rightarrow> (502, None) | Inr s \<Rightarrow> (200, Some s))
          else (400, None))"

subsection \<open>Discovery lists every device once\<close>

lemma add_found_list: "snd (add_found eps (set rs, rs)) = rs @ filter (\<lambda>e. e \<notin> set rs) (rev (remdups (rev eps)))
    \<and> fst (add_found eps (set rs, rs)) = set rs \<union> set eps"
proof (induction eps arbitrary: rs)
  case (Cons e es)
  have *: "rev (remdups (rev (e # es))) = e # filter (\<lambda>x. x \<noteq> e) (rev (remdups (rev es)))"
    by (induction es rule: rev_induct) auto
  show ?case
  proof (cases "e \<in> set rs")
    case True
    then show ?thesis using Cons [of rs] unfolding * by (auto intro: filter_cong)
  next
    case False
    have "insert e (set rs) = set (rs @ [e])" by simp
    then show ?thesis using Cons [of "rs @ [e]"] False unfolding * by (auto simp: conj_commute intro: filter_cong)
  qed
qed simp

lemma probe_all_list:
  assumes "distinct rs" "probe_all probe nics (set rs, rs) = (seen, out)"
  shows "seen = set out \<and> distinct out \<and>
    set out = set rs \<union> {e. \<exists>nic\<in>set nics. \<exists>eps. probe nic = Some eps \<and> e \<in> set eps}"
  using assms
proof (induction nics arbitrary: rs)
  case (Cons nic nics)
  show ?case
  proof (cases "probe nic")
    case None
    then have "probe_all probe nics (set rs, rs) = (seen, out)" using Cons.prems(2) by simp
    from Cons.IH [OF Cons.prems(1) this] None show ?thesis by auto
  next
    case (Some eps)
    let ?rs = "snd (add_found eps (set rs, rs))"
    have rs: "?rs = rs @ filter (\<lambda>e. e \<notin> set rs) (rev (remdups (rev eps)))"
      "fst (add_found eps (set rs, rs)) = set ?rs" "set ?rs = set rs \<union> set eps"
      using add_found_list [of eps rs] by auto
    then have "distinct ?rs" using Cons.prems(1) by (auto simp: rs(1))
    moreover have "probe_all probe nics (set ?rs, ?rs) = (seen, out)"
      using Cons.prems(2) Some rs(2) by (metis option.simps(5) prod.collapse probe_all.simps(2))
    ultimately show ?thesis using Cons.IH [of ?rs] rs(3) Some by fastforce
  qed
qed simp

lemma discover_lists_once:
  assumes "nicName \<in> {'''', ''all''}" "Discover probe (Some ifaces) nicName = Some out"
  shows "distinct out \<and> set out = {e. \<exists>i\<in>set ifaces. if_Up i \<and> \<not> if_Loopback i \<and> (\<exists>eps. probe (if_Name i) = Some eps \<and> e \<in> set eps)}"
proof -
  let ?nics = "map if_Name (filter (\<lambda>i. \<not> if_Loopback i \<and> if_Up i) ifaces)"
  obtain seen where "probe_all probe ?nics (set [], []) = (seen, out)"
    using assms by (cases "probe_all probe ?nics ({}, [])")
      (auto simp: Discover_def discoverMulticast_def listNICNames_def)
  from probe_all_list [OF _ this] show ?thesis by auto
qed

subsection \<open>Which profiles are chosen\<close>

text \<open>The first index from \<open>i\<close> on at which \<open>P\<close> holds.\<close>

fun first_from :: "nat \<Rightarrow> (nat \<Rightarrow> 'a \<Rightarrow> bool) \<Rightarrow> 'a list \<Rightarrow> nat option" where
  "first_from i P [] = None"
| "first_from i P (x # xs) = (if P i x then Some i else first_from (Suc i) P xs)"

lemma first_from_Some:
  "first_from i P xs = Some k \<Longrightarrow>
     i \<le> k \<and> k < i + length xs \<and> P k (xs ! (k - i)) \<and> (\<forall>j. i \<le> j \<and> j < k \<longrightarrow> \<not> P j (xs ! (j - i)))"
proof (induction xs arbitrary: i)
  case (Cons x xs)
  show ?case
  proof (cases "P i x")
    case False
    then have "first_from (Suc i) P xs = Some k" using Cons.prems by simp
    note ih = Cons.IH [OF this]
    have shift: "(x # xs) ! (j - i) = xs ! (j - Suc i)" if "Suc i \<le> j" for j
      using that by (simp add: Suc_diff_le nth_Cons')
    have "\<not> P j ((x # xs) ! (j - i))" if "i \<le> j" "j < k" for j
      using ih shift [of j] that False by (cases "j = i") auto
    moreover have "k < i + length (x # xs)" using ih by auto
    ultimately show ?thesis using ih shift [of k] by auto
  qed (use Cons in auto)
qed simp

lemma first_from_None: "first_from i P xs = None \<longleftrightarrow> (\<forall>j < length xs. \<not> P (i + j) (xs ! j))"
proof (induction xs arbitrary: i)
  case (Cons x xs)
  then show ?case by (simp add: All_less_Suc2)
qed simp

lemma first_from_cong: "(\<And>j x. i \<le> j \<Longrightarrow> P j x = Q j x) \<Longrightarrow> first_from i P xs = first_from i Q xs"
  by (induction xs arbitrary: i) auto

lemma first_from_skip: "(\<And>j. i \<le> j \<Longrightarrow> j < i + length xs \<Longrightarrow> \<not> P j (xs ! (j - i))) \<Longrightarrow>
    first_from i P (xs @ ys) = first_from (i + length xs) P ys"
proof (induction xs arbitrary: i)
  case (Cons x xs)
  have "\<not> P i x" using Cons.prems [of i] by simp
  moreover have "\<not> P j (xs ! (j - Suc i))" if "Suc i \<le> j" "j < Suc i + length xs" for j
    using Cons.prems [of j] that by (simp add: Suc_diff_le nth_Cons')
  then have "first_from (Suc i) P (xs @ ys) = first_from (Suc i + length xs) P ys" by (rule Cons.IH)
  ultimately show ?case by simp
qed simp

lemma name_phase_eq:
  "name_phase i ps (m, s) =
     (let m' = (if m \<noteq> None then m else first_from i (\<lambda>_. named_main) ps) in
      (m', if s \<noteq> None then s else first_from i (\<lambda>k p. named_sub p \<and> m' \<noteq> Some k) ps))"
  if "\<forall>k. m = Some k \<longrightarrow> k < i"
  using that
proof (induction ps arbitrary: i m s)
  case (Cons p ps)
  have later: "first_from (Suc i) P ps \<noteq> Some i" for P
    using first_from_Some [of "Suc i" P ps i] by auto
  show ?case
  proof (cases "m = None \<and> named_main p")
    case True
    then show ?thesis using Cons.IH [of "Some i" "Suc i" s] by (simp add: Let_def)
  next
    case False
    then show ?thesis
      using Cons.IH [of m "Suc i"] Cons.prems later less_Suc_eq by (cases m) (auto simp: Let_def)
  qed
qed (simp add: Let_def)

lemma resolution_keeps:
  "mainIdx st = Some m \<Longrightarrow> mainIdx (resolution_phase i ps st) = Some m"
  "subIdx st = Some s \<Longrightarrow> subIdx (resolution_phase i ps st) = Some s"
  by (induction i ps st rule: resolution_phase.induct) (auto simp: resolution_step_def)

lemma resolution_main:
  "mainIdx st = None \<Longrightarrow> usedSrc st = {} \<Longrightarrow> maxRes st = 0 \<Longrightarrow>
   mainIdx (resolution_phase i ps st) = first_from i (\<lambda>_ p. resolution p > 0) ps"
  by (induction i ps st rule: resolution_phase.induct) (auto simp: resolution_step_def resolution_keeps)

lemma resolution_sub:
  "subIdx (resolution_phase i ps st) = Some k \<Longrightarrow>
   subIdx st = Some k \<or> (i \<le> k \<and> k < i + length ps \<and> mainIdx (resolution_phase i ps st) \<noteq> Some k)"
proof (induction i ps st rule: resolution_phase.induct)
  case (2 i p ps st)
  let ?st = "resolution_step i p st"
  have "subIdx ?st = subIdx st \<or> (\<exists>m. mainIdx ?st = Some m \<and> m \<noteq> i \<and> subIdx ?st = Some i)"
    by (auto simp: resolution_step_def)
  then show ?case using 2 resolution_keeps(1) [of ?st _ "Suc i" ps] by fastforce
qed simp

lemma smallest_other_range:
  "snd (smallest_other m i ps (l, s)) = Some k \<Longrightarrow> s = Some k \<or> (i \<le> k \<and> k < i + length ps \<and> k \<noteq> m)"
  by (induction m i ps "(l, s)" arbitrary: l s rule: smallest_other.induct) (fastforce split: if_splits)+

definition chosen_main :: "cprofile list \<Rightarrow> nat option" where
  "chosen_main ps = (case first_from 0 (\<lambda>_. named_main) ps of
     Some i \<Rightarrow> Some i | None \<Rightarrow> first_from 0 (\<lambda>_ p. resolution p > 0) ps)"

lemma classify_main: "fst (classifyProfiles ps) = chosen_main ps"
proof -
  let ?m = "first_from 0 (\<lambda>_. named_main) ps"
  let ?s = "first_from 0 (\<lambda>k p. named_sub p \<and> ?m \<noteq> Some k) ps"
  let ?st = "\<lparr>mainIdx = ?m, subIdx = ?s, maxRes = 0, minRes = maxInt, usedSrc = {}\<rparr>"
  have np: "name_phase 0 ps (None, None) = (?m, ?s)" by (simp add: name_phase_eq Let_def)
  have "mainIdx (resolution_phase 0 ps ?st) = chosen_main ps"
    using resolution_keeps(1) [of ?st _ 0 ps] resolution_main [of ?st 0 ps]
    by (cases ?m) (simp_all add: chosen_main_def)
  then show ?thesis
    by (auto simp: classifyProfiles_def np Let_def chosen_main_def split: option.splits)
qed

lemma classify_range:
  assumes "classifyProfiles ps = (m, s)"
  shows "(\<forall>i. m = Some i \<longrightarrow> i < length ps) \<and> (\<forall>j. s = Some j \<longrightarrow> j < length ps)"
proof -
  have "m = chosen_main ps" using classify_main [of ps] assms by simp
  then have "\<forall>i. m = Some i \<longrightarrow> i < length ps"
    by (auto simp: chosen_main_def dest: first_from_Some split: option.splits)
  moreover have "j < length ps" if "s = Some j" for j
    using assms that name_phase_eq [of None 0 ps None]
    by (auto simp: classifyProfiles_def Let_def split: if_splits option.splits
        dest!: first_from_Some smallest_other_range resolution_sub)
  ultimately show ?thesis by simp
qed

text \<open>What a successful fetch of the two addresses returns.\<close>

lemma fetch_skips:
  assumes "\<forall>k. i \<le> k \<and> k < i + length ps \<longrightarrow> k \<noteq> m \<and> Some k \<noteq> s"
  shows "fetch_streams dev host m s i (ps @ qs) info = fetch_streams dev host m s (i + length ps) qs info"
  using assms by (induction ps arbitrary: i) auto

definition uri_at :: "'f device \<Rightarrow> string \<Rightarrow> cprofile \<Rightarrow> string \<Rightarrow> bool" where
  "uri_at dev host p url \<longleftrightarrow> (\<exists>st uri. GetStreamUri dev (pf_Token p) = Soap st (Some uri) \<and> url = normalizeHost uri host)"

lemma fetch_streams_done:
  assumes "fetch_streams dev host m s i ps info = Done out"
  shows "(if i \<le> m \<and> m < i + length ps then uri_at dev host (ps ! (m - i)) (si_Main out) else si_Main out = si_Main info) \<and>
    (case s of
       Some j \<Rightarrow> if j \<noteq> m \<and> i \<le> j \<and> j < i + length ps then uri_at dev host (ps ! (j - i)) (si_Sub out) else si_Sub out = si_Sub info
     | None \<Rightarrow> si_Sub out = si_Sub info) \<and>
    si_PTZ out = si_PTZ info \<and> si_Snapshot out = si_Snapshot info"
  using assms
proof (induction ps arbitrary: i info)
  case (Cons p ps)
  have nth: "(p # ps) ! (k - i) = ps ! (k - Suc i)" if "Suc i \<le> k" for k
    using that by (simp add: Suc_diff_le nth_Cons')
  show ?case
  proof (cases "i \<noteq> m \<and> Some i \<noteq> s")
    case True
    then have "fetch_streams dev host m s (Suc i) ps info = Done out" using Cons.prems by simp
    note ih = Cons.IH [OF this]
    show ?thesis
    proof (cases s)
      case None
      then show ?thesis using ih True nth [of m] by (auto split: if_splits)
    next
      case (Some j)
      then show ?thesis using ih True nth [of m] nth [of j] by (auto split: if_splits)
    qed
  next
    case False
    then obtain st uri where u: "GetStreamUri dev (pf_Token p) = Soap st (Some uri)"
      using Cons.prems by (auto simp: fetchStreamURI_def split: soap.splits option.splits)
    let ?rtsp = "normalizeHost uri host"
    let ?info = "if i = m then info\<lparr>si_Main := ?rtsp\<rparr> else info\<lparr>si_Sub := ?rtsp\<rparr>"
    have "fetch_streams dev host m s (Suc i) ps ?info = Done out"
      using Cons.prems False u by (simp add: fetchStreamURI_def Let_def)
    note ih = Cons.IH [OF this]
    have at: "uri_at dev host p ?rtsp" using u by (auto simp: uri_at_def)
    show ?thesis
    proof (cases s)
      case None
      then show ?thesis using ih False at nth [of m] by (auto split: if_splits)
    next
      case (Some j)
      then show ?thesis using ih False at nth [of m] nth [of j] by (auto split: if_splits)
    qed
  qed
qed (auto split: option.splits)

lemma connect_fetch_not_panics: "fetch_streams dev host m s i ps info \<noteq> Panics"
  by (induction dev host m s i ps info rule: fetch_streams.induct)
    (auto simp: fetchStreamURI_def Let_def split: soap.splits option.splits)

lemma chosen_main_None: "chosen_main ps = None \<longleftrightarrow> (\<forall>p\<in>set ps. \<not> named_main p \<and> resolution p \<le> 0)"
proof -
  have "chosen_main ps = None \<longleftrightarrow> (\<forall>j < length ps. \<not> named_main (ps ! j)) \<and> (\<forall>j < length ps. \<not> resolution (ps ! j) > 0)"
    using first_from_None [of 0 "\<lambda>_. named_main" ps] first_from_None [of 0 "\<lambda>_ p. resolution p > 0" ps]
    by (auto simp: chosen_main_def split: option.splits)
  then show ?thesis by (auto simp: all_set_conv_all_nth not_less)
qed

lemma GetStreams_profiles:
  assumes "url_Parse xaddr = Some u" "net (Hostname u @ '':'' @ Port u) user pass = Some dev"
    and "GetProfiles dev = Soap 200 (Some ps)" "ps \<noteq> []"
  shows "GetStreams net xaddr user pass =
    (case classifyProfiles ps of
       (None, _) \<Rightarrow> Panics
     | (Some m, s) \<Rightarrow> fetch_streams dev (Hostname u) m s 0 ps
         \<lparr>si_Main = '''', si_Sub = '''', si_PTZ = PTZConfiguration (ps ! m),
          si_Snapshot = (GetSnapshotUri dev (pf_Token (ps ! m)) \<noteq> NoSoap)\<rparr>)"
  using assms by (simp add: GetStreams_def connect_def)

text \<open>Property C30: which cameras make the server panic. A camera that answers the profile request with a non-empty list
  brings \<open>GetStreams\<close> to index -1 exactly when no profile's name contains one of the words for a main stream and no
  profile reports a positive resolution; the request to resolve it then ends with status 500. In every other case
  the call returns an error or the streams.\<close>

theorem onvif_panics_iff:
  assumes "url_Parse xaddr = Some u" "net (Hostname u @ '':'' @ Port u) user pass = Some dev"
    and "GetProfiles dev = Soap 200 (Some ps)" "ps \<noteq> []"
  shows "(GetStreams net xaddr user pass = Panics \<longleftrightarrow> (\<forall>p\<in>set ps. \<not> named_main p \<and> resolution p \<le> 0)) \<and>
    ((\<forall>p\<in>set ps. \<not> named_main p \<and> resolution p \<le> 0) \<longrightarrow> xaddr \<noteq> '''' \<longrightarrow>
       onvifResolve net (Some \<lparr>rp_Endpoint = xaddr, rp_Username = user, rp_Password = pass, rp_CameraID = i,
         ManualMain = a, ManualSub = b\<rparr>) = (500, None))"
proof -
  obtain m s where ms: "classifyProfiles ps = (m, s)" by fastforce
  then have "GetStreams net xaddr user pass = Panics \<longleftrightarrow> m = None"
    by (auto simp: GetStreams_profiles [where net = net, OF assms] connect_fetch_not_panics split: option.splits)
  then have *: "GetStreams net xaddr user pass = Panics \<longleftrightarrow> (\<forall>p\<in>set ps. \<not> named_main p \<and> resolution p \<le> 0)"
    using classify_main [of ps] chosen_main_None [of ps] ms by simp
  then show ?thesis by (auto simp: onvifResolve_def resolve_onvif_def)
qed

definition demo_profile :: "string \<Rightarrow> string \<Rightarrow> int \<Rightarrow> int \<Rightarrow> cprofile" where
  "demo_profile t n w h = \<lparr>pf_Token = t, pf_Name = n, SourceToken = ''src'', Width = w, Height = h, PTZConfiguration = False\<rparr>"

definition demo_device :: "cprofile list \<Rightarrow> int device" where
  "demo_device ps = \<lparr>GetProfiles = Soap 200 (Some ps), GetSnapshotUri = (\<lambda>_. Soap 400 None),
     GetStreamUri = (\<lambda>t. Soap 200 (Some (''rtsp://c/'' @ t))), GetDeviceInformation = NoSoap,
     ptz_call = (\<lambda>_. Soap 401 None), SystemReboot = Soap 401 None\<rparr>"

lemma demo_address: "url_Parse ''http://c:80/x'' = Some \<lparr>uri_scheme = ''http'', uri_host = ''c:80'', uri_user = False\<rparr>"
  by code_simp

lemma demo_host: "Hostname \<lparr>uri_scheme = ''http'', uri_host = ''c:80'', uri_user = False\<rparr> = ''c''"
  by code_simp

lemma demo_main_A: "(let lower = ToLower ''A'' in Contains lower ''main'' \<or> Contains lower ''primary'' \<or> Contains lower ''hd'') = False"
  by code_simp

lemma demo_main_Sub: "(let lower = ToLower ''Sub'' in Contains lower ''main'' \<or> Contains lower ''primary'' \<or> Contains lower ''hd'') = False"
  by code_simp

lemma demo_sub_Sub: "(let lower = ToLower ''Sub'' in Contains lower ''sub'' \<or> Contains lower ''secondary'' \<or> Contains lower ''sd'') = True"
  by code_simp

lemma demo_names: "named_main (demo_profile t ''A'' w h) = False" "named_sub (demo_profile t ''Sub'' w h) = True"
  "named_main (demo_profile t ''Sub'' w h) = False"
  by (simp_all only: named_main_def named_sub_def demo_profile_def cprofile.simps demo_main_A demo_main_Sub demo_sub_Sub)

lemma demo_resolution: "resolution (demo_profile t n 0 0) = 0" "resolution (demo_profile t n 640 360) = 230400"
    "resolution (demo_profile t n 1920 1080) = 2073600"
  by (simp_all add: resolution_def demo_profile_def)

theorem onvif_panics_iff_witness:
  "GetStreams (\<lambda>_ _ _. Some (demo_device [demo_profile ''t'' ''A'' 0 0])) ''http://c:80/x'' ''u'' ''p'' = Panics"
  using onvif_panics_iff [OF demo_address, of "\<lambda>_ _ _. Some (demo_device [demo_profile ''t'' ''A'' 0 0])" "''u''" "''p''"]
  by (simp add: demo_device_def demo_names demo_resolution)

text \<open>The sub stream can be taken for the main stream. When no profile is named as a main stream and the
  first profile with a positive resolution is also the first one named as a sub stream, it is chosen for both: the
  resolved camera has the sub stream's address as its main stream and no sub stream, whatever larger profiles
  follow.\<close>

theorem sub_profile_taken_as_main:
  assumes "url_Parse xaddr = Some u" "net (Hostname u @ '':'' @ Port u) user pass = Some dev"
    and "GetProfiles dev = Soap 200 (Some (xs @ p # ys))"
    and "\<forall>q\<in>set (xs @ p # ys). \<not> named_main q" "\<forall>q\<in>set xs. \<not> named_sub q \<and> resolution q \<le> 0"
    and "named_sub p" "resolution p > 0"
    and "GetStreamUri dev (pf_Token p) = Soap st (Some uri)"
  shows "\<exists>info. GetStreams net xaddr user pass = Done info \<and>
    si_Main info = normalizeHost uri (Hostname u) \<and> si_Sub info = ''''"
proof -
  let ?ps = "xs @ p # ys" and ?i = "length xs"
  have nm: "first_from 0 (\<lambda>_. named_main) ?ps = None"
    using assms(4) by (simp only: first_from_None) (metis nth_mem)
  have "first_from 0 (\<lambda>_ q. resolution q > 0) ?ps = Some ?i"
    using assms(5,7) by (subst first_from_skip) (auto simp: not_less)
  moreover have "first_from 0 (\<lambda>k q. named_sub q \<and> None \<noteq> Some k) ?ps = Some ?i"
    using assms(5,6) by (subst first_from_skip) auto
  ultimately have "name_phase 0 ?ps (None, None) = (None, Some ?i)" "chosen_main ?ps = Some ?i"
    using nm by (simp_all add: name_phase_eq Let_def chosen_main_def)
  moreover have "subIdx (resolution_phase 0 ?ps \<lparr>mainIdx = None, subIdx = Some ?i, maxRes = 0, minRes = maxInt, usedSrc = {}\<rparr>) = Some ?i"
    by (rule resolution_keeps(2)) simp
  ultimately have "classifyProfiles ?ps = (Some ?i, Some ?i)"
    using classify_main [of ?ps] by (auto simp: classifyProfiles_def Let_def split: option.splits)
  then have G: "GetStreams net xaddr user pass = fetch_streams dev (Hostname u) ?i (Some ?i) 0 ?ps
       \<lparr>si_Main = '''', si_Sub = '''', si_PTZ = PTZConfiguration p, si_Snapshot = (GetSnapshotUri dev (pf_Token p) \<noteq> NoSoap)\<rparr>"
    using GetStreams_profiles [where u = u and net = net and dev = dev and ps = "?ps" and user = user and pass = pass]
      assms(1-3) by simp
  have skip: "fetch_streams dev (Hostname u) ?i (Some ?i) 0 ?ps info = fetch_streams dev (Hostname u) ?i (Some ?i) ?i (p # ys) info" for info
    using fetch_skips [of 0 xs ?i "Some ?i" dev "Hostname u" "p # ys" info] by simp
  have rest: "fetch_streams dev (Hostname u) ?i (Some ?i) (Suc ?i) ys info = Done info" for info
    using fetch_skips [of "Suc ?i" ys ?i "Some ?i" dev "Hostname u" "[]" info] by simp
  show ?thesis
    unfolding G skip by (simp add: fetchStreamURI_def assms(8) rest Let_def)
qed

theorem sub_profile_taken_as_main_witness:
  "\<exists>info. GetStreams (\<lambda>_ _ _. Some (demo_device [demo_profile ''s'' ''Sub'' 640 360, demo_profile ''m'' ''A'' 1920 1080]))
     ''http://c:80/x'' ''u'' ''p'' = Done info \<and> si_Main info = ''rtsp://c/s'' \<and> si_Sub info = ''''"
proof -
  have "normalizeHost ''rtsp://c/s'' ''c'' = ''rtsp://c/s''" by code_simp
  then show ?thesis
    using sub_profile_taken_as_main [OF demo_address, of
        "\<lambda>_ _ _. Some (demo_device [demo_profile ''s'' ''Sub'' 640 360, demo_profile ''m'' ''A'' 1920 1080])" "''u''" "''p''" _
        "[]" "demo_profile ''s'' ''Sub'' 640 360" "[demo_profile ''m'' ''A'' 1920 1080]" 200 "''rtsp://c/s''"]
    by (simp add: demo_device_def demo_names demo_resolution demo_host) (simp add: demo_profile_def)
qed

text \<open>Property C29: a resolved camera's streams. When the call succeeds, the main stream is the address that the camera
  gave for the first profile named as a main stream, or, if there is none, for the first profile with a positive
  resolution, with its host put right; the sub stream is the address of another profile of the list, or empty.\<close>

theorem onvif_streams_of_profiles:
  assumes "url_Parse xaddr = Some u" "net (Hostname u @ '':'' @ Port u) user pass = Some dev"
    and "GetProfiles dev = Soap 200 (Some ps)" "GetStreams net xaddr user pass = Done info"
  shows "\<exists>m. chosen_main ps = Some m \<and> m < length ps \<and> uri_at dev (Hostname u) (ps ! m) (si_Main info) \<and>
    si_PTZ info = PTZConfiguration (ps ! m) \<and>
    (si_Sub info = '''' \<or> (\<exists>j < length ps. j \<noteq> m \<and> uri_at dev (Hostname u) (ps ! j) (si_Sub info)))"
proof -
  have ne: "ps \<noteq> []" using assms by (auto simp: GetStreams_def connect_def)
  obtain c s where cs: "classifyProfiles ps = (c, s)" by fastforce
  then obtain m where m: "c = Some m"
    using assms(4) by (cases c) (auto simp: GetStreams_profiles [where net = net, OF assms(1-3) ne])
  have range: "m < length ps" "\<forall>j. s = Some j \<longrightarrow> j < length ps" using classify_range [OF cs] m by auto
  have "chosen_main ps = Some m" using classify_main [of ps] cs m by simp
  moreover have "fetch_streams dev (Hostname u) m s 0 ps \<lparr>si_Main = '''', si_Sub = '''', si_PTZ = PTZConfiguration (ps ! m),
      si_Snapshot = (GetSnapshotUri dev (pf_Token (ps ! m)) \<noteq> NoSoap)\<rparr> = Done info"
    using assms(4) cs m by (simp add: GetStreams_profiles [where net = net, OF assms(1-3) ne])
  from fetch_streams_done [OF this] range have
    "uri_at dev (Hostname u) (ps ! m) (si_Main info)" "si_PTZ info = PTZConfiguration (ps ! m)"
    "si_Sub info = '''' \<or> (\<exists>j < length ps. j \<noteq> m \<and> uri_at dev (Hostname u) (ps ! j) (si_Sub info))"
    by (auto split: option.splits if_splits)
  ultimately show ?thesis using range(1) by blast
qed

theorem onvif_streams_of_profiles_witness:
  "\<exists>info. GetStreams (\<lambda>_ _ _. Some (demo_device [demo_profile ''s'' ''Sub'' 640 360])) ''http://c:80/x'' ''u'' ''p'' = Done info \<and>
     uri_at (demo_device [demo_profile ''s'' ''Sub'' 640 360]) ''c'' (demo_profile ''s'' ''Sub'' 640 360) (si_Main info)"
proof -
  let ?d = "demo_device [demo_profile ''s'' ''Sub'' 640 360]"
  have "classifyProfiles [demo_profile ''s'' ''Sub'' 640 360] = (Some 0, Some 0)"
    by (simp add: classifyProfiles_def demo_names demo_resolution resolution_step_def Let_def)
  then obtain info where info: "GetStreams (\<lambda>_ _ _. Some ?d) ''http://c:80/x'' ''u'' ''p'' = Done info"
    using GetStreams_profiles [OF demo_address, of "\<lambda>_ _ _. Some ?d" "''u''" "''p''" ?d "[demo_profile ''s'' ''Sub'' 640 360]"]
    by (auto simp: demo_device_def fetchStreamURI_def Let_def)
  have "GetProfiles ?d = Soap 200 (Some [demo_profile ''s'' ''Sub'' 640 360])" by (simp add: demo_device_def)
  from onvif_streams_of_profiles [where net = "\<lambda>_ _ _. Some ?d" and dev = ?d, OF demo_address _ this info] show ?thesis
    using info by (auto simp: demo_host)
qed

text \<open>A command is reported as done whatever the camera answered: nothing looks at the status, so that a camera that refuses
  the login, or the movement, or the reboot, is reported as moved or rebooting.\<close>

lemma refused_command_reported_done:
  assumes "url_Parse xaddr = Some u" "net (Hostname u @ '':'' @ Port u) user pass = Some dev"
    and "GetProfiles dev = Soap status (Some ps)" "chosen_main ps \<noteq> None"
    and "\<forall>c. ptz_call dev c = Soap 401 None" "SystemReboot dev = Soap 401 None"
  shows "onvifPTZ net (Some \<lparr>pr_Endpoint = xaddr, pr_Username = user, pr_Password = pass, pr_Pan = a, pr_Tilt = b, pr_Zoom = c,
      pr_Stop = d\<rparr>) = (200, Some ())" "onvifReboot net (Some (xaddr, user, pass)) = (200, Some ())"
proof -
  obtain m s where c: "classifyProfiles ps = (Some m, s)"
    using classify_main [of ps] assms(4) by (cases "classifyProfiles ps") auto
  then have "ps \<noteq> []" using classify_range [OF c] by auto
  with c assms show "onvifPTZ net (Some \<lparr>pr_Endpoint = xaddr, pr_Username = user, pr_Password = pass, pr_Pan = a, pr_Tilt = b,
      pr_Zoom = c, pr_Stop = d\<rparr>) = (200, Some ())"
    by (auto simp: onvifPTZ_def PTZMove_def PTZStop_def connect_def with_main_token_def answer_def)
  show "onvifReboot net (Some (xaddr, user, pass)) = (200, Some ())"
    using assms(1,2,6) by (simp add: onvifReboot_def Reboot_def connect_def answer_def)
qed

text \<open>A camera that answers with an empty address: the device's host name is returned as the stream, and the check for an
  empty main stream in the adapter does not see it.\<close>

lemma empty_uri_gives_hostname:
  assumes "host \<noteq> ''''"
  shows "normalizeHost '''' host = host"
proof -
  have p: "url_Parse '''' = Some \<lparr>uri_scheme = '''', uri_host = '''', uri_user = False\<rparr>" by code_simp
  have h: "Hostname \<lparr>uri_scheme = '''', uri_host = '''', uri_user = False\<rparr> = ''''" by code_simp
  show ?thesis using assms by (simp add: normalizeHost_def p h ReplaceAll_def insert_between.simps)
qed

text \<open>The host is replaced wherever its text occurs, also in the path.\<close>

lemma host_replaced_in_path: "normalizeHost ''rtsp://a/main'' ''b'' = ''rtsp://b/mbin''"
  by code_simp

end
