(* ===== verification/Go_Paths.thy ===== *)
theory Go_Paths
  imports Go_Strings
begin

section \<open>File paths\<close>

text \<open>
  What the server uses of \<open>path/filepath\<close> on Unix: \<open>Clean\<close>, \<open>Join\<close> and \<open>Base\<close>. A path is cleaned by pushing its
  elements on a stack; \<open>elements\<close> is what is left of a path after cleaning. The main result: joining a root
  with elements that are not two dots only adds to the root's elements.
\<close>

text \<open>The stack is the reversed list of the elements kept.\<close>

fun clean_stack :: "bool \<Rightarrow> string list \<Rightarrow> string list \<Rightarrow> string list" where
  "clean_stack rooted stk [] = stk"
| "clean_stack rooted stk (e # es) =
     (if e = '''' \<or> e = ''.'' then clean_stack rooted stk es
      else if e = ''..'' then
        (case stk of
           [] \<Rightarrow> clean_stack rooted (if rooted then [] else [''..'']) es
         | t # ts \<Rightarrow> clean_stack rooted (if t = ''..'' then ''..'' # stk else ts) es)
      else clean_stack rooted (e # stk) es)"

fun join_slash :: "string list \<Rightarrow> string" where
  "join_slash [] = ''''"
| "join_slash [e] = e"
| "join_slash (e # es) = e @ CHR ''/'' # join_slash es"

definition rooted :: "string \<Rightarrow> bool" where
  "rooted p \<longleftrightarrow> p \<noteq> '''' \<and> hd p = CHR ''/''"

definition elements :: "string \<Rightarrow> string list" where
  "elements p = rev (clean_stack (rooted p) [] (Split (CHR ''/'') p))"

definition Clean :: "string \<Rightarrow> string" where
  "Clean p =
     (let out = join_slash (elements p) in
      if rooted p then CHR ''/'' # out else if out = '''' then ''.'' else out)"

definition Join :: "string list \<Rightarrow> string" where
  "Join es = (case dropWhile (\<lambda>e. e = '''') es of [] \<Rightarrow> '''' | es' \<Rightarrow> Clean (join_slash es'))"

definition Base :: "string \<Rightarrow> string" where
  "Base p =
     (if p = '''' then ''.''
      else let b = last (Split (CHR ''/'') (TrimRightSlash p)) in if b = '''' then ''/'' else b)"

subsection \<open>Elements\<close>

lemma Split_slash_free: "e \<in> set (Split c p) \<Longrightarrow> c \<notin> set e"
  by (induction p arbitrary: e) (auto split: if_splits list.splits)

lemma Split_join_slash:
  "es \<noteq> [] \<Longrightarrow> \<forall>e\<in>set es. CHR ''/'' \<notin> set e \<Longrightarrow> Split (CHR ''/'') (join_slash es) = es"
  by (induction es rule: join_slash.induct) (auto simp: Split_none Split_append)

lemma Split_app: "Split c (p @ c # q) = Split c p @ Split c q"
  by (induction p) (auto split: list.splits)

lemma join_slash_Split: "join_slash (Split (CHR ''/'') p) = p"
proof (induction p)
  case (Cons x xs)
  then show ?case by (cases "Split (CHR ''/'') xs" rule: join_slash.cases) auto
qed simp

lemma clean_stack_append: "clean_stack r stk (xs @ ys) = clean_stack r (clean_stack r stk xs) ys"
  by (induction r stk xs rule: clean_stack.induct) (auto split: list.splits)

text \<open>A cleaned stack: no empty element and no single dot, and two dots only below everything else, in a path that is
  not rooted.\<close>

definition stack_ok :: "bool \<Rightarrow> string list \<Rightarrow> bool" where
  "stack_ok r stk \<longleftrightarrow> '''' \<notin> set stk \<and> ''.'' \<notin> set stk \<and> (\<forall>e\<in>set stk. CHR ''/'' \<notin> set e) \<and>
     (\<exists>a n. stk = a @ replicate n ''..'' \<and> ''..'' \<notin> set a \<and> (r \<longrightarrow> n = 0))"

lemma stack_ok_clean:
  "stack_ok r stk \<Longrightarrow> \<forall>e\<in>set es. CHR ''/'' \<notin> set e \<Longrightarrow> stack_ok r (clean_stack r stk es)"
proof (induction r stk es rule: clean_stack.induct)
  case (2 r stk e es)
  obtain a n where a: "stk = a @ replicate n ''..''" "''..'' \<notin> set a" "r \<longrightarrow> n = 0"
    using 2(5) by (auto simp: stack_ok_def)
  have push: "stack_ok r (e # stk)" if "e \<noteq> ''''" "e \<noteq> ''.''" "e \<noteq> ''..''"
  proof -
    have "e # stk = (e # a) @ replicate n ''..''" "''..'' \<notin> set (e # a)" using a that(3) by auto
    then show ?thesis using that 2(5,6) a(3) unfolding stack_ok_def by (metis list.set_intros(1) set_ConsD)
  qed
  have dots: "stack_ok r (''..'' # stk)" if "\<not> r" "a = []"
    using that 2(5) a unfolding stack_ok_def by (auto intro!: exI [of _ "[]"] exI [of _ "Suc n"])
  have pop: "stack_ok r ts" if "stk = t # ts" "t \<noteq> ''..''" for t ts
  proof -
    from that a obtain a' where a': "a = t # a'" "ts = a' @ replicate n ''..''" by (cases a; cases n) auto
    then have "''..'' \<notin> set a'" using a by simp
    then show ?thesis using that 2(5) a' a(3) unfolding stack_ok_def by (metis list.set_intros(2))
  qed
  show ?case
  proof (cases "e = '''' \<or> e = ''.''")
    case True
    then show ?thesis using 2 by auto
  next
    case False
    show ?thesis
    proof (cases "e = ''..''")
      case dd: True
      show ?thesis
      proof (cases stk)
        case Nil
        then show ?thesis using 2 dd dots a by (cases r) auto
      next
        case (Cons t ts)
        then have "t = ''..'' \<Longrightarrow> a = [] \<and> \<not> r" using a by (cases a; cases n) auto
        then show ?thesis using 2 dd Cons dots pop by auto
      qed
    next
      case nd: False
      then show ?thesis using 2 False push by auto
    qed
  qed
qed simp

lemma stack_ok_elements: "stack_ok (rooted p) (rev (elements p))"
proof -
  have "stack_ok (rooted p) []" by (auto simp: stack_ok_def)
  then show ?thesis using stack_ok_clean Split_slash_free by (simp add: elements_def)
qed

text \<open>Elements that are not two dots stay above the root.\<close>

definition kept :: "string list \<Rightarrow> string list" where
  "kept es = filter (\<lambda>e. e \<noteq> '''' \<and> e \<noteq> ''.'') es"

lemma clean_stack_plain: "''..'' \<notin> set es \<Longrightarrow> clean_stack r stk es = rev (kept es) @ stk"
  by (induction r stk es rule: clean_stack.induct) (auto simp: kept_def)

lemma elements_append:
  assumes "p \<noteq> ''''" "''..'' \<notin> set (Split (CHR ''/'') q)"
  shows "elements (p @ CHR ''/'' # q) = elements p @ kept (Split (CHR ''/'') q)"
proof -
  have "rooted (p @ CHR ''/'' # q) = rooted p" using assms(1) by (cases p) (auto simp: rooted_def)
  then show ?thesis
    by (simp add: elements_def Split_app clean_stack_append clean_stack_plain [OF assms(2)])
qed

text \<open>Cleaning does not change what the elements are.\<close>

lemma clean_stack_idem: "stack_ok r stk \<Longrightarrow> clean_stack r [] (rev stk) = stk"
proof -
  assume ok: "stack_ok r stk"
  then obtain a n where a: "stk = a @ replicate n ''..''" "''..'' \<notin> set a" "r \<longrightarrow> n = 0" by (auto simp: stack_ok_def)
  have dot: "clean_stack r (replicate k ''..'') (''..'' # es) = clean_stack r (replicate (Suc k) ''..'') es" if "\<not> r" for k es
    using that by (cases k) auto
  have dots: "clean_stack r (replicate k ''..'') (replicate n ''..'') = replicate (n + k) ''..''" if "r \<longrightarrow> n = 0" for k n
    using that
  proof (induction n arbitrary: k)
    case (Suc n)
    then show ?case using dot [of k "replicate n ''..''"] Suc.IH [of "Suc k"] by (simp del: clean_stack.simps)
  qed simp
  have "kept (rev a) = rev a" using ok a by (auto simp: kept_def stack_ok_def filter_id_conv)
  then show ?thesis
    using a dots [of n 0] by (simp add: clean_stack_append clean_stack_plain)
qed

lemma elements_Clean: "elements (Clean p) = elements p"
proof -
  let ?es = "elements p"
  have ok: "stack_ok (rooted p) (rev ?es)" by (rule stack_ok_elements)
  then have free: "\<forall>e\<in>set ?es. CHR ''/'' \<notin> set e" "'''' \<notin> set ?es" by (auto simp: stack_ok_def)
  have idem: "clean_stack (rooted p) [] ?es = rev ?es" using clean_stack_idem [OF ok] by simp
  show ?thesis
  proof (cases "rooted p")
    case True
    then have r: "Clean p = CHR ''/'' # join_slash ?es" "rooted (Clean p)" by (auto simp: Clean_def Let_def rooted_def)
    then have "Split (CHR ''/'') (Clean p) = [] # (if ?es = [] then [[]] else ?es)"
      using Split_join_slash [of ?es] free by auto
    moreover have "elements (Clean p) = rev (clean_stack True [] (Split (CHR ''/'') (Clean p)))"
      using r(2) by (simp only: elements_def)
    ultimately show ?thesis using True idem by auto
  next
    case False
    show ?thesis
    proof (cases "?es = []")
      case True
      with False have "Clean p = ''.''" by (simp add: Clean_def)
      with True show ?thesis by (simp add: elements_def rooted_def)
    next
      case ne: False
      then have "join_slash ?es \<noteq> ''''" "hd (join_slash ?es) \<noteq> CHR ''/''"
        using free by (cases ?es rule: join_slash.cases; cases "hd ?es"; auto)+
      then have c: "Clean p = join_slash ?es" "\<not> rooted (Clean p)" using False by (auto simp: Clean_def rooted_def)
      then have "Split (CHR ''/'') (Clean p) = ?es" using Split_join_slash ne free by simp
      moreover have "elements (Clean p) = rev (clean_stack False [] (Split (CHR ''/'') (Clean p)))"
        using c(2) by (simp only: elements_def)
      ultimately show ?thesis using False idem by auto
    qed
  qed
qed

lemma elements_Join:
  assumes "root \<noteq> ''''" "''..'' \<notin> set (Split (CHR ''/'') q)" "join_slash es = root @ CHR ''/'' # q" "es \<noteq> []" "hd es \<noteq> ''''"
  shows "elements (Join es) = elements root @ kept (Split (CHR ''/'') q)"
proof -
  have "Join es = Clean (join_slash es)" using assms(4,5) by (cases es) (auto simp: Join_def)
  then show ?thesis using assms elements_append by (simp add: elements_Clean)
qed

end
