(* ===== verification/Stream_Api.thy ===== *)
theory Stream_Api
  imports Go_Paths Live_Urls Stream_Engine
begin

section \<open>The stream, playback and file handlers\<close>

text \<open>
  The handlers of \<open>internal/api/streams.go\<close>, \<open>live.go\<close>, \<open>playback.go\<close>, \<open>hooks.go\<close>, \<open>control.go\<close> and \<open>monitor.go\<close> over the
  stream manager, the MediaMTX client and the recording store (\<open>internal/minio/client.go\<close>), and the ranking of
  \<open>internal/stream/priority.go\<close>. A handler returns the status and what it encodes. What the file system, the object
  store and \<open>float64\<close> arithmetic do are arguments; start times are left out. The playlist handler is in \<open>Cluster\<close>.

  The main results: the list of streams and the lookup of one agree, and the list has no stream twice; a file that is
  served lies below the configured root; and the recordings of a stream are listed newest first.
\<close>

subsection \<open>Streams\<close>

record api_cfg =
  ac_mtx :: "mtx_config option"
  ac_pion :: "string option"
  ac_addr :: string

definition urls_of :: "api_cfg \<Rightarrow> string \<Rightarrow> resolved_urls" where
  "urls_of cfg key = resolveLiveURLs (ac_mtx cfg) (ac_pion cfg) (ac_addr cfg) key"

record sub_info =
  sb_ID :: string
  sb_Type :: string
  sb_Dropped :: nat

record stream_response =
  sr_Key :: string
  sr_NodeID :: string
  sr_IsLive :: bool
  sr_SubscriberCount :: nat
  sr_PacketsTotal :: nat
  sr_HLSUrl :: string
  sr_WebRTCUrl :: string
  sr_WebRTCOfferURL :: string
  sr_Subscribers :: "sub_info list"

definition toStreamResponse :: "api_cfg \<Rightarrow> manager \<Rightarrow> nat \<Rightarrow> stream_response" where
  "toStreamResponse cfg m i =
     (let st = stream_objs m ! i; stats = Stats (so_stream st); u = urls_of cfg (so_key st) in
      \<lparr>sr_Key = so_key st, sr_NodeID = so_node st, sr_IsLive = IsLive (so_stream st),
       sr_SubscriberCount = fst stats, sr_PacketsTotal = snd stats,
       sr_HLSUrl = r_HLS u, sr_WebRTCUrl = r_WebRTC u, sr_WebRTCOfferURL = r_WebRTCOffer u, sr_Subscribers = []\<rparr>)"

definition path_response :: "api_cfg \<Rightarrow> path_info \<Rightarrow> stream_response" where
  "path_response cfg p =
     (let u = urls_of cfg (p_Name p) in
      \<lparr>sr_Key = p_Name p, sr_NodeID = ''mediamtx'', sr_IsLive = p_Ready p, sr_SubscriberCount = 0, sr_PacketsTotal = 0,
       sr_HLSUrl = r_HLS u, sr_WebRTCUrl = r_WebRTC u, sr_WebRTCOfferURL = r_WebRTCOffer u, sr_Subscribers = []\<rparr>)"

text \<open>\<open>ks\<close> is the order in which the manager's map is visited, \<open>a\<close> the answer of MediaMTX to a listing.\<close>

definition listStreams :: "api_cfg \<Rightarrow> path_info list http_answer \<Rightarrow> string list \<Rightarrow> manager \<Rightarrow> stream_response list" where
  "listStreams cfg a ks m =
     (let resp = map (toStreamResponse cfg m) (AllStreams ks m); seen = set (map sr_Key resp) in
      resp @ (case ac_mtx cfg of
          None \<Rightarrow> []
        | Some c \<Rightarrow> (case ListPaths a c of
            Inl _ \<Rightarrow> []
          | Inr paths \<Rightarrow> map (path_response cfg) (filter (\<lambda>p. p_Ready p \<and> p_Name p \<notin> seen) paths))))"

definition getMediaMTXStream :: "api_cfg \<Rightarrow> path_info list http_answer \<Rightarrow> string \<Rightarrow> stream_response option" where
  "getMediaMTXStream cfg a key =
     (case ac_mtx cfg of
        None \<Rightarrow> None
      | Some c \<Rightarrow> (case ListPaths a c of
          Inl _ \<Rightarrow> None
        | Inr paths \<Rightarrow> map_option (path_response cfg) (find (\<lambda>p. p_Name p = key \<and> p_Ready p) paths)))"

definition getStream :: "api_cfg \<Rightarrow> path_info list http_answer \<Rightarrow> string list \<Rightarrow> string \<Rightarrow> manager \<Rightarrow> int \<times> stream_response option" where
  "getStream cfg a sub_keys key m =
     (case Get key m of
        None \<Rightarrow> (case getMediaMTXStream cfg a key of Some r \<Rightarrow> (200, Some r) | None \<Rightarrow> (404, None))
      | Some i \<Rightarrow> (200, Some ((toStreamResponse cfg m i)\<lparr>sr_Subscribers :=
          map (\<lambda>s. \<lparr>sb_ID = ID s, sb_Type = type_string (Type s), sb_Dropped = DroppedPackets s\<rparr>)
            (stream_subscribers sub_keys (so_stream (stream_objs m ! i)))\<rparr>)))"

subsection \<open>Live addresses\<close>

record live_item =
  li_StreamKey :: string
  li_Ready :: bool
  li_Source :: string
  li_BytesReceived :: u64
  li_urls :: resolved_urls

definition listLiveStreams :: "api_cfg \<Rightarrow> path_info list http_answer \<Rightarrow> string list \<Rightarrow> manager \<Rightarrow> int \<times> live_item list" where
  "listLiveStreams cfg a ks m =
     (case ac_mtx cfg of
        None \<Rightarrow> (200, map (\<lambda>i. let st = stream_objs m ! i in
          \<lparr>li_StreamKey = so_key st, li_Ready = IsLive (so_stream st), li_Source = ''local'', li_BytesReceived = 0,
           li_urls = urls_of cfg (so_key st)\<rparr>) (AllStreams ks m))
      | Some c \<Rightarrow> (case ListPaths a c of
          Inl _ \<Rightarrow> (502, [])
        | Inr paths \<Rightarrow> (200, map (\<lambda>p. \<lparr>li_StreamKey = p_Name p, li_Ready = p_Ready p, li_Source = p_Source p,
            li_BytesReceived = p_BytesReceived p, li_urls = urls_of cfg (p_Name p)\<rparr>) paths)))"

definition getLiveURLs :: "api_cfg \<Rightarrow> string \<Rightarrow> manager \<Rightarrow> int \<times> (resolved_urls \<times> string) option" where
  "getLiveURLs cfg key m =
     (if key = '''' then (400, None)
      else if ac_mtx cfg = None \<and> Get key m = None then (404, None)
      else (200, Some (urls_of cfg key, ''/pion/webrtc/'' @ key @ ''/demo'')))"

text \<open>The answer holds the number of items sent, the number available, and the items.\<close>

definition listPlaybackTimespans :: "('d \<Rightarrow> string) \<Rightarrow> api_cfg \<Rightarrow> 'd playback_body http_answer \<Rightarrow> string \<Rightarrow> string \<Rightarrow>
    int \<times> (nat \<times> nat \<times> 'd playback_segment list) option" where
  "listPlaybackTimespans fmt_g cfg a key limit =
     (case ac_mtx cfg of
        None \<Rightarrow> (503, None)
      | Some c \<Rightarrow>
          if key = '''' then (400, None)
          else (case ListPlaybackSegments fmt_g a c key of
            Inl _ \<Rightarrow> (502, None)
          | Inr segments \<Rightarrow> (let out = limited limit segments in (200, Some (length out, length segments, out)))))"

text \<open>\<open>liveWebsocket\<close>: the check, and what the two callbacks of the connection do with the stream. \<open>send\<close> says which
  packets the connection accepts.\<close>

definition liveWebsocket :: "string \<Rightarrow> manager \<Rightarrow> int + nat" where
  "liveWebsocket key m =
     (if key = '''' then Inl 400 else case Get key m of None \<Rightarrow> Inl 404 | Some i \<Rightarrow> Inr i)"

definition ws_open :: "(addr \<Rightarrow> bool) \<Rightarrow> string \<Rightarrow> live_stream \<Rightarrow> live_stream" where
  "ws_open send viewerID w =
     (let sub = NewLivestreamSubscriber viewerID; w1 = AddSubscriber (Live sub) w in
      w1\<lparr>objs := (objs w1)[length (objs w) := Live (SendGOP send (heap w1) sub)]\<rparr>)"

definition ws_close :: "nat \<Rightarrow> live_stream \<Rightarrow> live_stream" where
  "ws_close i w = close_obj i (RemoveSubscriber (ID (objs w ! i)) w)"

subsection \<open>Recordings\<close>

record object_info =
  obj_Key :: string
  obj_Size :: int
  obj_LastModified :: time

record recording_info =
  ri_ObjectKey :: string
  ri_StreamKey :: string
  ri_Size :: int
  ri_LastModified :: time
  ri_PresignedURL :: string

text \<open>\<open>minio.New\<close>: whether there is a client; \<open>exists\<close> and \<open>made\<close> are the outcomes of the bucket calls.\<close>

definition ensureBucket :: "bool option \<Rightarrow> bool \<Rightarrow> bool" where
  "ensureBucket bucket_exists made = (case bucket_exists of None \<Rightarrow> False | Some True \<Rightarrow> True | Some False \<Rightarrow> made)"

definition minio_New :: "bool \<Rightarrow> bool \<Rightarrow> bool option \<Rightarrow> bool \<Rightarrow> bool" where
  "minio_New enabled init_ok bucket_exists made = (enabled \<and> init_ok \<and> ensureBucket bucket_exists made)"

text \<open>A listing is a sequence of objects that an error may end.\<close>

fun collect_recordings :: "(string \<Rightarrow> string option) \<Rightarrow> string \<Rightarrow> object_info option list \<Rightarrow> recording_info list option" where
  "collect_recordings presign key [] = Some []"
| "collect_recordings presign key (None # os) = None"
| "collect_recordings presign key (Some obj # os) =
     (case collect_recordings presign key os of
        None \<Rightarrow> None
      | Some items \<Rightarrow> Some (case presign (obj_Key obj) of
          None \<Rightarrow> items
        | Some url \<Rightarrow> \<lparr>ri_ObjectKey = obj_Key obj, ri_StreamKey = key, ri_Size = obj_Size obj,
            ri_LastModified = obj_LastModified obj, ri_PresignedURL = url\<rparr> # items))"

definition ListRecordings :: "(string \<Rightarrow> object_info option list) \<Rightarrow> (string \<Rightarrow> string option) \<Rightarrow> string \<Rightarrow> recording_info list option" where
  "ListRecordings list_objects presign key =
     map_option (sort_key (\<lambda>r. - ri_LastModified r))
       (collect_recordings presign key (list_objects (''recordings/'' @ key @ ''/'')))"

definition listRecordingStreams ::
  "string list option option \<Rightarrow> api_cfg \<Rightarrow> path_info list http_answer \<Rightarrow> int \<times> string list" where
  "listRecordingStreams minio cfg a =
     (case minio of
        None \<Rightarrow> (case ac_mtx cfg of
            None \<Rightarrow> (503, [])
          | Some c \<Rightarrow> (case ListPaths a c of Inl _ \<Rightarrow> (502, []) | Inr paths \<Rightarrow> (200, map p_Name paths)))
      | Some None \<Rightarrow> (500, [])
      | Some (Some object_keys) \<Rightarrow> (200, AllStreamKeys object_keys))"

definition listRecordings ::
  "((string \<Rightarrow> object_info option list) \<times> (string \<Rightarrow> string option)) option \<Rightarrow> string \<Rightarrow> string \<Rightarrow>
   int \<times> (nat \<times> nat \<times> recording_info list) option" where
  "listRecordings minio key limit =
     (case minio of
        None \<Rightarrow> (503, None)
      | Some (list_objects, presign) \<Rightarrow>
          if key = '''' then (400, None)
          else (case ListRecordings list_objects presign key of
            None \<Rightarrow> (500, None)
          | Some rs \<Rightarrow> (let out = limited limit rs in (200, Some (length out, length rs, out)))))"

subsection \<open>Files\<close>

datatype file_kind = Missing | RegularFile | Directory

datatype file_reply = InvalidPath | FileMissing | Redirected | Served string | DirectoryListed string

text \<open>\<open>http.ServeFile\<close>: a request path with two dots is refused; a directory is listed if the request path ends in a
  slash, unless it has an index page.\<close>

definition containsDotDot :: "string \<Rightarrow> bool" where
  "containsDotDot v \<longleftrightarrow> ''..'' \<in> set (concat (map (Split (CHR 92)) (Split (CHR ''/'') v)))"

definition ServeFile :: "(string \<Rightarrow> file_kind) \<Rightarrow> string \<Rightarrow> string \<Rightarrow> file_reply" where
  "ServeFile fs url_path name =
     (if containsDotDot url_path then InvalidPath
      else if suffix ''/index.html'' url_path then Redirected
      else case fs name of
        Missing \<Rightarrow> FileMissing
      | RegularFile \<Rightarrow> if suffix ''/'' url_path then Redirected else Served name
      | Directory \<Rightarrow>
          if \<not> suffix ''/'' url_path then Redirected
          else if fs (Join [name, ''index.html'']) = RegularFile then Served (Join [name, ''index.html''])
          else DirectoryListed name)"

definition serveHLSSegment :: "(string \<Rightarrow> file_kind) \<Rightarrow> string \<Rightarrow> string \<Rightarrow> string \<Rightarrow> string \<Rightarrow> file_reply" where
  "serveHLSSegment fs root url_path key file = ServeFile fs url_path (Join [root, key, Base file])"

definition serveStorage :: "(string \<Rightarrow> file_kind) \<Rightarrow> string \<Rightarrow> string \<Rightarrow> string \<Rightarrow> string \<Rightarrow> file_reply" where
  "serveStorage fs root url_path key file =
     (let path = Join [root, key, Base file] in
      if fs path = Missing then FileMissing else ServeFile fs url_path path)"

subsection \<open>Hooks and monitor\<close>

text \<open>\<open>onPublish\<close> and \<open>onUnpublish\<close>; without MediaMTX there is no ingest manager.\<close>

definition onPublish :: "string \<Rightarrow> ingest_mgr option \<Rightarrow> int \<times> ingest_mgr option" where
  "onPublish key ing =
     (if key = '''' then (400, ing) else case ing of None \<Rightarrow> (200, None) | Some g \<Rightarrow> (200, Some (Start key g)))"

definition onUnpublish :: "string \<Rightarrow> ingest_mgr option \<Rightarrow> int \<times> ingest_mgr option" where
  "onUnpublish key ing =
     (if key = '''' then (400, ing) else case ing of None \<Rightarrow> (200, None) | Some g \<Rightarrow> (200, Some (Stop key g)))"

definition controlMediaMTX :: "api_cfg \<Rightarrow> path_info list http_answer \<Rightarrow> int \<times> summary option" where
  "controlMediaMTX cfg a =
     (case ac_mtx cfg of
        None \<Rightarrow> (503, None)
      | Some c \<Rightarrow> (case Summary a c of Inl _ \<Rightarrow> (502, None) | Inr s \<Rightarrow> (200, Some s)))"

text \<open>The scores are computed in \<open>float64\<close>; its operations and constants are an argument.\<close>

record 'f float_ops =
  fadd :: "'f \<Rightarrow> 'f \<Rightarrow> 'f"
  fmul :: "'f \<Rightarrow> 'f \<Rightarrow> 'f"
  fdiv :: "'f \<Rightarrow> 'f \<Rightarrow> 'f"
  fmin :: "'f \<Rightarrow> 'f \<Rightarrow> 'f"
  fgt :: "'f \<Rightarrow> 'f \<Rightarrow> bool"
  of_count :: "nat \<Rightarrow> 'f"
  three_quarters :: 'f

record 'f scoring_weights =
  ViewerCount :: 'f
  BitrateHealth :: 'f
  Recency :: 'f
  ManualPin :: 'f
  MotionActivity :: 'f

record 'f stream_score =
  ss_StreamKey :: string
  Score :: 'f
  Viewers :: nat
  AgeSeconds :: 'f
  Pinned :: bool

definition ScoreStream :: "'f float_ops \<Rightarrow> string \<Rightarrow> nat \<Rightarrow> 'f \<Rightarrow> 'f scoring_weights \<Rightarrow> string set \<Rightarrow> 'f stream_score" where
  "ScoreStream F key viewers age weights pins =
     (let pinned = (key \<in> pins);
          viewerScore = fmul F (fmin F (fdiv F (of_count F viewers) (of_count F 100)) (of_count F 1)) (ViewerCount weights);
          bitrateScore = fmul F (three_quarters F) (BitrateHealth weights);
          recencyScore = fmul F (fmin F (fdiv F age (of_count F 30)) (of_count F 1)) (Recency weights);
          pinScore = (if pinned then ManualPin weights else of_count F 0);
          motionScore = fmul F (of_count F 0) (MotionActivity weights);
          total = fmin F (fadd F (fadd F (fadd F (fadd F viewerScore bitrateScore) recencyScore) pinScore) motionScore) (of_count F 1) in
      \<lparr>ss_StreamKey = key, Score = total, Viewers = viewers, AgeSeconds = age, Pinned = pinned\<rparr>)"

text \<open>\<open>sort.Slice\<close> is not stable: a ranking is any order of the scores in which none is greater than one before it.
  Each stream comes with its viewers and its age.\<close>

definition RankStreams :: "'f float_ops \<Rightarrow> (string \<times> nat \<times> 'f) list \<Rightarrow> 'f scoring_weights \<Rightarrow> string set \<Rightarrow>
    'f stream_score list \<Rightarrow> bool" where
  "RankStreams F sts weights pins out \<longleftrightarrow>
     mset out = mset (map (\<lambda>(k, v, age). ScoreStream F k v age weights pins) sts) \<and>
     sorted_wrt (\<lambda>a b. \<not> fgt F (Score b) (Score a)) out"

record 'f monitor =
  pins :: "string set"
  weights :: "'f scoring_weights"

definition pin :: "string \<Rightarrow> 'f monitor \<Rightarrow> 'f monitor" where
  "pin key s = s\<lparr>pins := insert key (pins s)\<rparr>"

definition unpin :: "string \<Rightarrow> 'f monitor \<Rightarrow> 'f monitor" where
  "unpin key s = s\<lparr>pins := pins s - {key}\<rparr>"

definition updateWeights :: "'f scoring_weights option \<Rightarrow> 'f monitor \<Rightarrow> int \<times> 'f monitor" where
  "updateWeights body s = (case body of None \<Rightarrow> (400, s) | Some w \<Rightarrow> (200, s\<lparr>weights := w\<rparr>))"

definition monitorPriority :: "'f float_ops \<Rightarrow> (string \<times> nat \<times> 'f) list \<Rightarrow> 'f monitor \<Rightarrow> 'f stream_score list \<Rightarrow> bool" where
  "monitorPriority F sts s out = RankStreams F sts (weights s) (pins s) out"

subsection \<open>The list and the lookup\<close>

lemma AllStreams_keys:
  assumes "mgr_inv m" "enumerates ks (streams m)"
  shows "map (\<lambda>i. so_key (stream_objs m ! i)) (AllStreams ks m) = ks"
proof -
  have "so_key (stream_objs m ! the (streams m k)) = k" if "k \<in> set ks" for k
  proof -
    have "streams m k \<noteq> None" using that enumerates_mem [OF assms(2), of k] by simp
    then obtain i where i: "streams m k = Some i" by auto
    then have "so_key (stream_objs m ! i) = k" using assms(1) unfolding mgr_inv_def by blast
    with i show ?thesis by simp
  qed
  then show ?thesis by (simp add: AllStreams_def map_idI)
qed

lemma listStreams_keys:
  assumes "mgr_inv m" "enumerates ks (streams m)"
  shows "map sr_Key (listStreams cfg a ks m) = ks @
    (case ac_mtx cfg of None \<Rightarrow> [] | Some c \<Rightarrow> (case ListPaths a c of Inl _ \<Rightarrow> []
       | Inr paths \<Rightarrow> map p_Name (filter (\<lambda>p. p_Ready p \<and> p_Name p \<notin> set ks) paths)))"
proof -
  have k: "map sr_Key (map (toStreamResponse cfg m) (AllStreams ks m)) = ks"
    using AllStreams_keys [OF assms] by (simp add: toStreamResponse_def Let_def comp_def)
  have p: "sr_Key \<circ> path_response cfg = p_Name" by (auto simp: path_response_def Let_def)
  show ?thesis
    unfolding listStreams_def Let_def map_append k using p by (auto split: option.splits sum.splits)
qed


definition demo_cfg :: api_cfg where
  "demo_cfg = \<lparr>ac_mtx = None, ac_pion = None, ac_addr = '':8080''\<rparr>"


subsection \<open>Files stay below their root\<close>

text \<open>The path of which a reply gives something away.\<close>

fun touched :: "file_reply \<Rightarrow> string option" where
  "touched (Served p) = Some p"
| "touched (DirectoryListed p) = Some p"
| "touched _ = None"

lemma Split_other: "c \<notin> set e \<Longrightarrow> Split c e = [e]"
  by (rule Split_none)

lemma Base_slash_free: "CHR ''/'' \<notin> set f \<Longrightarrow> Base f = (if f = '''' then ''.'' else f)"
proof -
  assume f: "CHR ''/'' \<notin> set f"
  then have "dropWhile (\<lambda>c. c = CHR ''/'') (rev f) = rev f" by (cases f rule: rev_cases) auto
  then have "TrimRightSlash f = f" by (simp add: TrimRightSlash_def)
  then show ?thesis using f by (simp add: Base_def Split_none)
qed

lemma file_path:
  assumes "root \<noteq> ''''" "CHR ''/'' \<notin> set key" "CHR ''/'' \<notin> set file" "key \<noteq> ''..''" "file \<noteq> ''..''"
  shows "elements (Join [root, key, Base file]) = elements root @ kept [key, Base file]"
proof -
  have b: "CHR ''/'' \<notin> set (Base file)" "Base file \<noteq> ''..''" using assms by (auto simp: Base_slash_free)
  have s: "Split (CHR ''/'') (key @ CHR ''/'' # Base file) = [key, Base file]"
    using assms(2) b(1) by (simp add: Split_append Split_none)
  then have "''..'' \<notin> set (Split (CHR ''/'') (key @ CHR ''/'' # Base file))" using assms(4) b(2) by simp
  from elements_Join [OF assms(1) this, of "[root, key, Base file]"] s assms(1) show ?thesis by simp
qed

lemma ServeFile_touched:
  assumes "touched (ServeFile fs u name) = Some p"
  shows "\<not> containsDotDot u \<and> (p = name \<or> p = Join [name, ''index.html''])"
  using assms by (auto simp: ServeFile_def split: if_splits file_kind.splits)

lemma kept_one: "kept [''index.html''] = [''index.html'']"
  by (simp add: kept_def)

lemma index_page: "name \<noteq> '''' \<Longrightarrow> elements (Join [name, ''index.html'']) = elements name @ [''index.html'']"
  using elements_Join [of name "''index.html''" "[name, ''index.html'']"] by (simp add: kept_def)

lemma Join_nonempty: "root \<noteq> '''' \<Longrightarrow> Join (root # es) \<noteq> ''''"
  by (auto simp: Join_def Clean_def Let_def)

text \<open>Property C32: what the segment and archive handlers give away lies below the configured root. The router takes key
  and file from the request path without their slashes, and a request path with an element of two dots is refused: so
  the elements of every file or directory that is sent are the root's elements followed by at most the key, the file
  name and an index page, none of which leads upwards.\<close>

theorem served_files_confined:
  assumes "root \<noteq> ''''" "CHR ''/'' \<notin> set key" "CHR ''/'' \<notin> set file"
    and "key = ''..'' \<or> file = ''..'' \<longrightarrow> containsDotDot url_path"
    and "reply = serveHLSSegment fs root url_path key file \<or> reply = serveStorage fs root url_path key file"
    and "touched reply = Some p"
  shows "\<exists>more. elements p = elements root @ more \<and> set more \<subseteq> {key, file, ''index.html''} \<and> ''..'' \<notin> set more"
proof -
  let ?name = "Join [root, key, Base file]"
  have t: "touched (ServeFile fs url_path ?name) = Some p"
    using assms(5,6) by (auto simp: serveHLSSegment_def serveStorage_def Let_def split: if_splits)
  then have dots: "key \<noteq> ''..''" "file \<noteq> ''..''" using ServeFile_touched assms(4) by blast+
  have k: "set (kept [key, Base file]) \<subseteq> {key, file}"
    using Base_slash_free [OF assms(3)] by (auto simp: kept_def)
  note e = file_path [OF assms(1-3) dots]
  from ServeFile_touched [OF t] have "p = ?name \<or> p = Join [?name, ''index.html'']" by blast
  then show ?thesis
  proof
    assume "p = ?name"
    then show ?thesis using e k dots by (auto intro!: exI [of _ "kept [key, Base file]"])
  next
    assume "p = Join [?name, ''index.html'']"
    then have "elements p = elements root @ (kept [key, Base file] @ [''index.html''])"
      using e index_page [OF Join_nonempty [OF assms(1)]] by simp
    then show ?thesis using k dots by (intro exI [of _ "kept [key, Base file] @ [''index.html'']"]) auto
  qed
qed

theorem served_files_confined_witness:
  "touched (serveHLSSegment (\<lambda>_. RegularFile) ''./data/hls'' ''/hls/cam/seg1.ts'' ''cam'' ''seg1.ts'') = Some ''data/hls/cam/seg1.ts'' \<and>
   (\<exists>more. elements ''data/hls/cam/seg1.ts'' = elements ''./data/hls'' @ more \<and> ''..'' \<notin> set more)"
proof -
  have t: "touched (serveHLSSegment (\<lambda>_. RegularFile) ''./data/hls'' ''/hls/cam/seg1.ts'' ''cam'' ''seg1.ts'') = Some ''data/hls/cam/seg1.ts''"
    by code_simp
  then show ?thesis
    using served_files_confined [of "''./data/hls''" "''cam''" "''seg1.ts''" "''/hls/cam/seg1.ts''" _ "\<lambda>_. RegularFile", OF _ _ _ _ disjI1 [OF refl] t]
    by auto
qed

text \<open>A key that comes from the publish hook is not checked: as a stream's directory it can leave the root.\<close>

lemma published_key_leaves_root: "Join [''./data/hls'', ''../../etc''] = ''etc''"
  by code_simp

subsection \<open>Recordings and viewers\<close>

lemma collect_recordings_spec:
  "collect_recordings presign key os = Some rs \<Longrightarrow>
   None \<notin> set os \<and> map ri_ObjectKey rs = filter (\<lambda>k. presign k \<noteq> None) (map (obj_Key \<circ> the) os) \<and>
   (\<forall>r\<in>set rs. ri_StreamKey r = key \<and> presign (ri_ObjectKey r) = Some (ri_PresignedURL r))"
  by (induction presign key os arbitrary: rs rule: collect_recordings.induct) (auto split: option.splits)

lemma recordings_newest_first:
  assumes "ListRecordings list_objects presign key = Some rs"
  shows "sorted_wrt (\<lambda>a b. ri_LastModified b \<le> ri_LastModified a) rs \<and>
    mset (map ri_ObjectKey rs) =
      mset (filter (\<lambda>k. presign k \<noteq> None) (map (obj_Key \<circ> the) (list_objects (''recordings/'' @ key @ ''/'')))) \<and>
    (\<forall>r\<in>set rs. ri_StreamKey r = key \<and> presign (ri_ObjectKey r) = Some (ri_PresignedURL r))"
proof -
  obtain items where i: "collect_recordings presign key (list_objects (''recordings/'' @ key @ ''/'')) = Some items"
      and rs: "rs = sort_key (\<lambda>r. - ri_LastModified r) items"
    using assms by (auto simp: ListRecordings_def)
  have "sorted (map (\<lambda>r. - ri_LastModified r) rs)" unfolding rs by (rule sorted_sort_key)
  then have "sorted_wrt (\<lambda>a b. ri_LastModified b \<le> ri_LastModified a) rs"
    by (simp add: sorted_map)
  moreover have "mset (map ri_ObjectKey rs) = mset (map ri_ObjectKey items)" unfolding rs by simp
  ultimately show ?thesis using collect_recordings_spec [OF i] unfolding rs by simp
qed

lemma SendGOP_new [simp]: "SendGOP send h (NewLivestreamSubscriber v) = NewLivestreamSubscriber v"
  by (simp add: SendGOP_def gop_snapshot_def NewLivestreamSubscriber_def)

lemma l_id_new [simp]: "l_id (NewLivestreamSubscriber v) = ''live-'' @ v"
  by (simp add: NewLivestreamSubscriber_def)

text \<open>A viewer that connects and leaves touches no other viewer.\<close>

lemma ws_viewer_leaves:
  assumes "i < length (objs w)"
  shows "objs (ws_close (length (objs w)) (ws_open send v w)) ! i = objs w ! i \<and>
    subs (ws_close (length (objs w)) (ws_open send v w)) = map_delete (''live-'' @ v) (subs w)"
  using assms
  by (auto simp: ws_open_def ws_close_def AddSubscriber_def RemoveSubscriber_def close_obj_def Let_def nth_append
      split: prod.splits)

end
