(* ===== verification/Pion_Bridge.thy ===== *)
theory Pion_Bridge
  imports Live_Urls
begin

section \<open>WebRTC sessions\<close>

text \<open>
  \<open>internal/pionbridge/service.go\<close> and the handlers of \<open>internal/api/pion.go\<close>. An offer opens an RTSP client and a
  peer connection, and ends as a session in the service's table, or in an error after which both are closed. The
  RTSP and WebRTC libraries are arguments: an \<open>offer_env\<close> holds the outcome of each call that one offer makes.
  The clients and the connections that were ever opened are lists of flags, true while open; the packets and
  their counters are left out.

  The main results: after any sequence of offers and closes, exactly the clients and connections of the sessions in the
  table are open; a failed offer leaves nothing behind; and the codecs are chosen in the documented preference.
\<close>

subsection \<open>Tracks\<close>

datatype codec = H264 | VP8 | VP9 | Opus

text \<open>\<open>find_format\<close> gives the media in which the description has a format of the codec, and \<open>track_ok\<close> says whether a local
  track can be created. \<open>add_if\<close> is the block that each codec has in \<open>selectTracks\<close>.\<close>

definition add_if :: "(codec \<Rightarrow> nat option) \<Rightarrow> (codec \<Rightarrow> bool) \<Rightarrow> codec \<Rightarrow> (codec \<times> nat) list option \<Rightarrow> (codec \<times> nat) list option" where
  "add_if find_format track_ok c tracks =
     (case tracks of
        None \<Rightarrow> None
      | Some ts \<Rightarrow> (case find_format c of
          None \<Rightarrow> Some ts
        | Some medi \<Rightarrow> if track_ok c then Some (ts @ [(c, medi)]) else None))"

definition if_none_yet :: "((codec \<times> nat) list option \<Rightarrow> (codec \<times> nat) list option) \<Rightarrow> (codec \<times> nat) list option \<Rightarrow> (codec \<times> nat) list option" where
  "if_none_yet f tracks = (if tracks = Some [] then f tracks else tracks)"

fun unique_from :: "nat list \<Rightarrow> nat list \<Rightarrow> nat list" where
  "unique_from seen [] = []"
| "unique_from seen (m # ms) = (if m \<in> set seen then unique_from seen ms else m # unique_from (m # seen) ms)"

definition uniqueMedias :: "nat list \<Rightarrow> nat list" where
  "uniqueMedias ms = (if length ms \<le> 1 then ms else unique_from [] ms)"

definition selectTracks :: "(codec \<Rightarrow> nat option) \<Rightarrow> (codec \<Rightarrow> bool) \<Rightarrow> ((codec \<times> nat) list \<times> nat list) option" where
  "selectTracks find_format track_ok =
     (let add = add_if find_format track_ok;
          tracks = add Opus (if_none_yet (add VP9) (if_none_yet (add VP8) (add H264 (Some [])))) in
      case tracks of
        None \<Rightarrow> None
      | Some ts \<Rightarrow> if ts = [] then None else Some (ts, uniqueMedias (map snd ts)))"

subsection \<open>Sessions\<close>

record pion_config =
  pion_Enabled :: bool
  PublicBaseURL :: string
  SourceRTSPBaseURL :: string
  ICEServers :: "string list"
  SessionTTLSeconds :: int

record pion_session =
  ses_id :: string
  ses_streamKey :: string
  ses_pc :: nat
  ses_rtsp :: nat

record pion =
  pion_cfg :: pion_config
  sessions :: "string \<rightharpoonup> pion_session"
  pcs :: "bool list"
  clients :: "bool list"

definition NewPion :: "pion_config \<Rightarrow> pion option" where
  "NewPion cfg =
     (if \<not> pion_Enabled cfg then None
      else Some \<lparr>pion_cfg = cfg\<lparr>
          SourceRTSPBaseURL := (if SourceRTSPBaseURL cfg = '''' then ''rtsp://localhost:8554'' else SourceRTSPBaseURL cfg),
          PublicBaseURL := (if PublicBaseURL cfg = '''' then ''http://localhost:8080'' else PublicBaseURL cfg)\<rparr>,
        sessions = Map.empty, pcs = [], clients = []\<rparr>)"

definition putSession :: "pion_session \<Rightarrow> pion \<Rightarrow> pion" where
  "putSession ss w = w\<lparr>sessions := (sessions w)(ses_id ss \<mapsto> ss)\<rparr>"

definition close_client :: "nat \<Rightarrow> pion \<Rightarrow> pion" where
  "close_client i w = w\<lparr>clients := (clients w)[i := False]\<rparr>"

definition close_pc :: "nat \<Rightarrow> pion \<Rightarrow> pion" where
  "close_pc i w = w\<lparr>pcs := (pcs w)[i := False]\<rparr>"

text \<open>A session is taken out of the table by the one caller that closes it, so its flag is never found set.\<close>

definition closeSession :: "string \<Rightarrow> pion \<Rightarrow> pion" where
  "closeSession i w =
     (if i = '''' then w
      else case sessions w i of
        None \<Rightarrow> w
      | Some ss \<Rightarrow> close_client (ses_rtsp ss) (close_pc (ses_pc ss) (w\<lparr>sessions := map_delete i (sessions w)\<rparr>)))"

definition CloseSession :: "string \<Rightarrow> pion \<Rightarrow> pion" where
  "CloseSession i w = closeSession (TrimSpace i) w"

definition ClosePion :: "string list \<Rightarrow> pion \<Rightarrow> pion" where
  "ClosePion ids w = fold closeSession ids w"

subsection \<open>Offers\<close>

text \<open>The outcomes of one offer's calls: parsing the address, \<open>Start\<close>, \<open>Describe\<close>, \<open>SetupAll\<close>, \<open>NewPeerConnection\<close>, \<open>AddTrack\<close>,
  \<open>Play\<close>, \<open>SetRemoteDescription\<close>, \<open>CreateAnswer\<close>, \<open>SetLocalDescription\<close>, whether gathering ever completes, the new
  id, and the local description.\<close>

record offer_env =
  url_ok :: "string \<Rightarrow> bool"
  start_ok :: bool
  described :: "(codec \<Rightarrow> nat option) option"
  track_ok :: "codec \<Rightarrow> bool"
  setup_ok :: "nat list \<Rightarrow> bool"
  pc_ok :: bool
  add_ok :: "codec \<Rightarrow> bool"
  play_ok :: bool
  remote_ok :: "string \<Rightarrow> bool"
  answer_ok :: bool
  local_ok :: bool
  gathered :: bool
  new_id :: string
  local_sdp :: string

datatype offer_err = KeyMissing | SDPMissing | BadURL | StartFailed | DescribeFailed | NoTracks | SetupFailed | NoPeerConnection
  | AddTrackFailed | PlayFailed | RemoteFailed | AnswerFailed | LocalFailed

datatype offer_result = OfferFailed offer_err | Hangs | Answered string string

definition with_client :: "offer_err \<Rightarrow> nat \<Rightarrow> pion \<Rightarrow> offer_result \<times> pion" where
  "with_client e c w = (OfferFailed e, close_client c w)"

definition with_both :: "offer_err \<Rightarrow> nat \<Rightarrow> nat \<Rightarrow> pion \<Rightarrow> offer_result \<times> pion" where
  "with_both e p c w = (OfferFailed e, close_client c (close_pc p w))"

text \<open>From the peer connection on, and the whole.\<close>

definition negotiate :: "offer_env \<Rightarrow> string \<Rightarrow> string \<Rightarrow> (codec \<times> nat) list \<Rightarrow> nat \<Rightarrow> pion \<Rightarrow> offer_result \<times> pion" where
  "negotiate env key offerSDP tracks c w =
     (if \<not> pc_ok env then with_client NoPeerConnection c w
      else let p = length (pcs w); w1 = w\<lparr>pcs := pcs w @ [True]\<rparr> in
      if \<not> list_all (\<lambda>(codec, _). add_ok env codec) tracks then with_both AddTrackFailed p c w1
      else if \<not> play_ok env then with_both PlayFailed p c w1
      else if \<not> remote_ok env offerSDP then with_both RemoteFailed p c w1
      else if \<not> answer_ok env then with_both AnswerFailed p c w1
      else if \<not> local_ok env then with_both LocalFailed p c w1
      else if \<not> gathered env then (Hangs, w1)
      else (Answered (new_id env) (local_sdp env),
        putSession \<lparr>ses_id = new_id env, ses_streamKey = key, ses_pc = p, ses_rtsp = c\<rparr> w1))"

definition HandleOffer :: "offer_env \<Rightarrow> string \<Rightarrow> string \<Rightarrow> pion \<Rightarrow> offer_result \<times> pion" where
  "HandleOffer env streamKey offerSDP w =
     (let key = TrimSlash (TrimSpace streamKey) in
      if key = '''' then (OfferFailed KeyMissing, w)
      else if TrimSpace offerSDP = '''' then (OfferFailed SDPMissing, w)
      else if \<not> url_ok env (TrimRightSlash (SourceRTSPBaseURL (pion_cfg w)) @ ''/'' @ key) then (OfferFailed BadURL, w)
      else if \<not> start_ok env then (OfferFailed StartFailed, w)
      else let c = length (clients w); w1 = w\<lparr>clients := clients w @ [True]\<rparr> in
      case described env of
        None \<Rightarrow> with_client DescribeFailed c w1
      | Some find_format \<Rightarrow>
          (case selectTracks find_format (track_ok env) of
             None \<Rightarrow> with_client NoTracks c w1
           | Some (tracks, medias) \<Rightarrow>
               if \<not> setup_ok env medias then with_client SetupFailed c w1
               else negotiate env key offerSDP tracks c w1))"

definition SessionTTL :: "pion_config \<Rightarrow> duration" where
  "SessionTTL cfg = (if SessionTTLSeconds cfg \<le> 0 then 120 * second else SessionTTLSeconds cfg * second)"

text \<open>The error texts with which an RTSP client may end; the argument is the error's text, if there is an error.\<close>

definition isExpectedCloseError :: "string option \<Rightarrow> bool" where
  "isExpectedCloseError err =
     (case err of
        None \<Rightarrow> False
      | Some text \<Rightarrow> (let msg = ToLower text in
          Contains msg ''closed'' \<or> Contains msg ''terminated'' \<or> Contains msg ''eof'' \<or> Contains msg ''context canceled'' \<or>
          Contains msg ''http: Server closed'' \<or> Contains msg ''use of closed network connection''))"

subsection \<open>Handlers\<close>

record pion_offer_request =
  po_Type :: string
  po_SDP :: string
  po_Offer :: "(string \<times> string) option"

record pion_answer =
  pa_stream_key :: string
  pa_session_id :: string
  pa_sdp :: string
  ttl_seconds :: int
  close_url :: string
  playback_url :: string

text \<open>A body is \<open>None\<close> if it does not decode. A handler that hangs has no answer.\<close>

definition pionOffer :: "offer_env \<Rightarrow> string \<Rightarrow> pion_offer_request option \<Rightarrow> pion option \<Rightarrow> (int \<times> pion_answer option) option \<times> pion option" where
  "pionOffer env param body service =
     (case service of
        None \<Rightarrow> (Some (503, None), None)
      | Some w \<Rightarrow>
          (let key = TrimSpace param in
           if key = '''' then (Some (400, None), Some w)
           else case body of
             None \<Rightarrow> (Some (400, None), Some w)
           | Some req \<Rightarrow>
               (let typ0 = TrimSpace (po_Type req); sdp0 = TrimSpace (po_SDP req);
                    typ = (case po_Offer req of Some (t, _) \<Rightarrow> if typ0 = '''' then TrimSpace t else typ0 | None \<Rightarrow> typ0);
                    sdp = (case po_Offer req of Some (_, d) \<Rightarrow> if sdp0 = '''' then TrimSpace d else sdp0 | None \<Rightarrow> sdp0) in
                if typ \<noteq> '''' \<and> ToLower typ \<noteq> ''offer'' then (Some (400, None), Some w)
                else if sdp = '''' then (Some (400, None), Some w)
                else case HandleOffer env key sdp w of
                  (OfferFailed _, w') \<Rightarrow> (Some (502, None), Some w')
                | (Hangs, w') \<Rightarrow> (None, Some w')
                | (Answered i a, w') \<Rightarrow>
                    (Some (200, Some \<lparr>pa_stream_key = key, pa_session_id = i, pa_sdp = a,
                       ttl_seconds = SessionTTL (pion_cfg w) div second, close_url = ''/pion/webrtc/session/'' @ i,
                       playback_url = ''/playback/'' @ key @ ''/timespans''\<rparr>), Some w'))))"

definition pionCloseSession :: "string \<Rightarrow> pion option \<Rightarrow> int \<times> pion option" where
  "pionCloseSession param service =
     (case service of
        None \<Rightarrow> (503, None)
      | Some w \<Rightarrow> (let i = TrimSpace param in if i = '''' then (400, Some w) else (200, Some (CloseSession i w))))"

definition pionDemoPage :: "string \<Rightarrow> pion option \<Rightarrow> int" where
  "pionDemoPage param service = (if service = None then 503 else if TrimSpace param = '''' then 400 else 200)"

subsection \<open>What is open\<close>

definition open_of :: "bool list \<Rightarrow> nat set" where
  "open_of xs = {n. n < length xs \<and> xs ! n}"

lemma open_of_simps [simp]:
  "open_of [] = {}" "open_of (xs @ [True]) = insert (length xs) (open_of xs)" "open_of (xs @ [False]) = open_of xs"
  by (auto simp: open_of_def nth_append)

lemma open_of_close [simp]: "open_of (xs[i := False]) = open_of xs - {i}"
proof -
  have "n < length xs \<and> xs[i := False] ! n \<longleftrightarrow> n < length xs \<and> xs ! n \<and> n \<noteq> i" for n
    by (cases "n = i") auto
  then show ?thesis by (auto simp: open_of_def)
qed

lemma open_of_bound: "n \<in> open_of xs \<Longrightarrow> n < length xs"
  by (simp add: open_of_def)

lemma open_of_fresh [simp]: "length xs \<notin> open_of xs"
  by (simp add: open_of_def)

text \<open>An offer either leaves the table and what is open as they were, or adds one session with a new client and a new
  connection, or never returns.\<close>

lemma HandleOffer_effect:
  assumes "HandleOffer env key sdp w = (r, w')"
  shows "case r of
      OfferFailed e \<Rightarrow> sessions w' = sessions w \<and> open_of (clients w') = open_of (clients w) \<and> open_of (pcs w') = open_of (pcs w)
    | Hangs \<Rightarrow> \<not> gathered env
    | Answered i a \<Rightarrow> i = new_id env \<and> a = local_sdp env \<and>
        sessions w' = (sessions w)(i \<mapsto> \<lparr>ses_id = i, ses_streamKey = TrimSlash (TrimSpace key),
          ses_pc = length (pcs w), ses_rtsp = length (clients w)\<rparr>) \<and>
        open_of (clients w') = insert (length (clients w)) (open_of (clients w)) \<and>
        open_of (pcs w') = insert (length (pcs w)) (open_of (pcs w))"
  using assms
  by (auto simp: HandleOffer_def negotiate_def with_client_def with_both_def close_client_def close_pc_def putSession_def Let_def
      split: if_splits option.splits prod.splits)

definition pion_inv :: "pion \<Rightarrow> bool" where
  "pion_inv w \<longleftrightarrow>
     (\<forall>i s. sessions w i = Some s \<longrightarrow> i \<noteq> '''' \<and> ses_id s = i) \<and>
     open_of (clients w) = ses_rtsp ` ran (sessions w) \<and> open_of (pcs w) = ses_pc ` ran (sessions w) \<and>
     inj_on ses_rtsp (ran (sessions w)) \<and> inj_on ses_pc (ran (sessions w))"

text \<open>What happens to the service: an offer, the end of a session for whatever reason, and the shutdown.\<close>

datatype pion_op = Offer offer_env string string | EndSession string | ShutDown "string list"

fun pion_step :: "pion_op \<Rightarrow> pion \<Rightarrow> pion" where
  "pion_step (Offer env key sdp) w = snd (HandleOffer env key sdp w)"
| "pion_step (EndSession i) w = CloseSession i w"
| "pion_step (ShutDown ids) w = ClosePion ids w"

text \<open>The offers return, and the ids that \<open>uuid.NewString\<close> makes are not empty and not in use.\<close>

fun op_ok :: "pion_op \<Rightarrow> pion \<Rightarrow> bool" where
  "op_ok (Offer env _ _) w \<longleftrightarrow> gathered env \<and> new_id env \<noteq> '''' \<and> sessions w (new_id env) = None"
| "op_ok _ _ \<longleftrightarrow> True"

fun ops_ok :: "pion_op list \<Rightarrow> pion \<Rightarrow> bool" where
  "ops_ok [] w \<longleftrightarrow> True"
| "ops_ok (e # es) w \<longleftrightarrow> op_ok e w \<and> ops_ok es (pion_step e w)"

lemma ran_new: "m i = None \<Longrightarrow> ran (m(i \<mapsto> s)) = insert s (ran m)"
  by (rule ran_map_upd)

lemma ran_map_delete:
  assumes "m i = Some s" "\<forall>j t. m j = Some t \<longrightarrow> ses_id t = j"
  shows "ran (map_delete i m) = ran m - {s}"
proof -
  have at: "m j = Some s \<longleftrightarrow> j = i" for j
    using assms by blast
  have "t \<in> ran (map_delete i m) \<longleftrightarrow> (\<exists>j. j \<noteq> i \<and> m j = Some t)" for t
    by (auto simp: ran_def map_delete_apply split: if_splits)
  moreover have "(\<exists>j. j \<noteq> i \<and> m j = Some t) \<longleftrightarrow> t \<in> ran m \<and> t \<noteq> s" for t
  proof (cases "t = s")
    case True
    then show ?thesis by (simp add: at)
  next
    case False
    then have "j \<noteq> i" if "m j = Some t" for j
      using that assms(1) by (cases "j = i") simp_all
    then show ?thesis using False by (fastforce simp: ran_def)
  qed
  ultimately show ?thesis by auto
qed

lemma pion_inv_close: "pion_inv w \<Longrightarrow> pion_inv (closeSession i w)"
proof -
  assume inv: "pion_inv w"
  show ?thesis
  proof (cases "i = '''' \<or> sessions w i = None")
    case True
    then show ?thesis using inv by (auto simp: closeSession_def)
  next
    case False
    then obtain s where s: "i \<noteq> ''''" "sessions w i = Some s" by auto
    let ?w = "closeSession i w"
    have eq: "sessions ?w = map_delete i (sessions w)" "clients ?w = (clients w)[ses_rtsp s := False]" "pcs ?w = (pcs w)[ses_pc s := False]"
      using s by (simp_all add: closeSession_def close_client_def close_pc_def)
    have r: "ran (sessions ?w) = ran (sessions w) - {s}" "s \<in> ran (sessions w)"
      using ran_map_delete [where m = "sessions w", OF s(2)] inv s(2) by (auto simp: eq pion_inv_def intro: ranI)
    have "f ` (A - {s}) = f ` A - {f s}" if "inj_on f A" "s \<in> A" for f :: "pion_session \<Rightarrow> nat" and A
      using that by (auto dest: inj_onD)
    then show ?thesis using inv r unfolding pion_inv_def
      by (auto simp: eq map_delete_apply intro: inj_on_subset split: if_splits)
  qed
qed

lemma pion_inv_step:
  assumes "pion_inv w" "op_ok e w"
  shows "pion_inv (pion_step e w)"
proof (cases e)
  case (Offer env key sdp)
  obtain r w' where h: "HandleOffer env key sdp w = (r, w')" by fastforce
  note eff = HandleOffer_effect [OF h]
  have bound: "\<forall>s\<in>ran (sessions w). ses_rtsp s < length (clients w) \<and> ses_pc s < length (pcs w)"
    using assms(1) open_of_bound unfolding pion_inv_def by blast
  show ?thesis
  proof (cases r)
    case (OfferFailed x)
    then show ?thesis using eff assms(1) Offer h by (simp add: pion_inv_def)
  next
    case Hangs
    then show ?thesis using eff assms(2) Offer by simp
  next
    case (Answered i a)
    let ?s = "\<lparr>ses_id = i, ses_streamKey = TrimSlash (TrimSpace key), ses_pc = length (pcs w), ses_rtsp = length (clients w)\<rparr>"
    have e': "sessions w' = (sessions w)(i \<mapsto> ?s)" "open_of (clients w') = insert (length (clients w)) (open_of (clients w))"
        "open_of (pcs w') = insert (length (pcs w)) (open_of (pcs w))" "i \<noteq> ''''" "sessions w i = None"
      using eff Answered assms(2) Offer by simp_all
    have "ran (sessions w') = insert ?s (ran (sessions w))" using e' by (simp add: ran_new)
    moreover have "inj_on ses_rtsp (insert ?s (ran (sessions w)))" "inj_on ses_pc (insert ?s (ran (sessions w)))"
      using assms(1) bound by (auto simp: pion_inv_def)
    ultimately have "pion_inv w'" using assms(1) e' by (auto simp: pion_inv_def split: if_splits)
    then show ?thesis using Offer h by simp
  qed
next
  case (EndSession i)
  then show ?thesis using pion_inv_close [OF assms(1)] by (simp add: CloseSession_def)
next
  case (ShutDown ids)
  have "pion_inv (fold closeSession ids w)" using assms(1) by (induction ids arbitrary: w) (auto intro: pion_inv_close)
  with ShutDown show ?thesis by (simp add: ClosePion_def)
qed

lemma pion_inv_new: "NewPion cfg = Some w \<Longrightarrow> pion_inv w"
  by (auto simp: NewPion_def pion_inv_def split: if_splits)

lemma pion_inv_run: "pion_inv w \<Longrightarrow> ops_ok ops w \<Longrightarrow> pion_inv (fold pion_step ops w)"
  by (induction ops arbitrary: w) (auto intro: pion_inv_step)

lemma ClosePion_sessions:
  "sessions (ClosePion ids w) i = (if i \<in> set ids \<and> i \<noteq> '''' then None else sessions w i)"
proof (induction ids arbitrary: w)
  case (Cons j js)
  have "sessions (closeSession j w) i = (if i = j \<and> i \<noteq> '''' then None else sessions w i)"
    by (auto simp: closeSession_def close_client_def close_pc_def map_delete_apply split: option.splits)
  then show ?case using Cons [of "closeSession j w"] by (auto simp: ClosePion_def)
qed (simp add: ClosePion_def)

lemma ClosePion_all:
  assumes "pion_inv w" "enumerates ids (sessions w)"
  shows "sessions (ClosePion ids w) = Map.empty \<and> open_of (clients (ClosePion ids w)) = {} \<and> open_of (pcs (ClosePion ids w)) = {}"
proof -
  have "sessions (ClosePion ids w) i = None" for i
  proof (cases "sessions w i")
    case (Some s)
    then have "i \<in> set ids" "i \<noteq> ''''" using enumerates_mem [OF assms(2), of i] assms(1) by (auto simp: pion_inv_def)
    then show ?thesis by (simp add: ClosePion_sessions)
  qed (simp add: ClosePion_sessions)
  then have none: "sessions (ClosePion ids w) = Map.empty" by auto
  have "pion_inv (ClosePion ids w)" using pion_inv_step [OF assms(1), of "ShutDown ids"] by simp
  then show ?thesis using none by (simp add: pion_inv_def)
qed


definition demo_env :: "string \<Rightarrow> bool \<Rightarrow> offer_env" where
  "demo_env i ok = \<lparr>url_ok = (\<lambda>_. True), start_ok = True, described = Some (\<lambda>c. if c = H264 then Some 0 else None),
     track_ok = (\<lambda>_. True), setup_ok = (\<lambda>_. True), pc_ok = True, add_ok = (\<lambda>_. True), play_ok = ok, remote_ok = (\<lambda>_. True),
     answer_ok = True, local_ok = True, gathered = True, new_id = i, local_sdp = ''v=0''\<rparr>"

definition demo_pion :: pion where
  "demo_pion = \<lparr>pion_cfg = \<lparr>pion_Enabled = True, PublicBaseURL = ''p'', SourceRTSPBaseURL = ''r'', ICEServers = [], SessionTTLSeconds = 0\<rparr>,
     sessions = Map.empty, pcs = [], clients = []\<rparr>"

lemma demo_pion_new: "NewPion (pion_cfg demo_pion) = Some demo_pion"
  by (simp add: NewPion_def demo_pion_def)

lemma demo_texts: "TrimSlash (TrimSpace ''cam'') = ''cam''" "TrimSpace ''v=0'' = ''v=0''"
  by (simp_all add: TrimSpace_plain plain_def TrimSlash_def TrimRightSlash_def)

lemma demo_offer: "HandleOffer (demo_env i ok) ''cam'' ''v=0'' w =
   (if ok then (Answered i ''v=0'', w\<lparr>clients := clients w @ [True], pcs := pcs w @ [True],
        sessions := (sessions w)(i \<mapsto> \<lparr>ses_id = i, ses_streamKey = ''cam'', ses_pc = length (pcs w), ses_rtsp = length (clients w)\<rparr>)\<rparr>)
    else (OfferFailed PlayFailed, w\<lparr>clients := clients w @ [False], pcs := pcs w @ [False]\<rparr>))"
  by (simp add: HandleOffer_def demo_texts demo_env_def selectTracks_def add_if_def if_none_yet_def uniqueMedias_def
      negotiate_def with_both_def close_client_def close_pc_def putSession_def Let_def)


text \<open>The video codec is the first of H.264, VP8 and VP9 that the source has, and Opus is added; a source with none of the
  four is refused.\<close>

definition preferred :: "(codec \<Rightarrow> nat option) \<Rightarrow> (codec \<times> nat) list" where
  "preferred f =
     (case f H264 of Some m \<Rightarrow> [(H264, m)] | None \<Rightarrow> (case f VP8 of Some m \<Rightarrow> [(VP8, m)] | None \<Rightarrow>
       (case f VP9 of Some m \<Rightarrow> [(VP9, m)] | None \<Rightarrow> []))) @
     (case f Opus of Some m \<Rightarrow> [(Opus, m)] | None \<Rightarrow> [])"

lemma unique_from_spec: "set (unique_from seen ms) = set ms - set seen \<and> distinct (unique_from seen ms)"
  by (induction seen ms rule: unique_from.induct) auto

lemma uniqueMedias_spec: "set (uniqueMedias ms) = set ms \<and> distinct (uniqueMedias ms)"
  using unique_from_spec [of "[]" ms]
  by (cases ms rule: list.exhaust [case_names Nil Cons]; cases "tl ms") (auto simp: uniqueMedias_def)

lemma selectTracks_preferred:
  assumes "\<forall>c. ok c"
  shows "selectTracks f ok = (if preferred f = [] then None else Some (preferred f, uniqueMedias (map snd (preferred f))))"
  using assms by (auto simp: selectTracks_def add_if_def if_none_yet_def preferred_def Let_def split: option.splits)

text \<open>Two of the six error texts are never looked at: what they would find, the word \<open>closed\<close> already found.\<close>

lemma isExpectedCloseError_words:
  "isExpectedCloseError (Some text) \<longleftrightarrow> (let msg = ToLower text in
     Contains msg ''closed'' \<or> Contains msg ''terminated'' \<or> Contains msg ''eof'' \<or> Contains msg ''context canceled'')"
proof -
  have a: "sublist ''closed'' ''http: Server closed''" by code_simp
  have b: "sublist ''closed'' ''use of closed network connection''" by code_simp
  show ?thesis
    using sublist_order.order_trans [OF a] sublist_order.order_trans [OF b] by (auto simp: isExpectedCloseError_def Let_def)
qed

text \<open>The wait for the gathering of candidates ends with nothing but the gathering: an offer that waits for ever keeps its client
  and its connection open, and no session leads to them.\<close>

lemma hanging_offer_leaks:
  assumes "HandleOffer env key sdp w = (Hangs, w')"
  shows "sessions w' = sessions w \<and> open_of (clients w') = insert (length (clients w)) (open_of (clients w)) \<and>
    open_of (pcs w') = insert (length (pcs w)) (open_of (pcs w))"
  using assms
  by (auto simp: HandleOffer_def negotiate_def with_client_def with_both_def Let_def split: if_splits option.splits prod.splits)

end
