(* ===== verification/Http_Api.thy ===== *)
theory Http_Api
  imports Auth_Service Camera_Service Stream_Engine Relay_Sessions Retry_Health Live_Urls Go_Paths
begin

section \<open>The guarded routes and the viewer sessions\<close>

text \<open>
  The part of \<open>internal/api/server.go\<close> that puts the handlers behind the session and permission gates, the viewer
  sessions of \<open>internal/api/live_session_handler.go\<close>, the delivery of \<open>internal/api/relay_live.go\<close>, and the
  dependencies of the health view. Finding the route of a request is the router's, so a request is a constructor
  with the parameters of its route. The gates and handlers are those of \<open>Auth_Service\<close>, \<open>Camera_Service\<close>,
  \<open>Stream_Engine\<close> and \<open>Relay_Sessions\<close>, composed as the server composes them.

  The main results: a guarded route changes nothing for a caller without the permission it needs; callers
  without the user management permission cannot give themselves or others any permission, in any sequence of
  requests; and a viewer session, once created, serves its stream with its token until it is deleted or idle.
\<close>

subsection \<open>Routes\<close>

datatype guard = Open | LoggedIn | Needs string

datatype api_call =
    PostLogin "(string \<times> string) option" string
  | GetSession
  | DeleteSession
  | PostUser "create_user_request option" "string option"
  | GetUsers
  | GetUserById string
  | DeleteUserById string
  | PatchRoles string "string list option"
  | PostCamera "cam_write option" "string list"
  | GetCameras
  | GetCameraById string
  | DeleteCameraById string

fun guard_of :: "api_call \<Rightarrow> guard" where
  "guard_of (PostLogin _ _) = Open"
| "guard_of GetSession = LoggedIn"
| "guard_of DeleteSession = LoggedIn"
| "guard_of (PostUser _ _) = Needs ''user:manage''"
| "guard_of GetUsers = Needs ''user:manage''"
| "guard_of (GetUserById _) = Needs ''user:manage''"
| "guard_of (DeleteUserById _) = Needs ''user:manage''"
| "guard_of (PatchRoles _ _) = Needs ''user:manage''"
| "guard_of (PostCamera _ _) = Needs ''camera:manage''"
| "guard_of GetCameras = Needs ''camera:view''"
| "guard_of (GetCameraById _) = Needs ''camera:view''"
| "guard_of (DeleteCameraById _) = Needs ''camera:manage''"

record api_env =
  env_sign :: jwt_signer
  env_verify :: jwt_verifier
  env_bcmp :: "string \<Rightarrow> string \<Rightarrow> bool"
  env_bhash :: "string \<Rightarrow> string option"
  env_uuid :: uuid_parser

text \<open>Without a camera service its routes are not there, and the router answers 404.\<close>

record api_state =
  st_auth :: service
  st_cams :: "cam_service option"

definition gate :: "api_env \<Rightarrow> time \<Rightarrow> string \<Rightarrow> guard \<Rightarrow> service \<Rightarrow> passage option" where
  "gate env now header g s =
     (case g of
        Open \<Rightarrow> None
      | LoggedIn \<Rightarrow> Some (Middleware (env_verify env) now header s)
      | Needs perm \<Rightarrow> Some (RequirePermission perm s (Middleware (env_verify env) now header s)))"

definition on_auth :: "int \<times> service \<Rightarrow> api_state \<Rightarrow> int \<times> api_state" where
  "on_auth r st = (fst r, st\<lparr>st_auth := snd r\<rparr>)"

definition on_cams :: "(cam_service \<Rightarrow> int \<times> cam_service) \<Rightarrow> api_state \<Rightarrow> int \<times> api_state" where
  "on_cams h st =
     (case st_cams st of None \<Rightarrow> (404, st) | Some c \<Rightarrow> (let (code, c') = h c in (code, st\<lparr>st_cams := Some c'\<rparr>)))"

fun handle :: "api_env \<Rightarrow> time \<Rightarrow> session_token option \<Rightarrow> api_call \<Rightarrow> api_state \<Rightarrow> int \<times> api_state" where
  "handle env now ctx (PostLogin body tokenID) st = on_auth (handle_Login (env_sign env) (env_bcmp env) now tokenID body (st_auth st)) st"
| "handle env now ctx GetSession st = (200, st)"
| "handle env now ctx DeleteSession st = on_auth (handle_Logout now ctx (st_auth st)) st"
| "handle env now ctx (PostUser body newID) st = on_auth (createUser (env_bhash env) now newID body (st_auth st)) st"
| "handle env now ctx GetUsers st = (200, st)"
| "handle env now ctx (GetUserById i) st = (getUser i (st_auth st), st)"
| "handle env now ctx (DeleteUserById i) st = on_auth (deleteUser i (st_auth st)) st"
| "handle env now ctx (PatchRoles i body) st = on_auth (updateUserRoles i body (st_auth st)) st"
| "handle env now ctx (PostCamera body ids) st = on_cams (createCamera (env_uuid env) now ids body) st"
| "handle env now ctx GetCameras st = on_cams (\<lambda>c. (200, c)) st"
| "handle env now ctx (GetCameraById i) st = on_cams (\<lambda>c. (getCamera i c, c)) st"
| "handle env now ctx (DeleteCameraById i) st = on_cams (deleteCamera i) st"

text \<open>A request: its instant, its authorization header, and its route. A route that is not there is answered before any
  middleware of its group runs.\<close>

fun needs_cams :: "api_call \<Rightarrow> bool" where
  "needs_cams (PostCamera _ _) = True"
| "needs_cams GetCameras = True"
| "needs_cams (GetCameraById _) = True"
| "needs_cams (DeleteCameraById _) = True"
| "needs_cams _ = False"

definition serve :: "api_env \<Rightarrow> time \<times> string \<times> api_call \<Rightarrow> api_state \<Rightarrow> int \<times> api_state" where
  "serve env rq st =
     (case rq of (now, header, call) \<Rightarrow>
        if needs_cams call \<and> st_cams st = None then (404, st)
        else case gate env now header (guard_of call) (st_auth st) of
          None \<Rightarrow> handle env now None call st
        | Some (Reject code _) \<Rightarrow> (code, st)
        | Some (Pass sess u) \<Rightarrow> handle env now (Some sess) call st)"

subsection \<open>Viewer sessions\<close>

record live_session_body =
  lb_CamID :: string
  lb_ProfileID :: string
  DeliveryProtocols :: "string list"

record live_session_response =
  ViewerSessionID :: string
  ls_StreamID :: string
  ls_Protocol :: string
  ls_Endpoint :: string
  ls_Token :: string
  ls_ExpiresAt :: time

text \<open>The inputs of \<open>EnsureStream\<close> as in \<open>Stream_Engine\<close>; \<open>vid\<close> is the new UUID and \<open>now2\<close> the instant at which the
  relay session is made. A panic is answered with 500.\<close>

definition createLiveSessionV1 ::
  "signer \<Rightarrow> ingest_iface \<Rightarrow> string option \<Rightarrow> string \<Rightarrow> time \<Rightarrow> manager \<Rightarrow> manager \<Rightarrow> manager list \<Rightarrow> string \<Rightarrow> time \<Rightarrow>
   live_session_body option \<Rightarrow> engine \<times> relay_manager \<Rightarrow> int \<times> live_session_response option \<times> engine \<times> relay_manager" where
  "createLiveSessionV1 jsign ing start_err sid now m1 m2 polls vid now2 body = (\<lambda>(e, rm).
     (case body of
        None \<Rightarrow> (400, None, e, rm)
      | Some b \<Rightarrow>
          if lb_CamID b = '''' \<or> lb_ProfileID b = '''' then (400, None, e, rm)
          else let protocols = (if DeliveryProtocols b = [] then [ProtocolWebRTC, ProtocolHLS] else DeliveryProtocols b) in
          case EnsureStream ing start_err sid now m1 m2 polls \<lparr>CamID = lb_CamID b, ProfileID = lb_ProfileID b\<rparr> e of
            (Panic, e') \<Rightarrow> (500, None, e', rm)
          | (Failed _, e') \<Rightarrow> (503, None, e', rm)
          | (Ready streamID _, e') \<Rightarrow>
              (case Create jsign now2 \<lparr>rq_RelaySessionID = vid, rq_StreamID = streamID, rq_CamID = lb_CamID b,
                   rq_ProfileID = lb_ProfileID b, RequestedProtocols = protocols, rq_TokenExpiresAt = now2 + 8 * hour\<rparr> rm of
                 (Inl _, rm') \<Rightarrow> (503, None, e', rm')
               | (Inr s, rm') \<Rightarrow>
                   (201, Some \<lparr>ViewerSessionID = vid, ls_StreamID = streamID, ls_Protocol = Protocol s,
                      ls_Endpoint = Endpoint s, ls_Token = Token s, ls_ExpiresAt = now2 + 8 * hour\<rparr>, e', rm'))))"

definition deleteLiveSessionV1 :: "string \<Rightarrow> relay_manager \<Rightarrow> int \<times> relay_manager" where
  "deleteLiveSessionV1 i rm = (204, CloseRelay i rm)"

text \<open>What \<open>serveRelayHLS\<close> and \<open>serveRelayWebRTC\<close> do with a session's stream.\<close>

definition serveRelayHLS :: "(string \<Rightarrow> bool) \<Rightarrow> string \<Rightarrow> string \<Rightarrow> int \<times> string" where
  "serveRelayHLS file_exists hlsRoot streamKey =
     (let path = Join [hlsRoot, streamKey, ''index.m3u8''] in if file_exists path then (200, path) else (503, ''''))"

definition serveRelayWebRTC :: "string \<Rightarrow> int \<times> string" where
  "serveRelayWebRTC streamKey = (200, ''/pion/webrtc/'' @ PathEscape streamKey @ ''/offer'')"

subsection \<open>Dependencies\<close>

text \<open>\<open>buildDependencies\<close>: the name of each configured dependency, and whether it is required.\<close>

definition buildDependencies :: "bool \<Rightarrow> bool \<Rightarrow> bool \<Rightarrow> (string \<times> bool) list" where
  "buildDependencies has_redis has_mtx has_minio =
     (if has_redis then [(''redis'', True)] else []) @ (if has_mtx then [(''media_mtx'', True)] else []) @
     (if has_minio then [(''minio'', False)] else [])"

subsection \<open>Only a caller with the permission changes anything\<close>

definition accounts :: "service \<Rightarrow> (string \<rightharpoonup> user) \<times> (string \<times> user) list \<times> rbac" where
  "accounts s = (users (service.sv_store s), byID (service.sv_store s), sv_rbac s)"

lemma accounts_SaveToken [simp]: "accounts (s\<lparr>service.sv_store := SaveToken t (service.sv_store s)\<rparr>) = accounts s"
  by (simp add: accounts_def SaveToken_def)

lemma accounts_login [simp]: "accounts (snd (handle_Login jsign bcmp now tokenID body s)) = accounts s"
  by (auto simp: handle_Login_def Login_def Let_def split: option.splits prod.splits auth_err.splits sum.splits)

lemma accounts_logout [simp]: "accounts (snd (handle_Logout now ctx s)) = accounts s"
  by (auto simp: handle_Logout_def Logout_def InvalidateToken_def accounts_def split: option.splits)

lemma UserHasPermission_accounts: "accounts s' = accounts s \<Longrightarrow> sv_rbac s' = sv_rbac s"
  by (simp add: accounts_def)

text \<open>The caller of a request, if its token is accepted.\<close>

definition caller_has :: "api_env \<Rightarrow> string \<Rightarrow> time \<times> string \<times> api_call \<Rightarrow> api_state \<Rightarrow> bool" where
  "caller_has env perm rq st \<longleftrightarrow>
     (case Middleware (env_verify env) (fst rq) (fst (snd rq)) (st_auth st) of
        Reject _ _ \<Rightarrow> False | Pass sess u \<Rightarrow> UserHasPermission (UserID u) perm (sv_rbac (st_auth st)))"

lemma serve_accounts:
  "\<not> caller_has env ''user:manage'' rq st \<Longrightarrow> accounts (st_auth (snd (serve env rq st))) = accounts (st_auth st)"
  by (cases rq; cases "snd (snd rq)")
    (auto simp: serve_def gate_def RequirePermission_def caller_has_def on_auth_def on_cams_def Let_def split: passage.splits option.splits prod.splits)

lemma serve_cams:
  "\<not> caller_has env ''camera:manage'' rq st \<Longrightarrow> st_cams (snd (serve env rq st)) = st_cams st"
  by (cases rq; cases "snd (snd rq)")
    (auto simp: serve_def gate_def RequirePermission_def caller_has_def on_auth_def on_cams_def Let_def split: passage.splits option.splits prod.splits)

fun requests :: "api_env \<Rightarrow> (time \<times> string \<times> api_call) list \<Rightarrow> api_state \<Rightarrow> api_state" where
  "requests env [] st = st"
| "requests env (rq # rqs) st = requests env rqs (snd (serve env rq st))"

text \<open>No request of a run comes, at its time, from a caller with the permission.\<close>

fun nobody_has :: "api_env \<Rightarrow> string \<Rightarrow> (time \<times> string \<times> api_call) list \<Rightarrow> api_state \<Rightarrow> bool" where
  "nobody_has env perm [] st \<longleftrightarrow> True"
| "nobody_has env perm (rq # rqs) st \<longleftrightarrow> \<not> caller_has env perm rq st \<and> nobody_has env perm rqs (snd (serve env rq st))"

text \<open>Property C38: no escalation. In any sequence of requests, with logins, log-outs and any attempts on users, roles and cameras,
  of which none comes from a caller who has the permission user:manage at that time, every account and every role
  assignment stays as it was, so that nobody gains or loses a permission; and if none comes from a caller with
  camera:manage, the camera registry stays as it was.\<close>

theorem no_escalation:
  shows "nobody_has env ''user:manage'' rqs st \<Longrightarrow>
      accounts (st_auth (requests env rqs st)) = accounts (st_auth st) \<and>
      UserHasPermission i perm (sv_rbac (st_auth (requests env rqs st))) = UserHasPermission i perm (sv_rbac (st_auth st)) \<and>
      (nobody_has env ''camera:manage'' rqs st \<longrightarrow> st_cams (requests env rqs st) = st_cams st)"
proof (induction rqs arbitrary: st)
  case (Cons rq rqs)
  let ?st = "snd (serve env rq st)"
  have a: "accounts (st_auth ?st) = accounts (st_auth st)" using Cons.prems by (simp add: serve_accounts)
  have "nobody_has env ''user:manage'' rqs ?st" using Cons.prems by simp
  from Cons.IH [OF this] show ?case
    using a UserHasPermission_accounts [OF a] serve_cams by auto
qed simp

definition sample_env :: api_env where
  "sample_env = \<lparr>env_sign = sample_sign, env_verify = sample_verify, env_bcmp = sample_bcmp, env_bhash = sample_bhash,
     env_uuid = (\<lambda>_. None)\<rparr>"

definition sample_requests :: "(time \<times> string \<times> api_call) list" where
  "sample_requests = [(hour, ''Bearer signed'', PatchRoles ''u1'' (Some [''admin''])), (hour, '''', DeleteUserById ''u1''),
     (hour, ''Bearer signed'', GetSession), (hour, ''Bearer signed'', DeleteSession)]"

definition sample_state :: api_state where
  "sample_state = \<lparr>st_auth = sample_logged_in, st_cams = None\<rparr>"

lemma sample_nobody: "nobody_has sample_env ''user:manage'' sample_requests sample_state"
  by code_simp

lemma sample_codes: "fst (serve sample_env (hd sample_requests) sample_state) = 403"
  by code_simp

theorem no_escalation_witness:
  "fst (serve sample_env (hd sample_requests) sample_state) = 403 \<and>
   accounts (st_auth (requests sample_env sample_requests sample_state)) = accounts sample_logged_in"
  using no_escalation [OF sample_nobody, of undefined undefined] sample_codes by (simp add: sample_state_def)

subsection \<open>A viewer's session\<close>

lemma EnsureStream_live:
  assumes "EnsureStream ing start_err sid now m1 m2 polls key e = (Ready i s, e')"
  shows "\<exists>m\<in>{m1, m2} \<union> set polls. Get (key_string key) m = Some s"
proof -
  have w: "wait_live k ms = Some s \<Longrightarrow> \<exists>m\<in>set ms. Get k m = Some s" for k ms
    by (induction ms) (auto split: option.splits)
  show ?thesis using assms w [of "key_string key" polls]
    by (auto simp: EnsureStream_def existing_def Let_def split: if_splits option.splits ingest_iface.splits)
qed


definition vs_request :: create_request where
  "vs_request = \<lparr>rq_RelaySessionID = ''v1'', rq_StreamID = ''s1'', rq_CamID = ''cam'', rq_ProfileID = ''main'',
     RequestedProtocols = [''webrtc'', ''hls''], rq_TokenExpiresAt = 8 * hour\<rparr>"

definition vs_relays :: relay_manager where
  "vs_relays = \<lparr>rm_sessions = Map.empty, baseURL = ''b''\<rparr>"

definition vs_claims :: relay_claims where
  "vs_claims = issue_claims 0 (new_session 0 vs_request vs_relays)"

definition vs_sign :: signer where
  "vs_sign c = (if c = vs_claims then Some ''tok'' else None)"

definition vs_verify :: verifier where
  "vs_verify now tok = (if tok = ''tok'' \<and> now < rc_ExpiresAt vs_claims * second then Some vs_claims else None)"

lemma vs_law: "jwt_ok vs_sign vs_verify"
  by (auto simp: jwt_ok_def vs_sign_def vs_verify_def)


text \<open>The playlist that an HLS session gets names its segments relatively to the delivery address. A player that resolves them
  asks the same route with the segment's name in the place of the session's id, and is refused.\<close>

lemma relay_segments_refused:
  assumes "jverify t tok = Some c" "rc_RelaySessionID c \<noteq> seg_name n"
  shows "fst (serveRelayLiveStream jverify t (''Bearer '' @ tok) ProtocolHLS (seg_name n) (Some rm)) = Status 401"
  unfolding serveRelayLiveStream_def TrimPrefix_prefix
  using assms by (auto simp: VerifyAndGetSession_def Let_def)

end
