(* ===== verification/Logging.thy ===== *)
theory Logging
  imports Go_Paths
begin

section \<open>Log files and telemetry\<close>

text \<open>
  \<open>internal/logging/logging.go\<close>: the hook that splits the log into four files, the telemetry hook with its bounded queue
  and its worker, the set-up that opens the files, and the slow-event helpers. The lines are what the formatter and
  the JSON encoder made of an entry; whether a file opens, and whether a write or a request succeeds, are
  arguments.

  The main results: an entry goes to the file that its channel and level say and to no other; an event put into the
  telemetry queue is sent exactly once and in order, also when the queue is closed, and one is dropped only when the queue
  is full; and a set-up that fails leaves no file open.
\<close>

subsection \<open>Levels and channels\<close>

text \<open>The levels of logrus, most severe first: panic 0, fatal 1, error 2, warn 3, info 4, debug 5, trace 6.\<close>

abbreviation WarnLevel :: nat where "WarnLevel \<equiv> 3"
abbreviation InfoLevel :: nat where "InfoLevel \<equiv> 4"

datatype log_file = InfoFile | ErrorFile | StatFile | SlowFile

record log_entry =
  le_level :: nat
  le_channel :: "string option"
  le_line :: string

text \<open>A write appends the line, if it succeeds; the files are a map from file to lines.\<close>

definition write_to :: "(log_file \<Rightarrow> bool) \<Rightarrow> log_file \<Rightarrow> string \<Rightarrow> (log_file \<Rightarrow> string list) \<Rightarrow> bool \<times> (log_file \<Rightarrow> string list)" where
  "write_to ok f line files = (if ok f then (True, files(f := files f @ [line])) else (False, files))"

definition FireFile :: "(log_file \<Rightarrow> bool) \<Rightarrow> log_entry \<Rightarrow> (log_file \<Rightarrow> string list) \<Rightarrow> bool \<times> (log_file \<Rightarrow> string list)" where
  "FireFile ok e files =
     (if le_channel e = Some ''stat'' then write_to ok StatFile (le_line e) files
      else if le_channel e = Some ''slow'' then write_to ok SlowFile (le_line e) files
      else case (if le_level e \<le> WarnLevel then write_to ok ErrorFile (le_line e) files else (True, files)) of
        (False, files1) \<Rightarrow> (False, files1)
      | (True, files1) \<Rightarrow> if le_level e \<ge> InfoLevel then write_to ok InfoFile (le_line e) files1 else (True, files1))"

text \<open>The file an entry belongs to.\<close>

definition file_of :: "log_entry \<Rightarrow> log_file" where
  "file_of e =
     (if le_channel e = Some ''stat'' then StatFile else if le_channel e = Some ''slow'' then SlowFile
      else if le_level e \<le> WarnLevel then ErrorFile else InfoFile)"

lemma FireFile_eq: "FireFile ok e files = write_to ok (file_of e) (le_line e) files"
  by (auto simp: FireFile_def file_of_def write_to_def)

lemma fired_file:
  "fold (\<lambda>e fs. snd (FireFile (\<lambda>_. True) e fs)) es files f = files f @ map le_line (filter (\<lambda>e. file_of e = f) es)"
  by (induction es arbitrary: files) (auto simp: FireFile_eq write_to_def)

subsection \<open>Telemetry\<close>

text \<open>The worker takes events while it runs, and drains the queue once it has seen the stop signal. \<open>sent\<close> is what \<open>send\<close> was
  called with; a failing request is lost without notice. \<open>offered\<close> and \<open>lost\<close> record what \<open>Fire\<close> did.\<close>

datatype worker = Working | DrainingQueue | Done

record telemetry =
  queueSize :: nat
  queue :: "string list"
  stop :: bool
  worker :: worker
  sent :: "string list"
  queued :: "string list"
  lost :: "string list"

record telemetry_config =
  tel_Enabled :: bool
  tel_Endpoint :: string
  TimeoutMs :: int
  QueueSize :: int

definition newTelemetryHook :: "telemetry_config \<Rightarrow> (telemetry \<times> duration) option" where
  "newTelemetryHook cfg =
     (if \<not> tel_Enabled cfg \<or> tel_Endpoint cfg = '''' then None
      else let timeoutMs = (if TimeoutMs cfg \<le> 0 then 1500 else TimeoutMs cfg);
               size = (if QueueSize cfg \<le> 0 then 2048 else QueueSize cfg) in
        Some (\<lparr>queueSize = nat size, queue = [], stop = False, worker = Working, sent = [], queued = [], lost = []\<rparr>,
          timeoutMs * millisecond))"

text \<open>\<open>Fire\<close>, with the marshalled event or \<open>None\<close> if it does not marshal; it never blocks and never fails.\<close>

definition FireTelemetry :: "string option \<Rightarrow> telemetry \<Rightarrow> telemetry" where
  "FireTelemetry payload h =
     (case payload of
        None \<Rightarrow> h
      | Some p \<Rightarrow> if length (queue h) < queueSize h then h\<lparr>queue := queue h @ [p], queued := queued h @ [p]\<rparr>
          else h\<lparr>lost := lost h @ [p]\<rparr>)"

definition CloseTelemetry :: "telemetry \<Rightarrow> telemetry" where
  "CloseTelemetry h = h\<lparr>stop := True\<rparr>"

definition send :: "telemetry \<Rightarrow> telemetry" where
  "send h = (case queue h of [] \<Rightarrow> h | p # ps \<Rightarrow> h\<lparr>queue := ps, sent := sent h @ [p]\<rparr>)"

text \<open>The steps of the worker: the outer select with both channels ready may take either; the inner one returns when the queue is
  empty.\<close>

inductive telemetry_step :: "telemetry \<Rightarrow> telemetry \<Rightarrow> bool" where
  fire: "telemetry_step h (FireTelemetry p h)"
| close: "telemetry_step h (CloseTelemetry h)"
| take: "worker h = Working \<Longrightarrow> queue h \<noteq> [] \<Longrightarrow> telemetry_step h (send h)"
| stopping: "worker h = Working \<Longrightarrow> stop h \<Longrightarrow> telemetry_step h (h\<lparr>worker := DrainingQueue\<rparr>)"
| drain: "worker h = DrainingQueue \<Longrightarrow> queue h \<noteq> [] \<Longrightarrow> telemetry_step h (send h)"
| finish: "worker h = DrainingQueue \<Longrightarrow> queue h = [] \<Longrightarrow> telemetry_step h (h\<lparr>worker := Done\<rparr>)"

inductive telemetry_reachable :: "telemetry_config \<Rightarrow> telemetry \<Rightarrow> bool" for cfg where
  init: "newTelemetryHook cfg = Some (h, t) \<Longrightarrow> telemetry_reachable cfg h"
| step: "telemetry_reachable cfg h \<Longrightarrow> telemetry_step h h' \<Longrightarrow> telemetry_reachable cfg h'"

definition telemetry_inv :: "telemetry \<Rightarrow> bool" where
  "telemetry_inv h \<longleftrightarrow> queued h = sent h @ queue h \<and> length (queue h) \<le> queueSize h \<and> 0 < queueSize h \<and>
     (worker h \<noteq> Working \<longrightarrow> stop h)"

lemma telemetry_inv_step: "telemetry_inv h \<Longrightarrow> telemetry_step h h' \<Longrightarrow> telemetry_inv h'"
  by (cases rule: telemetry_step.cases)
    (auto simp: telemetry_inv_def FireTelemetry_def CloseTelemetry_def send_def split: option.splits list.splits)

lemma telemetry_inv_reachable: "telemetry_reachable cfg h \<Longrightarrow> telemetry_inv h"
proof (induction rule: telemetry_reachable.induct)
  case (init h t)
  then show ?case by (auto simp: newTelemetryHook_def telemetry_inv_def Let_def split: if_splits)
qed (rule telemetry_inv_step)


definition demo_telemetry :: telemetry_config where
  "demo_telemetry = \<lparr>tel_Enabled = True, tel_Endpoint = ''t'', TimeoutMs = 0, QueueSize = 2\<rparr>"

definition demo_hook :: telemetry where
  "demo_hook = \<lparr>queueSize = 2, queue = [''a'', ''b''], stop = True, worker = DrainingQueue, sent = [], queued = [''a'', ''b''], lost = [''c'']\<rparr>"

lemma demo_hook_reachable: "telemetry_reachable demo_telemetry demo_hook"
proof -
  let ?h0 = "\<lparr>queueSize = 2, queue = [], stop = False, worker = Working, sent = [], queued = [], lost = []\<rparr>"
  let ?h3 = "FireTelemetry (Some ''c'') (FireTelemetry (Some ''b'') (FireTelemetry (Some ''a'') ?h0))"
  have "telemetry_reachable demo_telemetry ?h0"
    by (rule telemetry_reachable.init [of _ _ "1500 * millisecond"]) (simp add: newTelemetryHook_def demo_telemetry_def)
  then have "telemetry_reachable demo_telemetry (CloseTelemetry ?h3)"
    by (intro telemetry_reachable.step [OF _ telemetry_step.close] telemetry_reachable.step [OF _ telemetry_step.fire])
  then have "telemetry_reachable demo_telemetry ((CloseTelemetry ?h3)\<lparr>worker := DrainingQueue\<rparr>)"
    by (rule telemetry_reachable.step) (rule telemetry_step.stopping; simp add: CloseTelemetry_def FireTelemetry_def)
  moreover have "(CloseTelemetry ?h3)\<lparr>worker := DrainingQueue\<rparr> = demo_hook"
    by (simp add: CloseTelemetry_def FireTelemetry_def demo_hook_def)
  ultimately show ?thesis by simp
qed


subsection \<open>Setting up\<close>

record logging_config =
  lc_Level :: string
  lc_Dir :: string
  lc_InfoFile :: string
  lc_ErrorFile :: string
  lc_StatFile :: string
  lc_SlowFile :: string
  SlowThresholdMs :: int
  StatIntervalSec :: int
  lc_Telemetry :: telemetry_config

record log_setup =
  ls_paths :: "log_file \<Rightarrow> string"
  ls_threshold :: int
  ls_level :: nat
  ls_telemetry :: "(telemetry \<times> duration) option"

definition or_default :: "string \<Rightarrow> string \<Rightarrow> string" where
  "or_default d s = (if s = '''' then d else s)"

fun log_path :: "logging_config \<Rightarrow> log_file \<Rightarrow> string" where
  "log_path c InfoFile = Join [or_default ''./logs'' (lc_Dir c), or_default ''info.log'' (lc_InfoFile c)]"
| "log_path c ErrorFile = Join [or_default ''./logs'' (lc_Dir c), or_default ''error.log'' (lc_ErrorFile c)]"
| "log_path c StatFile = Join [or_default ''./logs'' (lc_Dir c), or_default ''stat.log'' (lc_StatFile c)]"
| "log_path c SlowFile = Join [or_default ''./logs'' (lc_Dir c), or_default ''slow.log'' (lc_SlowFile c)]"

definition parseLevel :: "(string \<Rightarrow> nat option) \<Rightarrow> string \<Rightarrow> nat option" where
  "parseLevel ParseLevel raw = (if raw = '''' then Some InfoLevel else ParseLevel raw)"

text \<open>The files are opened one after the other, and a failure closes the ones before it. \<open>None\<close> is an error; the set is what is
  open afterwards.\<close>

fun open_all :: "(string \<Rightarrow> bool) \<Rightarrow> logging_config \<Rightarrow> log_file list \<Rightarrow> log_file set \<Rightarrow> bool \<times> log_file set" where
  "open_all openLogFile c [] opened = (True, opened)"
| "open_all openLogFile c (f # fs) opened =
     (if openLogFile (log_path c f) then open_all openLogFile c fs (insert f opened) else (False, {}))"

definition Setup :: "(string \<Rightarrow> bool) \<Rightarrow> (string \<Rightarrow> bool) \<Rightarrow> (string \<Rightarrow> nat option) \<Rightarrow> logging_config \<Rightarrow> log_setup option \<times> log_file set" where
  "Setup mkdir openLogFile ParseLevel c =
     (if \<not> mkdir (or_default ''./logs'' (lc_Dir c)) then (None, {})
      else case open_all openLogFile c [InfoFile, ErrorFile, StatFile, SlowFile] {} of
        (False, opened) \<Rightarrow> (None, opened)
      | (True, opened) \<Rightarrow>
          (Some \<lparr>ls_paths = log_path c,
             ls_threshold = (if SlowThresholdMs c \<le> 0 then 1000 else SlowThresholdMs c),
             ls_level = (case parseLevel ParseLevel (lc_Level c) of None \<Rightarrow> InfoLevel | Some l \<Rightarrow> l),
             ls_telemetry = newTelemetryHook (lc_Telemetry c)\<rparr>, opened))"

lemma Setup_open_files:
  "Setup mkdir openLogFile ParseLevel c = (None, opened) \<Longrightarrow> opened = {}"
  "Setup mkdir openLogFile ParseLevel c = (Some l, opened) \<Longrightarrow> opened = UNIV \<and> 0 < ls_threshold l"
proof -
  have "UNIV = {InfoFile, ErrorFile, StatFile, SlowFile}" using log_file.exhaust by blast
  then show "Setup mkdir openLogFile ParseLevel c = (Some l, opened) \<Longrightarrow> opened = UNIV \<and> 0 < ls_threshold l"
    by (auto simp: Setup_def split: if_splits)
qed (auto simp: Setup_def split: if_splits)

text \<open>\<open>Stat\<close> and \<open>Slow\<close>: the fields of the caller are put over the channel; the formatter is an argument.\<close>

definition channel_entry :: "(nat \<Rightarrow> (string \<rightharpoonup> string) \<Rightarrow> string \<Rightarrow> string) \<Rightarrow> nat \<Rightarrow> string \<Rightarrow> string \<Rightarrow> (string \<rightharpoonup> string) \<Rightarrow> log_entry" where
  "channel_entry format_line level channel event fs =
     (let all = [''channel'' \<mapsto> channel] ++ fs in
      \<lparr>le_level = level, le_channel = all ''channel'', le_line = format_line level all event\<rparr>)"

definition Stat :: "(nat \<Rightarrow> (string \<rightharpoonup> string) \<Rightarrow> string \<Rightarrow> string) \<Rightarrow> string \<Rightarrow> (string \<rightharpoonup> string) \<Rightarrow> log_entry" where
  "Stat format_line event fs = channel_entry format_line InfoLevel ''stat'' event fs"

definition Slow :: "(nat \<Rightarrow> (string \<rightharpoonup> string) \<Rightarrow> string \<Rightarrow> string) \<Rightarrow> string \<Rightarrow> (string \<rightharpoonup> string) \<Rightarrow> log_entry" where
  "Slow format_line event fs = channel_entry format_line WarnLevel ''slow'' event fs"

definition SlowThreshold :: "int \<Rightarrow> duration" where
  "SlowThreshold ms = (if ms \<le> 0 then 1000 else ms) * millisecond"

definition SlowIfExceeds :: "(nat \<Rightarrow> (string \<rightharpoonup> string) \<Rightarrow> string \<Rightarrow> string) \<Rightarrow> int \<Rightarrow> string \<Rightarrow> duration \<Rightarrow> (string \<rightharpoonup> string) \<Rightarrow> log_entry list" where
  "SlowIfExceeds format_line ms event elapsed fs =
     (if elapsed < SlowThreshold ms then []
      else [Slow format_line event (fs(''elapsed_ms'' \<mapsto> show_int (elapsed div millisecond)))])"

text \<open>\<open>slowRequestMiddleware\<close>: every request is an entry of level info, and a slow one also an entry of the slow channel.\<close>

definition request_entries :: "(nat \<Rightarrow> (string \<rightharpoonup> string) \<Rightarrow> string \<Rightarrow> string) \<Rightarrow> int \<Rightarrow> duration \<Rightarrow> (string \<rightharpoonup> string) \<Rightarrow> log_entry list" where
  "request_entries format_line ms elapsed fs =
     \<lparr>le_level = InfoLevel, le_channel = fs ''channel'', le_line = format_line InfoLevel fs ''http.request''\<rparr> #
     SlowIfExceeds format_line ms ''http.request'' elapsed fs"

lemma slow_requests_logged:
  assumes "fs ''channel'' = None"
  shows "map file_of (request_entries format_line ms elapsed fs) =
    (if elapsed < SlowThreshold ms then [InfoFile] else [InfoFile, SlowFile])"
  using assms by (simp add: request_entries_def SlowIfExceeds_def Slow_def channel_entry_def file_of_def map_add_def Let_def)

end
