(* ===== verification/Config.thy ===== *)
theory Config
  imports Retry_Health Live_Urls Pion_Bridge Logging Media_Proc
begin

section \<open>The configuration\<close>

text \<open>
  \<open>config/config.go\<close>: the configuration tree, its defaults and \<open>Load\<close>; and \<open>loadRSAKey\<close> of
  \<open>cmd/server/main.go\<close>, which finds the key that signs sessions. The sections that a component reads as it is
  are the component's own record (\<open>mtx_config\<close>, \<open>pion_config\<close>, \<open>logging_config\<close>). The YAML decoder and the key
  parsers are parameters; the decoder works on the defaults, as \<open>Decode\<close> on a filled structure does. A \<open>float64\<close> is
  the rational it stands for, and \<open>fl\<close> rounds to the nearest one.
\<close>

record rtmp_config =
  rtmp_Enabled :: bool
  rtmp_Addr :: string

record redis_config =
  redis_Addr :: string
  redis_Password :: string
  redis_DB :: int

record node_config =
  node_ID :: string
  node_HTTPAddr :: string
  node_Role :: string
  HeartbeatInterval :: duration

record topology_config =
  Region :: string
  AZ :: string

record ha_config =
  DependencyTimeoutMs :: int
  LeaseTTLSeconds :: int
  LeaseClockSkewSeconds :: int
  LeaseTokenSecret :: string
  IdempotencyTTLSeconds :: int
  IdempotencyMaxKeys :: int

record slo_config =
  APIAvailabilityTarget :: rat
  StreamStartSuccessTarget :: rat
  FirstFrameP95MsTarget :: int
  ReconnectSuccessTarget :: rat

record hls_config =
  hls_RootPath :: string
  hls_SegmentDuration :: int
  MaxSegments :: int

record minio_config =
  minio_Endpoint :: string
  AccessKey :: string
  SecretKey :: string
  minio_Bucket :: string
  UseSSL :: bool
  minio_SegmentDuration :: int
  PresignExpiry :: int
  minio_Enabled :: bool

record mtx_proc_config =
  proc_Enabled :: bool
  proc_BinaryPath :: string
  proc_ConfigPath :: string
  proc_ReadyTimeout :: int

record auth_config =
  RSAPrivateKeyPath :: string
  RSAPrivateKeyPEM :: string
  TokenTTLHours :: int
  SeedAdminUser :: string
  SeedAdminPass :: string
  RateLimitBurst :: int

record relay_config =
  relay_Secret :: string
  relay_BaseURL :: string
  IdleTimeout :: int

record config =
  c_RTMP :: rtmp_config
  c_HTTP_Addr :: string
  c_Redis :: redis_config
  c_Node :: node_config
  c_Topology :: topology_config
  c_HA :: ha_config
  c_SLO :: slo_config
  c_HLS :: hls_config
  c_Storage_RootPath :: string
  c_MinIO :: minio_config
  c_MediaMTX :: mtx_config
  c_MediaMTXProc :: mtx_proc_config
  c_PionWebRTC :: pion_config
  c_Logging :: logging_config
  c_Auth :: auth_config
  c_Relay :: relay_config

definition config_defaults :: "(rat \<Rightarrow> rat) \<Rightarrow> config" where
  "config_defaults fl =
     \<lparr>c_RTMP = \<lparr>rtmp_Enabled = True, rtmp_Addr = '':1935''\<rparr>,
      c_HTTP_Addr = '':8080'',
      c_Redis = \<lparr>redis_Addr = ''localhost:6379'', redis_Password = '''', redis_DB = 0\<rparr>,
      c_Node = \<lparr>node_ID = ''node-1'', node_HTTPAddr = ''localhost:8080'', node_Role = ''master'', HeartbeatInterval = 5 * second\<rparr>,
      c_Topology = \<lparr>Region = ''local-dev'', AZ = ''az1''\<rparr>,
      c_HA = \<lparr>DependencyTimeoutMs = 1200, LeaseTTLSeconds = 90, LeaseClockSkewSeconds = 15,
        LeaseTokenSecret = ''dev-only-change-me'', IdempotencyTTLSeconds = 180, IdempotencyMaxKeys = 20000\<rparr>,
      c_SLO = \<lparr>APIAvailabilityTarget = fl (9995 / 100), StreamStartSuccessTarget = fl (999 / 10),
        FirstFrameP95MsTarget = 2500, ReconnectSuccessTarget = fl (999 / 10)\<rparr>,
      c_HLS = \<lparr>hls_RootPath = ''./data/hls'', hls_SegmentDuration = 2, MaxSegments = 5\<rparr>,
      c_Storage_RootPath = ''./data/storage'',
      c_MinIO = \<lparr>minio_Endpoint = ''localhost:9000'', AccessKey = ''minioadmin'', SecretKey = ''minioadmin'',
        minio_Bucket = ''recordings'', UseSSL = False, minio_SegmentDuration = 10, PresignExpiry = 60, minio_Enabled = False\<rparr>,
      c_MediaMTX = \<lparr>mtx_Enabled = False, APIBaseURL = ''http://localhost:9997'', HLSBaseURL = ''http://localhost:8888'',
        WebRTCBaseURL = ''http://localhost:8889'', RTSPBaseURL = ''rtsp://localhost:8554'', RTMPBaseURL = ''rtmp://localhost:1935'',
        PlaybackBaseURL = ''http://localhost:9996'', PlaybackFormat = ''mp4''\<rparr>,
      c_MediaMTXProc = \<lparr>proc_Enabled = False, proc_BinaryPath = ''./mediamtx'', proc_ConfigPath = ''./mediamtx.yml'', proc_ReadyTimeout = 15\<rparr>,
      c_PionWebRTC = \<lparr>pion_Enabled = False, PublicBaseURL = ''http://localhost:8080'', SourceRTSPBaseURL = ''rtsp://localhost:8554'',
        ICEServers = [''stun:stun.l.google.com:19302''], SessionTTLSeconds = 120\<rparr>,
      c_Logging = \<lparr>lc_Level = ''info'', lc_Dir = ''./data/logs'', lc_InfoFile = ''info.log'', lc_ErrorFile = ''error.log'',
        lc_StatFile = ''stat.log'', lc_SlowFile = ''slow.log'', SlowThresholdMs = 1000, StatIntervalSec = 30,
        lc_Telemetry = \<lparr>tel_Enabled = False, tel_Endpoint = '''', TimeoutMs = 1500, QueueSize = 2048\<rparr>\<rparr>,
      c_Auth = \<lparr>RSAPrivateKeyPath = '''', RSAPrivateKeyPEM = '''', TokenTTLHours = 8, SeedAdminUser = ''admin'', SeedAdminPass = '''',
        RateLimitBurst = 10\<rparr>,
      c_Relay = \<lparr>relay_Secret = ''dev-relay-secret-change-me'', relay_BaseURL = ''http://localhost:8080'', IdleTimeout = 60\<rparr>\<rparr>"

text \<open>\<open>Load\<close>: a configuration, perhaps with an error. A file that is not there is not an error.\<close>

datatype open_result = NotExist | OpenFailed | Contents string

definition Load :: "(rat \<Rightarrow> rat) \<Rightarrow> (string \<Rightarrow> open_result) \<Rightarrow> (string \<Rightarrow> config \<Rightarrow> config \<times> bool) \<Rightarrow> string \<Rightarrow> config option \<times> bool" where
  "Load fl open_file decode path =
     (case open_file path of
        NotExist \<Rightarrow> (Some (config_defaults fl), True)
      | OpenFailed \<Rightarrow> (None, False)
      | Contents y \<Rightarrow> (case decode y (config_defaults fl) of (c, ok) \<Rightarrow> (Some c, ok)))"

subsection \<open>The signing key\<close>

datatype key_err = ReadKeyFailed | GenerateFailed | PEMMalformed | PKCS8Failed | NotAnRSAKey | BadBlockType string | PKCS1Failed

text \<open>A parsed PKCS#8 block is an RSA key or another key. Every error ends the process.\<close>

datatype 'k pkcs8 = RSA 'k | OtherKey

record 'k key_env =
  read_key_file :: "string \<Rightarrow> string option"
  pem_Decode :: "string \<Rightarrow> (string \<times> string) option"
  ParsePKCS1 :: "string \<Rightarrow> 'k option"
  ParsePKCS8 :: "string \<Rightarrow> 'k pkcs8 option"
  GenerateRSAKey :: "'k option"

definition parse_key :: "'k key_env \<Rightarrow> string \<Rightarrow> key_err + 'k" where
  "parse_key env pem =
     (case pem_Decode env pem of
        None \<Rightarrow> Inl PEMMalformed
      | Some (block_type, content) \<Rightarrow>
          if block_type = ''RSA PRIVATE KEY'' then
            (case ParsePKCS1 env content of None \<Rightarrow> Inl PKCS1Failed | Some k \<Rightarrow> Inr k)
          else if block_type = ''PRIVATE KEY'' then
            (case ParsePKCS8 env content of
               None \<Rightarrow> Inl PKCS8Failed
             | Some OtherKey \<Rightarrow> Inl NotAnRSAKey
             | Some (RSA k) \<Rightarrow> Inr k)
          else Inl (BadBlockType block_type))"

definition loadRSAKey :: "'k key_env \<Rightarrow> auth_config \<Rightarrow> key_err + 'k" where
  "loadRSAKey env cfg =
     (if RSAPrivateKeyPath cfg \<noteq> '''' then
        (case read_key_file env (RSAPrivateKeyPath cfg) of None \<Rightarrow> Inl ReadKeyFailed | Some pem \<Rightarrow> parse_key env pem)
      else if RSAPrivateKeyPEM cfg \<noteq> '''' then parse_key env (RSAPrivateKeyPEM cfg)
      else (case GenerateRSAKey env of None \<Rightarrow> Inl GenerateFailed | Some k \<Rightarrow> Inr k))"

text \<open>A configured key is used or the process ends; the generated key is only for a configuration without one.\<close>

lemma configured_key_never_replaced:
  assumes "loadRSAKey env cfg = Inr k" "RSAPrivateKeyPath cfg \<noteq> '''' \<or> RSAPrivateKeyPEM cfg \<noteq> ''''"
  shows "\<exists>pem ty content. pem_Decode env pem = Some (ty, content) \<and>
    (if RSAPrivateKeyPath cfg \<noteq> '''' then read_key_file env (RSAPrivateKeyPath cfg) = Some pem else pem = RSAPrivateKeyPEM cfg) \<and>
    (ParsePKCS1 env content = Some k \<or> ParsePKCS8 env content = Some (RSA k))"
proof -
  have "\<exists>ty content. pem_Decode env pem = Some (ty, content) \<and> (ParsePKCS1 env content = Some k \<or> ParsePKCS8 env content = Some (RSA k))"
    if "parse_key env pem = Inr k" for pem
    using that by (auto simp: parse_key_def split: option.splits if_splits pkcs8.splits)
  then show ?thesis using assms by (fastforce simp: loadRSAKey_def split: if_splits option.splits)
qed

subsection \<open>The service level targets\<close>

text \<open>\<open>round2\<close> with \<open>math.Round\<close>, half away from zero; every operation rounds to \<open>float64\<close>.\<close>

definition math_Round :: "rat \<Rightarrow> rat" where
  "math_Round v = (if v < 0 then - of_int \<lfloor>- v + 1 / 2\<rfloor> else of_int \<lfloor>v + 1 / 2\<rfloor>)"

definition round2 :: "(rat \<Rightarrow> rat) \<Rightarrow> rat \<Rightarrow> rat" where
  "round2 fl v = fl (math_Round (fl (v * 100)) / 100)"

record slo_view =
  api_availability_target :: rat
  api_failure_budget_percent :: rat
  stream_start_success_target :: rat
  stream_failure_budget :: rat
  first_frame_p95_ms_target :: int
  reconnect_success_target :: rat
  reconnect_failure_budget :: rat

definition controlSLO :: "(rat \<Rightarrow> rat) \<Rightarrow> config \<Rightarrow> int \<times> slo_view" where
  "controlSLO fl c =
     (let s = c_SLO c in
      (200, \<lparr>api_availability_target = APIAvailabilityTarget s,
        api_failure_budget_percent = round2 fl (fl (100 - APIAvailabilityTarget s)),
        stream_start_success_target = StreamStartSuccessTarget s,
        stream_failure_budget = round2 fl (fl (100 - StreamStartSuccessTarget s)),
        first_frame_p95_ms_target = FirstFrameP95MsTarget s,
        reconnect_success_target = ReconnectSuccessTarget s,
        reconnect_failure_budget = round2 fl (fl (100 - ReconnectSuccessTarget s))\<rparr>))"

text \<open>The budgets that are shown differ from the exact ones by at most half a unit in the second decimal place and the error
  of the float operations.\<close>

lemma math_Round_error: "\<bar>math_Round v - v\<bar> \<le> 1 / 2"
proof -
  define a where "a = (of_int \<lfloor>- v + 1 / 2\<rfloor> :: rat)"
  define b where "b = (of_int \<lfloor>v + 1 / 2\<rfloor> :: rat)"
  have "a \<le> - v + 1 / 2" "b \<le> v + 1 / 2" unfolding a_def b_def by (rule of_int_floor_le)+
  moreover have "- v + 1 / 2 < a + 1" "v + 1 / 2 < b + 1"
    unfolding a_def b_def using floor_correct [of "- v + 1 / 2"] floor_correct [of "v + 1 / 2"] by simp_all
  moreover have "math_Round v = (if v < 0 then - a else b)" by (simp add: math_Round_def a_def b_def)
  ultimately show ?thesis by (cases "v < 0") (simp_all only: if_True if_False abs_le_iff, linarith+)
qed

lemma round2_error:
  assumes "\<forall>x. \<bar>x\<bar> \<le> 10000 \<longrightarrow> \<bar>fl x - x\<bar> \<le> e" "\<bar>v\<bar> \<le> 100" "e \<le> 1 / 2" "0 \<le> e"
  shows "\<bar>round2 fl v - v\<bar> \<le> 1 / 200 + 2 * e"
proof -
  let ?m = "math_Round (fl (v * 100))"
  have a: "\<bar>fl (v * 100) - v * 100\<bar> \<le> e" using assms(1,2) by (auto simp: abs_mult)
  have b: "\<bar>?m - fl (v * 100)\<bar> \<le> 1 / 2" by (rule math_Round_error)
  have d: "\<bar>?m / 100 - v\<bar> \<le> 1 / 200 + e / 100" using a b by linarith
  then have "\<bar>?m / 100\<bar> \<le> 10000" using assms(2,3) by linarith
  then have "\<bar>fl (?m / 100) - ?m / 100\<bar> \<le> e" using assms(1) by blast
  then show ?thesis unfolding round2_def using d assms(4) by linarith
qed

end
