(* ===== verification/Server.thy ===== *)
theory Server
  imports Http_Api Stream_Api Live_Sessions Cluster Config Flv
begin

section \<open>The server and its routes\<close>

text \<open>
  \<open>internal/api/server.go\<close>: \<open>NewServer\<close>, which puts the components together with their settings, and the route table of
  \<open>buildRouter\<close>; the health view of \<open>control.go\<close>; and \<open>internal/api/relay.go\<close>, the source end of a relay between nodes.
  The stores of the monitor view are in \<open>Stream_Api\<close>; the clients of Redis and MinIO are only there or not.

  The main results: the table gives every guarded call of \<open>Http_Api\<close> exactly the guard that is used there, and no
  other route reaches those handlers; the health view is degraded exactly if Redis or MediaMTX is configured and down.
\<close>

subsection \<open>The route table\<close>

record route =
  rt_method :: string
  rt_pattern :: string
  rt_guard :: guard
  rt_json :: bool
  rt_handler :: string

definition raw_route :: "string \<Rightarrow> string \<Rightarrow> guard \<Rightarrow> string \<Rightarrow> route" where
  "raw_route m p g h = \<lparr>rt_method = m, rt_pattern = p, rt_guard = g, rt_json = False, rt_handler = h\<rparr>"

definition json_route :: "string \<Rightarrow> string \<Rightarrow> string \<Rightarrow> route" where
  "json_route m p h = \<lparr>rt_method = m, rt_pattern = p, rt_guard = Open, rt_json = True, rt_handler = h\<rparr>"

definition auth_routes :: "bool \<Rightarrow> route list" where
  "auth_routes has_cams =
     [raw_route ''POST'' ''/api/v1/auth/login'' Open ''Login'',
      raw_route ''GET'' ''/api/v1/auth/session'' LoggedIn ''SessionInfo'',
      raw_route ''DELETE'' ''/api/v1/auth/session'' LoggedIn ''Logout'',
      raw_route ''POST'' ''/api/v1/live-sessions'' (Needs ''camera:view'') ''createLiveSessionV1'',
      raw_route ''DELETE'' ''/api/v1/live-sessions/{viewer_session_id}'' (Needs ''camera:view'') ''deleteLiveSessionV1'',
      raw_route ''POST'' ''/api/v1/users'' (Needs ''user:manage'') ''createUser'',
      raw_route ''GET'' ''/api/v1/users'' (Needs ''user:manage'') ''listUsers'',
      raw_route ''GET'' ''/api/v1/users/{user_id}'' (Needs ''user:manage'') ''getUser'',
      raw_route ''DELETE'' ''/api/v1/users/{user_id}'' (Needs ''user:manage'') ''deleteUser'',
      raw_route ''PATCH'' ''/api/v1/users/{user_id}/roles'' (Needs ''user:manage'') ''updateUserRoles''] @
     (if has_cams then
       [raw_route ''POST'' ''/api/v1/cameras'' (Needs ''camera:manage'') ''createCamera'',
        raw_route ''GET'' ''/api/v1/cameras'' (Needs ''camera:view'') ''listCameras'',
        raw_route ''GET'' ''/api/v1/cameras/{cam_id}'' (Needs ''camera:view'') ''getCamera'',
        raw_route ''DELETE'' ''/api/v1/cameras/{cam_id}'' (Needs ''camera:manage'') ''deleteCamera'']
      else [])"

text \<open>\<open>RegisterRoutes\<close> of the relay handler.\<close>

definition relay_routes :: "route list" where
  "relay_routes =
     [raw_route ''POST'' ''/internal/relay/sessions'' Open ''CreateSession'',
      raw_route ''DELETE'' ''/internal/relay/sessions/{relay_session_id}'' Open ''CloseSession'']"

definition media_routes :: "route list" where
  "media_routes =
     [raw_route ''POST'' ''/internal/on-publish'' Open ''onPublish'',
      raw_route ''POST'' ''/internal/on-unpublish'' Open ''onUnpublish'',
      raw_route ''GET'' ''/relay/{key}'' Open ''serveRelay'',
      raw_route ''GET'' ''/relay/live/{protocol}/{relay_session_id}'' Open ''serveRelayLiveStream'',
      raw_route ''GET'' ''/hls/{key}/index.m3u8'' Open ''serveHLSPlaylist'',
      raw_route ''GET'' ''/hls/{key}/{file}'' Open ''serveHLSSegment'',
      raw_route ''GET'' ''/storage/{key}/{file}'' Open ''serveStorage'',
      raw_route ''GET'' ''/pion/webrtc/{key}/demo'' Open ''pionDemoPage'']"

definition json_routes :: "route list" where
  "json_routes =
     [json_route ''GET'' ''/control/health'' ''controlHealth'',
      json_route ''GET'' ''/control/media-mtx'' ''controlMediaMTX'',
      json_route ''GET'' ''/control/slo'' ''controlSLO'',
      json_route ''GET'' ''/streams'' ''listStreams'',
      json_route ''GET'' ''/streams/{key}'' ''getStream'',
      json_route ''POST'' ''/streams/{key}/pin'' ''pinStream'',
      json_route ''DELETE'' ''/streams/{key}/pin'' ''unpinStream'',
      json_route ''GET'' ''/live/streams'' ''listLiveStreams'',
      json_route ''GET'' ''/live/{key}/urls'' ''getLiveURLs'',
      json_route ''GET'' ''/live/{key}/ws'' ''liveWebsocket'',
      json_route ''POST'' ''/live/{key}/session'' ''createLiveSession'',
      json_route ''POST'' ''/live/session/reattach'' ''reattachLiveSession'',
      json_route ''POST'' ''/pion/webrtc/{key}/offer'' ''pionOffer'',
      json_route ''DELETE'' ''/pion/webrtc/session/{id}'' ''pionCloseSession'',
      json_route ''GET'' ''/playback/streams'' ''listRecordingStreams'',
      json_route ''GET'' ''/playback/{key}/recordings'' ''listRecordings'',
      json_route ''GET'' ''/playback/{key}/timespans'' ''listPlaybackTimespans'',
      json_route ''GET'' ''/nodes'' ''listNodes'',
      json_route ''GET'' ''/monitor/priority'' ''monitorPriority'',
      json_route ''PUT'' ''/monitor/weights'' ''updateWeights'',
      json_route ''GET'' ''/onvif/discover'' ''onvifDiscover'',
      json_route ''GET'' ''/onvif/info'' ''onvifGetInfo'',
      json_route ''GET'' ''/onvif/snapshot'' ''onvifSnapshot'',
      json_route ''POST'' ''/onvif/ptz'' ''onvifPTZ'',
      json_route ''POST'' ''/onvif/reboot'' ''onvifReboot'',
      json_route ''POST'' ''/onvif/resolve'' ''onvifResolve'',
      json_route ''POST'' ''/camera/resolve'' ''cameraResolve'']"

text \<open>The profiler is mounted as a whole, for every method.\<close>

definition buildRouter :: "bool \<Rightarrow> bool \<Rightarrow> bool \<Rightarrow> route list" where
  "buildRouter has_auth has_relay has_cams =
     raw_route ''*'' ''/debug/*'' Open ''Profiler'' #
     (if has_auth then auth_routes has_cams else []) @ (if has_relay then relay_routes else []) @ media_routes @ json_routes"

text \<open>The route of a call of \<open>Http_Api\<close>.\<close>

fun route_of :: "api_call \<Rightarrow> string \<times> string \<times> string" where
  "route_of (PostLogin _ _) = (''POST'', ''/api/v1/auth/login'', ''Login'')"
| "route_of GetSession = (''GET'', ''/api/v1/auth/session'', ''SessionInfo'')"
| "route_of DeleteSession = (''DELETE'', ''/api/v1/auth/session'', ''Logout'')"
| "route_of (PostUser _ _) = (''POST'', ''/api/v1/users'', ''createUser'')"
| "route_of GetUsers = (''GET'', ''/api/v1/users'', ''listUsers'')"
| "route_of (GetUserById _) = (''GET'', ''/api/v1/users/{user_id}'', ''getUser'')"
| "route_of (DeleteUserById _) = (''DELETE'', ''/api/v1/users/{user_id}'', ''deleteUser'')"
| "route_of (PatchRoles _ _) = (''PATCH'', ''/api/v1/users/{user_id}/roles'', ''updateUserRoles'')"
| "route_of (PostCamera _ _) = (''POST'', ''/api/v1/cameras'', ''createCamera'')"
| "route_of GetCameras = (''GET'', ''/api/v1/cameras'', ''listCameras'')"
| "route_of (GetCameraById _) = (''GET'', ''/api/v1/cameras/{cam_id}'', ''getCamera'')"
| "route_of (DeleteCameraById _) = (''DELETE'', ''/api/v1/cameras/{cam_id}'', ''deleteCamera'')"

definition handler_routes :: "string \<Rightarrow> route list \<Rightarrow> route list" where
  "handler_routes h rs = filter (\<lambda>r. rt_handler r = h) rs"

text \<open>The guarded calls, one for each constructor, and what the table must hold for each.\<close>

definition guarded_calls :: "(string \<times> string \<times> string \<times> guard \<times> bool) list" where
  "guarded_calls = map (\<lambda>c. (fst (route_of c), fst (snd (route_of c)), snd (snd (route_of c)), guard_of c, needs_cams c))
     [PostLogin None '''', GetSession, DeleteSession, PostUser None None, GetUsers, GetUserById '''', DeleteUserById '''',
      PatchRoles '''' None, PostCamera None [], GetCameras, GetCameraById '''', DeleteCameraById '''']"

definition table_agrees :: "bool \<Rightarrow> bool \<Rightarrow> bool" where
  "table_agrees has_relay has_cams = list_all (\<lambda>(m, p, h, g, cam).
     handler_routes h (buildRouter True has_relay has_cams) = (if cam \<and> \<not> has_cams then [] else [raw_route m p g h])) guarded_calls"

lemma tables_agree: "table_agrees has_relay has_cams"
proof -
  have "list_all (\<lambda>(r, c). table_agrees r c) [(True, True), (True, False), (False, True), (False, False)]" by code_simp
  then show ?thesis by (cases has_relay; cases has_cams) simp_all
qed

text \<open>Each handler of a guarded call is on one route, with the guard that \<open>serve\<close> uses, or on none.\<close>

lemma call_route_unique:
  "handler_routes (snd (snd (route_of c))) (buildRouter True has_relay has_cams) =
     (if needs_cams c \<and> \<not> has_cams then []
      else [raw_route (fst (route_of c)) (fst (snd (route_of c))) (guard_of c) (snd (snd (route_of c)))])"
proof -
  have "(fst (route_of c), fst (snd (route_of c)), snd (snd (route_of c)), guard_of c, needs_cams c) \<in> set guarded_calls"
    by (cases c) (simp_all add: guarded_calls_def)
  then show ?thesis using tables_agree [of has_relay has_cams] by (fastforce simp: table_agrees_def list_all_iff)
qed

text \<open>The routes that change something for everybody, without any log-in.\<close>

lemma open_writes:
  "map rt_handler (filter (\<lambda>r. rt_guard r = Open \<and> rt_method r \<in> {''POST'', ''PUT'', ''PATCH'', ''DELETE''}) (buildRouter True True True)) =
   [''Login'', ''CreateSession'', ''CloseSession'', ''onPublish'', ''onUnpublish'', ''pinStream'', ''unpinStream'', ''createLiveSession'',
    ''reattachLiveSession'', ''pionOffer'', ''pionCloseSession'', ''updateWeights'', ''onvifPTZ'', ''onvifReboot'', ''onvifResolve'',
    ''cameraResolve'']"
  by code_simp

subsection \<open>The server\<close>

definition DefaultWeights :: "(rat \<Rightarrow> rat) \<Rightarrow> rat scoring_weights" where
  "DefaultWeights fl = \<lparr>ViewerCount = fl (4 / 10), BitrateHealth = fl (2 / 10), Recency = fl (1 / 10), ManualPin = fl (1 / 10),
     MotionActivity = fl (2 / 10)\<rparr>"

text \<open>The factory is its segment duration; without one the server makes it from the configuration.\<close>

definition NewFactory :: "int \<Rightarrow> int" where
  "NewFactory d = (if d \<le> 0 then 10 else d)"

record server_deps =
  dp_Redis :: bool
  dp_Registry :: "node_registry option"
  dp_MediaMTX :: "mtx_config option"
  dp_MinIO :: bool
  dp_Pion :: "pion option"
  dp_Subscribers :: "int option"
  dp_Ingest :: "ingest_mgr option"
  dp_Auth :: "service option"
  dp_StreamEngine :: "engine option"
  dp_RelayManager :: "relay_manager option"
  dp_Camera :: "cam_service option"

record server =
  sr_cfg :: config
  sr_api :: api_cfg
  sr_deps :: server_deps
  sr_segmentDuration :: int
  sr_relay :: "relay_mgr option"
  sr_healthDeps :: "(string \<times> bool) list"
  sr_dependencyTimeout :: duration
  sr_idempotency :: idem_store
  sr_lease :: lease_config
  sr_leaseSecret :: string
  sr_view :: "rat monitor"
  sr_router :: "route list"

definition NewRelayManager :: relay_mgr where
  "NewRelayManager = \<lparr>active = Map.empty, pulls = []\<rparr>"

definition lease_secret :: "string \<Rightarrow> string" where
  "lease_secret secret = (if secret = '''' then ''dev-only-change-me'' else secret)"

definition NewServer :: "(rat \<Rightarrow> rat) \<Rightarrow> config \<Rightarrow> server_deps \<Rightarrow> server" where
  "NewServer fl cfg d =
     (let ha = c_HA cfg in
      \<lparr>sr_cfg = cfg,
       sr_api = \<lparr>ac_mtx = dp_MediaMTX d, ac_pion = map_option (\<lambda>p. PublicBaseURL (pion_cfg p)) (dp_Pion d), ac_addr = c_HTTP_Addr cfg\<rparr>,
       sr_deps = d,
       sr_segmentDuration = (case dp_Subscribers d of None \<Rightarrow> NewFactory (minio_SegmentDuration (c_MinIO cfg)) | Some n \<Rightarrow> n),
       sr_relay = (if dp_Registry d = None then None else Some NewRelayManager),
       sr_healthDeps = buildDependencies (dp_Redis d) (dp_MediaMTX d \<noteq> None) (dp_MinIO d),
       sr_dependencyTimeout = DependencyTimeoutMs ha * millisecond,
       sr_idempotency = NewIdempotencyStore (IdempotencyTTLSeconds ha * second) (IdempotencyMaxKeys ha),
       sr_lease = NewLeaseService (if dp_Redis d then ''redis'' else ''memory'') (LeaseTTLSeconds ha * second) (LeaseClockSkewSeconds ha * second),
       sr_leaseSecret = lease_secret (LeaseTokenSecret ha),
       sr_view = \<lparr>pins = {}, weights = DefaultWeights fl\<rparr>,
       sr_router = buildRouter (dp_Auth d \<noteq> None) (dp_RelayManager d \<noteq> None) (dp_Camera d \<noteq> None)\<rparr>)"

subsection \<open>Health\<close>

text \<open>\<open>checks\<close> gives what the check of a dependency answers at that moment: its latency and its error.\<close>

definition server_monitor :: "(string \<Rightarrow> int \<times> string option) \<Rightarrow> server \<Rightarrow> health_monitor" where
  "server_monitor checks sv = NewMonitor (sr_dependencyTimeout sv)
     (map (\<lambda>(n, r). \<lparr>dep_Name = n, Required = r, Check = Some (checks n)\<rparr>) (sr_healthDeps sv))"

record health_view =
  hv_snapshot :: health_snapshot
  hv_node_id :: string
  hv_region :: string
  hv_az :: string

definition controlHealth :: "(string \<Rightarrow> int \<times> string option) \<Rightarrow> time \<Rightarrow> server \<Rightarrow> int \<times> health_view" where
  "controlHealth checks now sv =
     (200, \<lparr>hv_snapshot = Snapshot now (server_monitor checks sv), hv_node_id = node_ID (c_Node (sr_cfg sv)),
        hv_region = Region (c_Topology (sr_cfg sv)), hv_az = AZ (c_Topology (sr_cfg sv))\<rparr>)"

text \<open>What the health view of a new server says. It answers 200, lists the configured dependencies in the order Redis,
  MediaMTX, MinIO, and is degraded if and only if Redis is configured and its check fails, or MediaMTX is configured and
  its check fails; the state of MinIO is shown and decides nothing.\<close>

theorem health_view_degraded_iff:
  "let v = controlHealth checks now (NewServer fl cfg d); s = hv_snapshot (snd v) in
   fst v = 200 \<and>
   map dr_Name (Dependencies s) = (if dp_Redis d then [''redis''] else []) @
     (if dp_MediaMTX d \<noteq> None then [''media_mtx''] else []) @ (if dp_MinIO d then [''minio''] else []) \<and>
   (hs_Mode s = ModeDegradedControlPlane \<longleftrightarrow>
     dp_Redis d \<and> snd (checks ''redis'') \<noteq> None \<or> dp_MediaMTX d \<noteq> None \<and> snd (checks ''media_mtx'') \<noteq> None)"
proof -
  have m: "dependencies (server_monitor checks (NewServer fl cfg d)) =
      map (\<lambda>(n, r). \<lparr>dep_Name = n, Required = r, Check = Some (checks n)\<rparr>) (buildDependencies (dp_Redis d) (dp_MediaMTX d \<noteq> None) (dp_MinIO d))"
    by (simp add: server_monitor_def NewMonitor_def NewServer_def Let_def)
  have down: "dep_down \<lparr>dep_Name = n, Required = r, Check = Some (checks n)\<rparr> \<longleftrightarrow> snd (checks n) \<noteq> None" for n r
    by (simp add: dep_down_def split: prod.split)
  show ?thesis
    by (auto simp: controlHealth_def Let_def Snapshot_degraded_iff m buildDependencies_def down)
qed

subsection \<open>The source end of a relay\<close>

text \<open>\<open>serveRelay\<close> up to the point where it blocks, with what has been written, and its end, which comes with the end of
  the request and with nothing else. \<open>header_ok\<close> tells whether the header could be written.\<close>

datatype relay_conn = Refused404 | HeaderFailed | Serving nat

definition serveRelay :: "bool \<Rightarrow> string \<Rightarrow> manager \<Rightarrow> relay_conn \<times> bytes \<times> manager" where
  "serveRelay header_ok key m =
     (case Get key m of
        None \<Rightarrow> (Refused404, [], m)
      | Some i \<Rightarrow>
          if \<not> header_ok then (HeaderFailed, [], m)
          else (Serving i, fileHeader, m\<lparr>stream_objs := (stream_objs m)[i := (stream_objs m ! i)
            \<lparr>so_stream := AddSubscriber (Chan (NewRelaySubscriber key fileHeader)) (so_stream (stream_objs m ! i))\<rparr>]\<rparr>))"

definition endRelay :: "string \<Rightarrow> relay_conn \<Rightarrow> manager \<Rightarrow> manager" where
  "endRelay key c m = (case c of
     Serving i \<Rightarrow> m\<lparr>stream_objs := (stream_objs m)[i := (stream_objs m ! i)
       \<lparr>so_stream := RemoveSubscriber (''relay-'' @ key) (so_stream (stream_objs m ! i))\<rparr>]\<rparr>
   | _ \<Rightarrow> m)"

text \<open>A refused request leaves nothing behind; a served one has got the file header and one subscriber of its stream.\<close>

lemma serveRelay_outcome:
  assumes "mgr_inv m"
  shows "serveRelay header_ok key m = (c, out, m') \<Longrightarrow>
    (case c of
       Serving i \<Rightarrow> Get key m = Some i \<and> header_ok \<and> out = fileHeader \<and>
         subs (so_stream (stream_objs m' ! i)) (''relay-'' @ key) = Some (length (live_stream.objs (so_stream (stream_objs m ! i))))
     | _ \<Rightarrow> m' = m \<and> out = [] \<and> (Get key m = None \<or> \<not> header_ok))"
  using assms mgr_inv_bound [of m key]
  by (auto simp: serveRelay_def AddSubscriber_def NewRelaySubscriber_def new_chan_sub_def Get_def split: option.splits if_splits)

subsection \<open>Relay sessions without a log-in\<close>


definition no_deps :: server_deps where
  "no_deps = \<lparr>dp_Redis = False, dp_Registry = None, dp_MediaMTX = None, dp_MinIO = False, dp_Pion = None, dp_Subscribers = None,
     dp_Ingest = None, dp_Auth = None, dp_StreamEngine = None, dp_RelayManager = Some vs_relays, dp_Camera = None\<rparr>"

definition anon_request :: create_request where
  "anon_request = vs_request\<lparr>rq_TokenExpiresAt := 0\<rparr>"


end
