(* ===== verification/Lease_Backends.thy ===== *)
theory Lease_Backends
  imports Lease Cluster
begin

section \<open>Leases over a shared store\<close>

text \<open>
  The store interface of \<open>internal/ha/lease.go\<close> with its two implementations. \<open>Issue\<close> and \<open>Reattach\<close> are given
  for any store, as the code has them, with the errors a store can return; \<open>Lease\<close> has them with the memory
  store filled in, and two lemmas show that this is the same function. The Redis store keeps a marshalled lease
  under a prefixed key that expires; a command that fails changes nothing, and whether it fails is an argument.

  The locale \<open>lease_backend\<close> is the contract that both stores keep; the round trip of a token is proved in it
  once. The main result: with Redis a lease issued by one node is taken up by any other node that has the same
  secret, whatever the nodes store in between.
\<close>

subsection \<open>Issue and Reattach over any store\<close>

type_synonym 'st lease_save = "time \<Rightarrow> lease \<Rightarrow> duration \<Rightarrow> 'st \<Rightarrow> bool \<times> 'st"
type_synonym 'st lease_get = "time \<Rightarrow> string \<Rightarrow> 'st \<Rightarrow> lease option option \<times> 'st"

datatype reattach_err = LeaseErr lease_err | StoreFailed

definition IssueWith ::
  "'st lease_save \<Rightarrow> (token_claims \<Rightarrow> string) \<Rightarrow> (string \<Rightarrow> string) \<Rightarrow> lease_config \<Rightarrow> string \<Rightarrow> time \<Rightarrow> lease_input \<Rightarrow> 'st
    \<Rightarrow> (lease \<times> string) option \<times> 'st" where
  "IssueWith save enc mac cfg uid now inp s =
     (let l = new_lease cfg uid now inp in
      case save now l (l_ttl cfg) s of
        (False, s1) \<Rightarrow> (None, s1)
      | (True, s1) \<Rightarrow> (Some (l, signToken enc mac (claims_of l)), s1))"

definition ReattachWith ::
  "'st lease_save \<Rightarrow> 'st lease_get \<Rightarrow> (token_claims \<Rightarrow> string) \<Rightarrow> (string \<Rightarrow> token_claims option) \<Rightarrow> (string \<Rightarrow> string)
    \<Rightarrow> lease_config \<Rightarrow> time \<Rightarrow> string \<Rightarrow> 'st \<Rightarrow> (reattach_err + lease \<times> string) \<times> 'st" where
  "ReattachWith save get enc dec mac cfg now token s =
     (case parseToken dec mac token of
        Inl e \<Rightarrow> (Inl (LeaseErr e), s)
      | Inr c \<Rightarrow>
          if now < tc_IssuedAt c * second - skew cfg \<or> now > tc_ExpiresAt c * second + skew cfg
          then (Inl (LeaseErr ErrLeaseExpired), s)
          else case get now (tc_LeaseID c) s of
            (None, s1) \<Rightarrow> (Inl StoreFailed, s1)
          | (Some None, s1) \<Rightarrow> (Inl (LeaseErr ErrLeaseMissing), s1)
          | (Some (Some l), s1) \<Rightarrow>
              if l_StreamKey l \<noteq> tc_StreamKey c \<or> ViewerID l \<noteq> tc_ViewerID c then (Inl (LeaseErr ErrInvalidToken), s1)
              else if now > l_ExpiresAt l + skew cfg then (Inl (LeaseErr ErrLeaseExpired), s1)
              else let l' = l\<lparr>l_IssuedAt := now, l_ExpiresAt := now + l_ttl cfg\<rparr> in
                case save now l' (l_ttl cfg) s1 of
                  (False, s2) \<Rightarrow> (Inl StoreFailed, s2)
                | (True, s2) \<Rightarrow> (Inr (l', signToken enc mac (claims_of l')), s2))"

subsection \<open>The two stores\<close>

definition memory_Save :: "lease_items lease_save" where
  "memory_Save now l ttl s = (True, mem_save now l s)"

definition memory_Get :: "lease_items lease_get" where
  "memory_Get now i s = (case mem_get now i s of (r, s1) \<Rightarrow> (Some r, s1))"

lemma Issue_memory:
  "IssueWith memory_Save enc mac cfg uid now inp s = (case Issue enc mac cfg uid now inp s of (r, s1) \<Rightarrow> (Some r, s1))"
  by (simp add: IssueWith_def Issue_def memory_Save_def Let_def)

lemma Reattach_memory:
  "ReattachWith memory_Save memory_Get enc dec mac cfg now token s =
    (case Reattach enc dec mac cfg now token s of (r, s1) \<Rightarrow> (map_sum LeaseErr (\<lambda>x. x) r, s1))"
  by (auto simp: ReattachWith_def Reattach_def memory_Save_def memory_Get_def Let_def split: sum.split prod.split option.split)

type_synonym redis_leases = "string \<rightharpoonup> lease \<times> time"

abbreviation leaseKeyPrefix :: string where "leaseKeyPrefix \<equiv> ''session_lease:''"

definition redis_Save :: "bool \<Rightarrow> redis_leases lease_save" where
  "redis_Save ok now l ttl s = (ok, if ok then s(leaseKeyPrefix @ LeaseID l \<mapsto> (l, now + ttl)) else s)"

definition redis_Get :: "bool \<Rightarrow> redis_leases lease_get" where
  "redis_Get ok now i s = (if ok then Some (live_key now s (leaseKeyPrefix @ i)) else None, s)"

subsection \<open>The contract of a store that works\<close>

locale lease_backend =
  fixes save :: "'st lease_save" and get :: "'st lease_get"
  assumes save_ok: "fst (save now l ttl s)"
    and get_after_save: "now \<le> now' \<Longrightarrow> now' < l_ExpiresAt l \<Longrightarrow> l_ExpiresAt l = now + ttl \<Longrightarrow>
      fst (get now' (LeaseID l) (snd (save now l ttl s))) = Some (Some l)"
    and get_after_expiry: "l_ExpiresAt l < now' \<Longrightarrow> l_ExpiresAt l = now + ttl \<Longrightarrow>
      fst (get now' (LeaseID l) (snd (save now l ttl s))) = Some None"
    and get_other: "now \<le> now' \<Longrightarrow> LeaseID l \<noteq> i \<Longrightarrow> fst (get now' i (snd (save now l ttl s))) = fst (get now' i s)"
begin

text \<open>Any saves of other leases in between.\<close>

fun saves :: "(time \<times> lease \<times> duration) list \<Rightarrow> 'st \<Rightarrow> 'st" where
  "saves [] s = s"
| "saves ((t, l, ttl) # ws) s = saves ws (snd (save t l ttl s))"

lemma get_saves:
  "\<forall>(t, l, ttl)\<in>set ws. t \<le> now' \<and> LeaseID l \<noteq> i \<Longrightarrow> fst (get now' i (saves ws s)) = fst (get now' i s)"
  by (induction ws arbitrary: s) (auto simp: get_other)

lemma issued:
  assumes "IssueWith save enc mac cfg uid now inp s = (r, s1)"
  shows "r = Some (new_lease cfg uid now inp, signToken enc mac (claims_of (new_lease cfg uid now inp)))"
    "s1 = snd (save now (new_lease cfg uid now inp) (l_ttl cfg) s)"
  using assms save_ok [of now "new_lease cfg uid now inp" "l_ttl cfg" s] by (auto simp: IssueWith_def Let_def split: prod.splits bool.splits)

text \<open>The token of an issued lease, used at another node of the same secret while other leases come and go.\<close>

lemma reattach_anywhere:
  assumes i: "IssueWith save enc mac cfg uid now inp s = (Some (l, tok), s1)"
    and c: "codec_ok enc dec mac (claims_of l)" "uid \<noteq> ''''" "TrimSpace (in_StreamKey inp) \<noteq> ''''"
    and t: "0 \<le> skew cfg'" "now \<le> now'" "now' < unix (now + l_ttl cfg) * second"
    and others: "\<forall>(t, m, ttl)\<in>set ws. t \<le> now' \<and> LeaseID m \<noteq> uid"
  shows "fst (ReattachWith save get enc dec mac cfg' now' tok (saves ws s1)) =
     (let l' = l\<lparr>l_IssuedAt := now', l_ExpiresAt := now' + l_ttl cfg'\<rparr> in Inr (l', signToken enc mac (claims_of l')))"
proof -
  have l: "l = new_lease cfg uid now inp" "tok = signToken enc mac (claims_of l)" "s1 = snd (save now l (l_ttl cfg) s)"
    using issued [OF i] by auto
  have p: "parseToken dec mac tok = Inr (claims_of l)"
    unfolding l(2) by (rule parse_signed [OF c(1)]) (use c l(1) in \<open>simp_all add: claims_of_def\<close>)
  have b: "unix now * second \<le> now" "unix (now + l_ttl cfg) * second \<le> now + l_ttl cfg" by (rule unix_bounds)+
  have "fst (get now' (LeaseID l) (saves ws s1)) = fst (get now' (LeaseID l) s1)" by (rule get_saves) (use others l(1) in simp)
  also have "\<dots> = Some (Some l)" unfolding l(3) by (rule get_after_save) (use l(1) b t in \<open>simp_all\<close>)
  finally obtain s2 where g: "get now' (LeaseID l) (saves ws s1) = (Some (Some l), s2)" by (metis prod.collapse)
  let ?l = "l\<lparr>l_IssuedAt := now', l_ExpiresAt := now' + l_ttl cfg'\<rparr>"
  obtain s3 where v: "save now' ?l (l_ttl cfg') s2 = (True, s3)"
    using save_ok [of now' ?l "l_ttl cfg'" s2] by (metis prod.collapse)
  show ?thesis using g v b t l(1) unfolding ReattachWith_def p by (simp add: claims_of_def Let_def)
qed

text \<open>After the end of the lease the token is refused, the skew notwithstanding.\<close>

lemma reattach_after_expiry:
  assumes i: "IssueWith save enc mac cfg uid now inp s = (Some (l, tok), s1)"
    and c: "codec_ok enc dec mac (claims_of l)" "uid \<noteq> ''''" "TrimSpace (in_StreamKey inp) \<noteq> ''''"
    and t: "now + l_ttl cfg < now'" and others: "\<forall>(t, m, ttl)\<in>set ws. t \<le> now' \<and> LeaseID m \<noteq> uid"
  shows "fst (ReattachWith save get enc dec mac cfg' now' tok (saves ws s1)) \<in> {Inl (LeaseErr ErrLeaseExpired), Inl (LeaseErr ErrLeaseMissing)}"
proof -
  have l: "l = new_lease cfg uid now inp" "tok = signToken enc mac (claims_of l)" "s1 = snd (save now l (l_ttl cfg) s)"
    using issued [OF i] by auto
  have p: "parseToken dec mac tok = Inr (claims_of l)"
    unfolding l(2) by (rule parse_signed [OF c(1)]) (use c l(1) in \<open>simp_all add: claims_of_def\<close>)
  have "fst (get now' (LeaseID l) (saves ws s1)) = fst (get now' (LeaseID l) s1)" by (rule get_saves) (use others l(1) in simp)
  also have "\<dots> = Some None" unfolding l(3) by (rule get_after_expiry) (use l(1) t in \<open>simp_all\<close>)
  finally obtain s2 where "get now' (LeaseID l) (saves ws s1) = (Some None, s2)" by (metis prod.collapse)
  then show ?thesis unfolding ReattachWith_def p by (simp add: claims_of_def)
qed

end

interpretation memory: lease_backend memory_Save memory_Get
  by unfold_locales (auto simp: memory_Save_def memory_Get_def mem_save_def mem_get_def lease_gc_def Let_def split: option.split if_splits)

interpretation shared: lease_backend "redis_Save True" "redis_Get True"
  by unfold_locales (auto simp: redis_Save_def redis_Get_def live_key_def)

subsection \<open>Properties\<close>

text \<open>What other nodes write meanwhile: other leases, at earlier instants.\<close>

definition redis_writes :: "(time \<times> lease \<times> duration) list \<Rightarrow> redis_leases \<Rightarrow> redis_leases" where
  "redis_writes ws s = foldl (\<lambda>s (t, l, ttl). snd (redis_Save True t l ttl s)) s ws"

lemma redis_writes_saves: "redis_writes ws s = shared.saves ws s"
  by (induction ws arbitrary: s) (auto simp: redis_writes_def)

text \<open>Property C16: a lease follows its viewer from node to node. With Redis, the token of a lease that one node has issued, used
  before the lease ends at a node with the same secret and any settings of its own, whatever other leases the nodes
  have stored in between, returns the lease renewed from now for that node's TTL; when Redis cannot be read the
  answer is the store's error and nothing has changed; and when it can be read but not written the viewer gets an
  error although the lease is still there for the next attempt.\<close>

theorem redis_lease_crosses_nodes:
  assumes "IssueWith (redis_Save True) enc mac cfg uid now inp s = (Some (l, tok), s1)"
    and "codec_ok enc dec mac (claims_of l)" "uid \<noteq> ''''" "TrimSpace (in_StreamKey inp) \<noteq> ''''"
    and "0 \<le> skew cfg'" "now \<le> now'" "now' < unix (now + l_ttl cfg) * second"
    and "\<forall>(t, m, ttl)\<in>set ws. t \<le> now' \<and> LeaseID m \<noteq> uid"
  shows "\<exists>tok'. fst (ReattachWith (redis_Save True) (redis_Get True) enc dec mac cfg' now' tok (redis_writes ws s1)) =
      Inr (l\<lparr>l_IssuedAt := now', l_ExpiresAt := now' + l_ttl cfg'\<rparr>, tok') \<and>
    ReattachWith (redis_Save up) (redis_Get False) enc dec mac cfg' now' tok (redis_writes ws s1) =
      (Inl StoreFailed, redis_writes ws s1) \<and>
    ReattachWith (redis_Save False) (redis_Get True) enc dec mac cfg' now' tok (redis_writes ws s1) =
      (Inl StoreFailed, redis_writes ws s1)"
proof -
  have l: "l = new_lease cfg uid now inp" "tok = signToken enc mac (claims_of l)" using shared.issued [OF assms(1)] by auto
  have p: "parseToken dec mac tok = Inr (claims_of l)"
    unfolding l(2) by (rule parse_signed [OF assms(2)]) (use assms(3,4) l(1) in \<open>simp_all add: claims_of_def\<close>)
  have b: "unix now * second \<le> now" "unix (now + l_ttl cfg) * second \<le> now + l_ttl cfg" by (rule unix_bounds)+
  have r: "fst (ReattachWith (redis_Save True) (redis_Get True) enc dec mac cfg' now' tok (redis_writes ws s1)) =
      (let l' = l\<lparr>l_IssuedAt := now', l_ExpiresAt := now' + l_ttl cfg'\<rparr> in Inr (l', signToken enc mac (claims_of l')))"
    unfolding redis_writes_saves by (rule shared.reattach_anywhere [OF assms])
  then obtain m where m: "live_key now' (redis_writes ws s1) (leaseKeyPrefix @ LeaseID l) = Some m"
      "l_StreamKey m = l_StreamKey l" "ViewerID m = ViewerID l" "\<not> l_ExpiresAt m + skew cfg' < now'"
    unfolding ReattachWith_def p by (auto simp: redis_Get_def claims_of_def Let_def split: if_splits option.splits)
  show ?thesis using r m b assms(5-7) l(1)
    by (auto simp: Let_def ReattachWith_def p redis_Get_def redis_Save_def claims_of_def)
qed

theorem redis_lease_crosses_nodes_witness:
  "\<exists>l s1 tok'. IssueWith (redis_Save True) (\<lambda>_. ''p'') (\<lambda>_. ''m'') sample_cfg ''id'' 0 sample_input Map.empty = (Some (l, ''p.m''), s1) \<and>
     fst (ReattachWith (redis_Save True) (redis_Get True) (\<lambda>_. ''p'') (\<lambda>_. Some (claims_of l)) (\<lambda>_. ''m'') (NewLeaseService ''redis'' (30 * second) 0)
       second ''p.m'' (redis_writes [(second, l\<lparr>LeaseID := ''other''\<rparr>, second)] s1)) =
     Inr (l\<lparr>l_IssuedAt := second, l_ExpiresAt := 31 * second\<rparr>, tok')"
proof -
  let ?l = "new_lease sample_cfg ''id'' 0 sample_input"
  let ?s = "snd (redis_Save True 0 ?l (90 * second) Map.empty)"
  have i: "IssueWith (redis_Save True) (\<lambda>_. ''p'') (\<lambda>_. ''m'') sample_cfg ''id'' 0 sample_input Map.empty = (Some (?l, ''p.m''), ?s)"
    by (simp add: IssueWith_def signToken_def Let_def redis_Save_def)
  from redis_lease_crosses_nodes [OF i sample_codec _ sample_key_trimmed, of "NewLeaseService ''redis'' (30 * second) 0" second
      "[(second, ?l\<lparr>LeaseID := ''other''\<rparr>, second)]"] i
  show ?thesis by (auto simp: unix_def NewLeaseService_def)
qed

end
