(* ===== verification/Startup.thy ===== *)
theory Startup
  imports Server Lease_Backends
begin

section \<open>Start and shutdown\<close>

text \<open>
  \<open>cmd/server/main.go\<close>: the start of a node, step by step in the order of \<open>main\<close>, and its two ends. Every call into
  the outside (files, the child process, MinIO, Redis, key generation, the random numbers) has its outcome in the
  environment. \<open>logrus.Fatalf\<close> ends the process by \<open>os.Exit\<close>, which runs none of the deferred calls; what is left of the
  process is the MediaMTX child, if it has been started.

  The main results: a node on the default configuration starts without any other service, with the seeded
  administrator and with in-memory state, but cannot start a stream, since its ingest manager is a nil pointer in an
  interface; an error after the start of the child leaves the child running; and a shutdown by signal closes every
  peer connection, stops the child, and sends Redis the command to shut down.
\<close>

record 'k boot_env =
  be_fl :: "rat \<Rightarrow> rat"
  be_open_file :: "string \<Rightarrow> open_result"
  be_decode :: "string \<Rightarrow> config \<Rightarrow> config \<times> bool"
  be_mkdir :: "string \<Rightarrow> bool"
  be_openLogFile :: "string \<Rightarrow> bool"
  be_ParseLevel :: "string \<Rightarrow> nat option"
  be_launch_ok :: bool
  be_ready :: ready_result
  be_minio_init :: bool
  be_bucket_exists :: "bool option"
  be_bucket_made :: bool
  be_redis :: "redis option"
  be_keys :: "'k key_env"
  be_now :: time
  be_seed_ids :: "string list"
  be_bhash :: "string \<Rightarrow> string option"
  be_admin_id :: "string option"
  be_random :: bytes
  be_tenant :: "string option"

datatype fatal = BadConfig | LoggingFailed | ProcFailed | KeyFailed key_err | SeedRBACFailed auth_err | SeedAdminFailed auth_err | TenantFailed

text \<open>A running node. \<open>nd_iface\<close> is the interface value that the stream engine holds; \<open>nd_hooks\<close> tells whether the stream
  manager's hooks keep Redis up to date.\<close>

record 'k node =
  nd_cfg :: config
  nd_log :: log_setup
  nd_proc :: "proc_manager option"
  nd_manager :: manager
  nd_stats_interval :: duration
  nd_hooks :: bool
  nd_key :: 'k
  nd_admin_password :: string
  nd_iface :: ingest_iface
  nd_relay_idle :: duration
  nd_server :: server

datatype 'k boot = Fatal fatal "proc_manager option" | Up "'k node"

definition proc_config_of :: "config \<Rightarrow> proc_config" where
  "proc_config_of c =
     (let p = c_MediaMTXProc c in
      \<lparr>pc_Enabled = proc_Enabled p, BinaryPath = proc_BinaryPath p, ConfigPath = proc_ConfigPath p,
       pc_APIBaseURL = APIBaseURL (c_MediaMTX c), ReadyTimeout = proc_ReadyTimeout p * second\<rparr>)"

text \<open>The optional child: whether the start may go on, and the child.\<close>

definition start_child :: "'k boot_env \<Rightarrow> config \<Rightarrow> bool \<times> proc_manager option" where
  "start_child env c =
     (if \<not> proc_Enabled (c_MediaMTXProc c) then (True, None)
      else (case StartProc (be_launch_ok env) (be_ready env) (NewProc (proc_config_of c)) of (ok, p) \<Rightarrow> (ok, Some p)))"

definition stats_interval :: "int \<Rightarrow> duration" where
  "stats_interval sec = (if sec \<le> 0 then 30 else sec) * second"

text \<open>What \<open>startRuntimeStatsEmitter\<close> logs at a tick; \<open>mem\<close> are the figures of the Go runtime.\<close>

definition stats_tick :: "(nat \<Rightarrow> (string \<rightharpoonup> string) \<Rightarrow> string \<Rightarrow> string) \<Rightarrow> (string \<rightharpoonup> string) \<Rightarrow> string list \<Rightarrow> manager \<Rightarrow> log_entry" where
  "stats_tick format_line mem ks m =
     Logging.Stat format_line ''runtime.stats'' (mem(''stream_count'' \<mapsto> show_nat (length (AllStreams ks m)),
       ''subscriber_count'' \<mapsto> show_nat (sum_list (map (\<lambda>i. fst (Stats (so_stream (stream_objs m ! i)))) (AllStreams ks m)))))"

lemma stats_logged: "mem ''channel'' = None \<Longrightarrow> file_of (stats_tick format_line mem ks m) = StatFile"
  by (simp add: stats_tick_def Stat_def channel_entry_def file_of_def map_add_def Let_def)

definition rbac_of :: "redis option \<Rightarrow> rbac" where
  "rbac_of r = (case r of
     None \<Rightarrow> InMem NewInMemRBACStore
   | Some rd \<Rightarrow> Layered (layered_WarmFrom (NewLayeredRBACStore NewInMemRBACStore rd)))"

definition deps_of :: "'k boot_env \<Rightarrow> config \<Rightarrow> service \<Rightarrow> string \<Rightarrow> server_deps" where
  "deps_of env c auth tenant =
     (let minio = minio_New (minio_Enabled (c_MinIO c)) (be_minio_init env) (be_bucket_exists env) (be_bucket_made env) in
      \<lparr>dp_Redis = (be_redis env \<noteq> None),
       dp_Registry = (if be_redis env = None then None
         else Some (NewNodeRegistry (node_ID (c_Node c)) (node_HTTPAddr (c_Node c)) (node_Role (c_Node c)))),
       dp_MediaMTX = mtx_New (c_MediaMTX c),
       dp_MinIO = minio,
       dp_Pion = NewPion (c_PionWebRTC c),
       dp_Subscribers = Some (NewFactory (minio_SegmentDuration (c_MinIO c))),
       dp_Ingest = (if mtx_Enabled (c_MediaMTX c) then Some NewIngestManager else None),
       dp_Auth = Some auth,
       dp_StreamEngine = Some NewEngine,
       dp_RelayManager = Some \<lparr>rm_sessions = Map.empty, baseURL = relay_BaseURL (c_Relay c)\<rparr>,
       dp_Camera = Some (NewCamService NewCamStore (node_ID (c_Node c)) tenant)\<rparr>)"

text \<open>\<open>stream.NewEngine(manager, ingestMgr)\<close>: a nil \<open>*IngestManager\<close> becomes an interface that is not nil.\<close>

definition iface_of :: "config \<Rightarrow> ingest_iface" where
  "iface_of c = (if mtx_Enabled (c_MediaMTX c) then Usable else TypedNil)"

definition boot :: "'k boot_env \<Rightarrow> string \<Rightarrow> 'k boot" where
  "boot env cfgPath =
     (case Load (be_fl env) (be_open_file env) (be_decode env) cfgPath of
        (None, _) \<Rightarrow> Fatal BadConfig None
      | (Some c, False) \<Rightarrow> Fatal BadConfig None
      | (Some c, True) \<Rightarrow>
      (case fst (Setup (be_mkdir env) (be_openLogFile env) (be_ParseLevel env) (c_Logging c)) of
         None \<Rightarrow> Fatal LoggingFailed None
       | Some lg \<Rightarrow>
      (case start_child env c of
         (False, p) \<Rightarrow> Fatal ProcFailed p
       | (True, p) \<Rightarrow>
      (case loadRSAKey (be_keys env) (c_Auth c) of
         Inl e \<Rightarrow> Fatal (KeyFailed e) p
       | Inr key \<Rightarrow>
      (case SeedRBAC (be_now env) (be_seed_ids env) (NewService NewStore (NewJWTService (TokenTTLHours (c_Auth c))) (rbac_of (be_redis env))) of
         (Some e, _) \<Rightarrow> Fatal (SeedRBACFailed e) p
       | (None, auth1) \<Rightarrow>
      (case SeedAdmin (be_bhash env) (be_now env) (be_admin_id env) (be_random env) (SeedAdminUser (c_Auth c)) (SeedAdminPass (c_Auth c)) auth1 of
         (Inl e, _) \<Rightarrow> Fatal (SeedAdminFailed e) p
       | (Inr pw, auth2) \<Rightarrow>
      (case be_tenant env of
         None \<Rightarrow> Fatal TenantFailed p
       | Some tenant \<Rightarrow>
           Up \<lparr>nd_cfg = c, nd_log = lg, nd_proc = p, nd_manager = NewStreamManager,
               nd_stats_interval = stats_interval (StatIntervalSec (c_Logging c)),
               nd_hooks = (be_redis env \<noteq> None), nd_key = key, nd_admin_password = pw, nd_iface = iface_of c,
               nd_relay_idle = IdleTimeout (c_Relay c) * second,
               nd_server = NewServer (be_fl env) c (deps_of env c auth2 tenant)\<rparr>)))))))"

subsection \<open>The two ends\<close>

text \<open>The calls of a shutdown by signal, in order: those of \<open>main\<close> itself, then the deferred ones, last first.\<close>

datatype cleanup = StopTheRegistry | SendRedisShutdown | CloseThePion | StopStats | StopTheChild | CancelContext | CloseLogs

definition shutdown_calls :: "'k node \<Rightarrow> cleanup list" where
  "shutdown_calls nd =
     (let d = sr_deps (nd_server nd) in
      (if dp_Registry d \<noteq> None then [StopTheRegistry, SendRedisShutdown] else []) @
      (if dp_Registry d \<noteq> None then [StopTheRegistry] else []) @
      (if dp_Pion d \<noteq> None then [CloseThePion] else []) @
      [StopStats] @ (if nd_proc nd \<noteq> None then [StopTheChild] else []) @ [CancelContext, CloseLogs])"

definition upd_deps :: "(server_deps \<Rightarrow> server_deps) \<Rightarrow> 'k node \<Rightarrow> 'k node" where
  "upd_deps f nd = nd\<lparr>nd_server := (nd_server nd)\<lparr>sr_deps := f (sr_deps (nd_server nd))\<rparr>\<rparr>"

text \<open>What each call does; \<open>ids\<close> is the order in which \<open>Close\<close> visits the peer sessions, and \<open>in_time\<close> tells whether the child exits
  on the interrupt. The commands to Redis are collected.\<close>

fun run_cleanup :: "bool \<Rightarrow> string list \<Rightarrow> cleanup \<Rightarrow> 'k node \<times> string list \<Rightarrow> 'k node \<times> string list" where
  "run_cleanup in_time ids StopTheRegistry (nd, cs) = (upd_deps (\<lambda>d. d\<lparr>dp_Registry := map_option StopRegistry (dp_Registry d)\<rparr>) nd, cs)"
| "run_cleanup in_time ids SendRedisShutdown (nd, cs) = (nd, cs @ [''shutdown''])"
| "run_cleanup in_time ids CloseThePion (nd, cs) = (upd_deps (\<lambda>d. d\<lparr>dp_Pion := map_option (ClosePion ids) (dp_Pion d)\<rparr>) nd, cs)"
| "run_cleanup in_time ids StopStats (nd, cs) = (nd, cs)"
| "run_cleanup in_time ids StopTheChild (nd, cs) = (nd\<lparr>nd_proc := map_option (\<lambda>p. snd (terminate in_time (StopProc p))) (nd_proc nd)\<rparr>, cs)"
| "run_cleanup in_time ids CancelContext (nd, cs) = (nd\<lparr>nd_proc := map_option (\<lambda>p. p\<lparr>ctx_done := True\<rparr>) (nd_proc nd)\<rparr>, cs)"
| "run_cleanup in_time ids CloseLogs (nd, cs) =
     (nd\<lparr>nd_log := (nd_log nd)\<lparr>ls_telemetry := map_option (\<lambda>(h, t). (CloseTelemetry h, t)) (ls_telemetry (nd_log nd))\<rparr>\<rparr>, cs)"

definition shutdown :: "bool \<Rightarrow> string list \<Rightarrow> 'k node \<Rightarrow> 'k node \<times> string list" where
  "shutdown in_time ids nd = fold (run_cleanup in_time ids) (shutdown_calls nd) (nd, [])"

text \<open>The end by an error of the HTTP server: nothing is cleaned up.\<close>

definition http_failed :: "'k node \<Rightarrow> 'k node \<times> string list" where
  "http_failed nd = (nd, [])"

subsection \<open>A node on its own\<close>

lemma seeded_admin:
  assumes ids: "distinct ids" "6 \<le> length ids" and h: "bhash (if password = '''' then hex_encode random else password) \<noteq> None"
  shows "\<exists>s s2. SeedRBAC now ids (fresh_service (InMem NewInMemRBACStore)) = (None, s) \<and>
    SeedAdmin bhash now2 (Some i) random username password s = (Inr (if password = '''' then hex_encode random else password), s2) \<and>
    (\<forall>perm. UserHasPermission i perm (sv_rbac s2) \<longleftrightarrow> perm \<in> {''camera:view'', ''camera:manage'', ''relay:manage'', ''user:manage''})"
proof -
  obtain m where "let s = (fresh_service (InMem NewInMemRBACStore))\<lparr>sv_rbac := InMem m\<rparr> in
      SeedRBAC now ids (fresh_service (InMem NewInMemRBACStore)) = (None, s)
      \<and> (\<forall>perm. role_grants (InMem m) ''admin'' perm \<longleftrightarrow> perm \<in> {''camera:view'', ''camera:manage'', ''relay:manage'', ''user:manage''})
      \<and> (\<forall>perm. role_grants (InMem m) ''operator'' perm \<longleftrightarrow> perm = ''camera:view'')
      \<and> (\<forall>later ids'. SeedRBAC later ids' s = (None, s))"
    using seeded_fresh [OF ids, of now] by (rule exE)
  note m = this [unfolded Let_def, THEN conjunct1] this [unfolded Let_def, THEN conjunct2, THEN conjunct1, rule_format]
  let ?s = "(fresh_service (InMem NewInMemRBACStore))\<lparr>sv_rbac := InMem m\<rparr>"
  have "auth_inv (fresh_service (InMem NewInMemRBACStore))" by (simp add: auth_inv_def fresh_service_def NewService_def)
  from auth_inv_SeedRBAC [OF this, of now ids] have inv: "mem_inv m" by (simp add: m(1) auth_inv_def)
  have users: "userRoles m = (\<lambda>_. [])"
    using SeedRBAC_users [OF _ m(1)] by (simp add: fresh_service_def NewService_def NewInMemRBACStore_def)
  obtain r where r: "rolesByName m ''admin'' = Some r"
  proof -
    have "role_grants (InMem m) ''admin'' ''camera:view''" unfolding m(2) by (rule insertI1)
    then have "rolesByName m ''admin'' \<noteq> None" unfolding role_grants_def GetRoleByName_def mem_GetRoleByName_def by (metis cache.simps(1) option.case(1))
    then show ?thesis using that by blast
  qed
  then obtain x where known: "map_of (roles m) (RoleID r) = Some x" using mem_invD(1) [OF inv r] by (auto simp: known_roles_def)
  have grants: "perm \<in> set (rolePerms m (RoleID r)) \<longleftrightarrow> perm \<in> {''camera:view'', ''camera:manage'', ''relay:manage'', ''user:manage''}" for perm
    using m(2) [of perm] r
    by (simp only: role_grants_def GetRoleByName_def mem_GetRoleByName_def RolePermissionNames_def mem_RolePermissionNames_def option.case cache.simps)
  obtain h' where h': "bhash (if password = '''' then hex_encode random else password) = Some h'" using h by auto
  let ?n = "m\<lparr>userRoles := (userRoles m)(i := List.insert (RoleID r) (userRoles m i))\<rparr>"
  have "\<exists>st. SeedAdmin bhash now2 (Some i) random username password ?s =
      (Inr (if password = '''' then hex_encode random else password), ?s\<lparr>service.sv_store := st, sv_rbac := InMem ?n\<rparr>)"
    unfolding SeedAdmin_def
    using h' r known
    by (simp add: Let_def fresh_service_def NewService_def GetByUsername_def NewStore_def AddUser_def new_user_def
        GetRoleByName_def mem_GetRoleByName_def mem_AssignRoleToUser_def split del: if_split)
  then obtain st where st: "SeedAdmin bhash now2 (Some i) random username password ?s =
      (Inr (if password = '''' then hex_encode random else password), ?s\<lparr>service.sv_store := st, sv_rbac := InMem ?n\<rparr>)" ..
  have "UserHasPermission i perm (InMem ?n) \<longleftrightarrow> perm \<in> set (rolePerms m (RoleID r))" for perm
    by (simp add: UserHasPermission_def mem_UserHasPermission_def users)
  moreover have "sv_rbac (?s\<lparr>service.sv_store := st, sv_rbac := InMem ?n\<rparr>) = InMem ?n" by simp
  ultimately have "UserHasPermission i perm (sv_rbac (?s\<lparr>service.sv_store := st, sv_rbac := InMem ?n\<rparr>)) \<longleftrightarrow>
      perm \<in> {''camera:view'', ''camera:manage'', ''relay:manage'', ''user:manage''}" for perm
    using grants [of perm] by metis
  with m(1) st show ?thesis by (intro exI conjI allI)
qed

text \<open>A start that goes through, without Redis.\<close>

lemma boots:
  fixes env :: "'k boot_env"
  assumes c: "Load (be_fl env) (be_open_file env) (be_decode env) path = (Some c, True)"
    and lg: "fst (Setup (be_mkdir env) (be_openLogFile env) (be_ParseLevel env) (c_Logging c)) = Some lg"
    and ch: "start_child env c = (True, p)" and key: "loadRSAKey (be_keys env) (c_Auth c) = Inr k"
    and ttl: "NewJWTService (TokenTTLHours (c_Auth c)) = NewJWTService 0" and r: "be_redis env = None"
    and ids: "distinct (be_seed_ids env)" "6 \<le> length (be_seed_ids env)"
    and libs: "\<forall>pw. be_bhash env pw \<noteq> None" "be_admin_id env = Some i" "be_tenant env = Some t"
  shows "\<exists>nd auth. boot env path = Up nd \<and> nd_cfg nd = c \<and> nd_log nd = lg \<and> nd_proc nd = p \<and> nd_iface nd = iface_of c \<and> \<not> nd_hooks nd \<and>
    nd_admin_password nd = (if SeedAdminPass (c_Auth c) = '''' then hex_encode (be_random env) else SeedAdminPass (c_Auth c)) \<and>
    nd_server nd = NewServer (be_fl env) c (deps_of env c auth t) \<and>
    (\<forall>perm. UserHasPermission i perm (sv_rbac auth) \<longleftrightarrow> perm \<in> {''camera:view'', ''camera:manage'', ''relay:manage'', ''user:manage''})"
proof -
  let ?pw = "if SeedAdminPass (c_Auth c) = '''' then hex_encode (be_random env) else SeedAdminPass (c_Auth c)"
  have svc: "NewService NewStore (NewJWTService (TokenTTLHours (c_Auth c))) (rbac_of (be_redis env)) = fresh_service (InMem NewInMemRBACStore)"
    using ttl r by (simp add: rbac_of_def fresh_service_def)
  have "be_bhash env ?pw \<noteq> None" using libs(1) by blast
  then obtain s s2 where s: "SeedRBAC (be_now env) (be_seed_ids env) (fresh_service (InMem NewInMemRBACStore)) = (None, s)"
      "SeedAdmin (be_bhash env) (be_now env) (Some i) (be_random env) (SeedAdminUser (c_Auth c)) (SeedAdminPass (c_Auth c)) s = (Inr ?pw, s2)"
      "\<forall>perm. UserHasPermission i perm (sv_rbac s2) \<longleftrightarrow> perm \<in> {''camera:view'', ''camera:manage'', ''relay:manage'', ''user:manage''}"
    using seeded_admin [OF ids, of "be_bhash env" "SeedAdminPass (c_Auth c)" "be_random env" "be_now env" "be_now env" i "SeedAdminUser (c_Auth c)"]
    by blast
  have "\<exists>nd. boot env path = Up nd \<and> nd_cfg nd = c \<and> nd_log nd = lg \<and> nd_proc nd = p \<and> nd_iface nd = iface_of c \<and> \<not> nd_hooks nd \<and>
      nd_admin_password nd = ?pw \<and> nd_server nd = NewServer (be_fl env) c (deps_of env c s2 t)"
    using r unfolding boot_def c lg ch key svc libs(2,3) s(1,2) prod.case option.case bool.case sum.case by simp
  then show ?thesis using s(3) by blast
qed

text \<open>The call that uses the engine of a node whose ingest manager is the typed nil.\<close>

lemma createLiveSession_typed_nil:
  assumes "lb_CamID b \<noteq> ''''" "lb_ProfileID b \<noteq> ''''" "engine.entries e (key_string \<lparr>CamID = lb_CamID b, ProfileID = lb_ProfileID b\<rparr>) = None"
  shows "fst (createLiveSessionV1 jsign TypedNil start_err sid now m1 m2 polls vid now2 (Some b) (e, rm)) = 500"
  using assms by (simp add: createLiveSessionV1_def EnsureStream_def IsZero_def existing_def Let_def)

lemma default_values:
  "c_Auth (config_defaults fl) = \<lparr>RSAPrivateKeyPath = '''', RSAPrivateKeyPEM = '''', TokenTTLHours = 8, SeedAdminUser = ''admin'', SeedAdminPass = '''', RateLimitBurst = 10\<rparr>"
  "proc_Enabled (c_MediaMTXProc (config_defaults fl)) = False" "mtx_Enabled (c_MediaMTX (config_defaults fl)) = False"
  "lc_Dir (c_Logging (config_defaults fl)) = ''./data/logs''"
  by (simp_all add: config_defaults_def)

text \<open>Property C34: a node on its own. Without a configuration file and without Redis, if the log directory and files can be made
  and the libraries deliver a key, a password hash and fresh ids, the node starts; the seeded administrator has exactly
  the four permissions and a random password; leases are kept in memory and nothing is announced. But no viewer
  session can be made: a valid request for a stream that is not yet known is always answered with status 500, because
  MediaMTX is off and the engine calls a nil ingest manager.\<close>

theorem default_node:
  fixes env :: "'k boot_env"
  assumes "be_open_file env path = NotExist" "be_mkdir env ''./data/logs''" "\<forall>f. be_openLogFile env f" "be_redis env = None"
    and "distinct (be_seed_ids env)" "6 \<le> length (be_seed_ids env)" "GenerateRSAKey (be_keys env) = Some k"
    and "\<forall>pw. be_bhash env pw \<noteq> None" "be_admin_id env = Some i" "be_tenant env = Some t"
  shows "\<exists>nd auth. boot env path = Up nd \<and> dp_Auth (sr_deps (nd_server nd)) = Some auth \<and>
    (\<forall>perm. UserHasPermission i perm (sv_rbac auth) \<longleftrightarrow> perm \<in> {''camera:view'', ''camera:manage'', ''relay:manage'', ''user:manage''}) \<and>
    nd_admin_password nd = hex_encode (be_random env) \<and> backend (sr_lease (nd_server nd)) = ''memory'' \<and> \<not> nd_hooks nd \<and>
    (\<forall>jsign start_err sid now m1 m2 polls vid now2 b e rm.
       lb_CamID b \<noteq> '''' \<and> lb_ProfileID b \<noteq> '''' \<and> engine.entries e (key_string \<lparr>CamID = lb_CamID b, ProfileID = lb_ProfileID b\<rparr>) = None \<longrightarrow>
       fst (createLiveSessionV1 jsign (nd_iface nd) start_err sid now m1 m2 polls vid now2 (Some b) (e, rm)) = 500)"
proof -
  let ?c = "config_defaults (be_fl env)"
  have c: "Load (be_fl env) (be_open_file env) (be_decode env) path = (Some ?c, True)" using assms(1) by (simp add: Load_def)
  have "\<exists>lg. fst (Setup (be_mkdir env) (be_openLogFile env) (be_ParseLevel env) (c_Logging ?c)) = Some lg"
    using assms(2,3) by (simp add: Setup_def default_values or_default_def)
  then obtain lg where lg: "fst (Setup (be_mkdir env) (be_openLogFile env) (be_ParseLevel env) (c_Logging ?c)) = Some lg" ..
  have key: "loadRSAKey (be_keys env) (c_Auth ?c) = Inr k" using assms(7) by (simp add: loadRSAKey_def default_values)
  have ch: "start_child env ?c = (True, None)" by (simp add: start_child_def default_values)
  have ttl: "NewJWTService (TokenTTLHours (c_Auth ?c)) = NewJWTService 0" by (simp add: NewJWTService_def default_values)
  obtain nd auth where nd: "boot env path = Up nd" "nd_iface nd = iface_of ?c" "\<not> nd_hooks nd"
      "nd_admin_password nd = (if SeedAdminPass (c_Auth ?c) = '''' then hex_encode (be_random env) else SeedAdminPass (c_Auth ?c))"
      "nd_server nd = NewServer (be_fl env) ?c (deps_of env ?c auth t)"
      "\<forall>perm. UserHasPermission i perm (sv_rbac auth) \<longleftrightarrow> perm \<in> {''camera:view'', ''camera:manage'', ''relay:manage'', ''user:manage''}"
    using boots [OF c lg ch key ttl assms(4-6,8-10)] by blast
  have "dp_Auth (sr_deps (nd_server nd)) = Some auth" "backend (sr_lease (nd_server nd)) = ''memory''"
    unfolding nd(5) by (simp_all add: NewServer_def deps_of_def NewLeaseService_def Let_def assms(4))
  moreover have "nd_iface nd = TypedNil" "nd_admin_password nd = hex_encode (be_random env)"
    unfolding nd(2,4) by (simp_all add: iface_of_def default_values)
  ultimately show ?thesis using nd(1,3,6)
    by (intro exI [of _ nd] exI [of _ auth]) (simp add: createLiveSession_typed_nil del: insert_iff)
qed

definition lone_env :: "nat boot_env" where
  "lone_env = \<lparr>be_fl = (\<lambda>x. x), be_open_file = (\<lambda>_. NotExist), be_decode = (\<lambda>_ c. (c, True)), be_mkdir = (\<lambda>_. True),
     be_openLogFile = (\<lambda>_. True), be_ParseLevel = (\<lambda>_. Some 4), be_launch_ok = True, be_ready = IsReady,
     be_minio_init = False, be_bucket_exists = None, be_bucket_made = False, be_redis = None,
     be_keys = \<lparr>read_key_file = (\<lambda>_. None), pem_Decode = (\<lambda>_. None), ParsePKCS1 = (\<lambda>_. None), ParsePKCS8 = (\<lambda>_. None), GenerateRSAKey = Some 7\<rparr>,
     be_now = 0, be_seed_ids = [''1'', ''2'', ''3'', ''4'', ''5'', ''6''], be_bhash = (\<lambda>pw. Some pw), be_admin_id = Some ''u'',
     be_random = [1, 2], be_tenant = Some ''t''\<rparr>"

theorem default_node_witness:
  "\<exists>nd auth. boot lone_env ''server.yml'' = Up nd \<and> dp_Auth (sr_deps (nd_server nd)) = Some auth \<and>
     UserHasPermission ''u'' ''user:manage'' (sv_rbac auth) \<and> \<not> UserHasPermission ''u'' ''root'' (sv_rbac auth) \<and>
     fst (createLiveSessionV1 (\<lambda>_. Some ''tok'') (nd_iface nd) None ''s'' 0 NewStreamManager NewStreamManager [] ''v'' 0
       (Some \<lparr>lb_CamID = ''cam'', lb_ProfileID = ''main'', DeliveryProtocols = []\<rparr>) (NewEngine, vs_relays)) = 500"
proof -
  have e: "be_open_file lone_env ''server.yml'' = NotExist" "be_mkdir lone_env ''./data/logs''" "\<forall>f. be_openLogFile lone_env f"
      "be_redis lone_env = None" "distinct (be_seed_ids lone_env)" "6 \<le> length (be_seed_ids lone_env)"
      "GenerateRSAKey (be_keys lone_env) = Some 7" "\<forall>pw. be_bhash lone_env pw \<noteq> None" "be_admin_id lone_env = Some ''u''"
      "be_tenant lone_env = Some ''t''"
    by (simp_all add: lone_env_def)
  obtain nd auth where nd: "boot lone_env ''server.yml'' = Up nd" "dp_Auth (sr_deps (nd_server nd)) = Some auth"
      "\<forall>perm. UserHasPermission ''u'' perm (sv_rbac auth) \<longleftrightarrow> perm \<in> {''camera:view'', ''camera:manage'', ''relay:manage'', ''user:manage''}"
      "fst (createLiveSessionV1 (\<lambda>_. Some ''tok'') (nd_iface nd) None ''s'' 0 NewStreamManager NewStreamManager [] ''v'' 0
         (Some \<lparr>lb_CamID = ''cam'', lb_ProfileID = ''main'', DeliveryProtocols = []\<rparr>) (NewEngine, vs_relays)) = 500"
    using default_node [OF e] by (fastforce simp: NewEngine_def)
  from nd(3) have "UserHasPermission ''u'' ''user:manage'' (sv_rbac auth)" "\<not> UserHasPermission ''u'' ''root'' (sv_rbac auth)" by simp_all
  with nd(1,2,4) show ?thesis by blast
qed

subsection \<open>Errors after the child has been started\<close>

lemma StartProc_running:
  "StartProc ok r (NewProc cfg) = (True, p) \<Longrightarrow> child_at p = Running \<and> \<not> pm_stopped p"
  by (auto simp: StartProc_def launch_def NewProc_def child_at_def split: if_splits)


definition child_env :: "nat boot_env" where
  "child_env = lone_env\<lparr>be_open_file := (\<lambda>_. Contents ''y''),
     be_decode := (\<lambda>_ c. (c\<lparr>c_MediaMTXProc := (c_MediaMTXProc c)\<lparr>proc_Enabled := True\<rparr>, c_Auth := (c_Auth c)\<lparr>RSAPrivateKeyPath := ''k.pem''\<rparr>\<rparr>, True))\<rparr>"


subsection \<open>Shutdown\<close>

lemma upd_deps_simps [simp]:
  "sr_deps (nd_server (upd_deps f nd)) = f (sr_deps (nd_server nd))" "nd_proc (upd_deps f nd) = nd_proc nd" "nd_log (upd_deps f nd) = nd_log nd"
  by (simp_all add: upd_deps_def)

lemma StopRegistry_stopped [simp]: "reg_stopped (StopRegistry r)"
  by (simp add: StopRegistry_def)

text \<open>A node that has served some peer connections.\<close>

definition after_offers :: "pion_op list \<Rightarrow> 'k node \<Rightarrow> 'k node" where
  "after_offers ops nd = upd_deps (\<lambda>d. d\<lparr>dp_Pion := map_option (fold pion_step ops) (dp_Pion d)\<rparr>) nd"

lemma sr_deps_NewServer: "sr_deps (NewServer fl c d) = d"
  by (simp add: NewServer_def Let_def)

lemma boot_Up:
  assumes "boot env path = Up nd"
  shows "\<exists>auth tenant. sr_deps (nd_server nd) = deps_of env (nd_cfg nd) auth tenant"
    "start_child env (nd_cfg nd) = (True, nd_proc nd)"
  using assms by (auto simp: boot_def sr_deps_NewServer split: prod.splits option.splits bool.splits sum.splits) blast+


definition pion_env :: "nat boot_env" where
  "pion_env = lone_env\<lparr>be_open_file := (\<lambda>_. Contents ''y''),
     be_decode := (\<lambda>_ c. (c\<lparr>c_PionWebRTC := (c_PionWebRTC c)\<lparr>pion_Enabled := True\<rparr>\<rparr>, True))\<rparr>"


end
