(* ===== verification/Tokens.thy ===== *)
theory Tokens
  imports Auth_Service Relay_Sessions
begin

section \<open>Verifying tokens\<close>

text \<open>
  The two verifiers of signed tokens, \<open>internal/relay/token.go\<close> and \<open>internal/auth/jwt.go\<close>, over the JWT library.
  \<open>ParseWithClaims\<close> is a parameter: it asks a key function for the key of the token's signing method, and gives the
  claims and whether the token is valid. What is relied on is what it documents: a valid result has been verified with
  the key that the key function returned for the method in the token's header. The theories of the services take a
  verifier as it comes out of here.

  The result: neither verifier accepts a token of another kind of method, so that a token signed by HMAC under the
  public RSA key, which everybody knows, opens no session.
\<close>

datatype jwt_method = HMACMethod | RSAMethod | OtherMethod

type_synonym ('k, 'c) jwt_parser = "time \<Rightarrow> string \<Rightarrow> (jwt_method \<Rightarrow> 'k option) \<Rightarrow> ('c \<times> bool) option"

definition hmac_keyfunc :: "'k \<Rightarrow> jwt_method \<Rightarrow> 'k option" where
  "hmac_keyfunc secret m = (if m = HMACMethod then Some secret else None)"

definition rsa_keyfunc :: "'k \<Rightarrow> jwt_method \<Rightarrow> 'k option" where
  "rsa_keyfunc pub m = (if m = RSAMethod then Some pub else None)"

definition checked_claims :: "('c \<times> bool) option \<Rightarrow> 'c option" where
  "checked_claims r = (case r of None \<Rightarrow> None | Some (c, valid) \<Rightarrow> if \<not> valid then None else Some c)"

definition relay_Verify :: "('k, relay_claims) jwt_parser \<Rightarrow> 'k \<Rightarrow> verifier" where
  "relay_Verify parse secret now signed_text = checked_claims (parse now signed_text (hmac_keyfunc secret))"

text \<open>\<open>pub\<close> takes the public key from the private one.\<close>

definition jwt_Verify :: "('k, jwt_claims) jwt_parser \<Rightarrow> ('priv \<Rightarrow> 'k) \<Rightarrow> 'priv \<Rightarrow> jwt_verifier" where
  "jwt_Verify parse pub privateKey now signed_text = checked_claims (parse now signed_text (rsa_keyfunc (pub privateKey)))"

text \<open>The library's promise; \<open>method_of\<close> reads the header and \<open>verified\<close> is the method's check of the signature.\<close>

definition parser_ok :: "(string \<Rightarrow> jwt_method) \<Rightarrow> (jwt_method \<Rightarrow> 'k \<Rightarrow> string \<Rightarrow> bool) \<Rightarrow> ('k, 'c) jwt_parser \<Rightarrow> bool" where
  "parser_ok method_of verified parse \<longleftrightarrow> (\<forall>now raw kf c. parse now raw kf = Some (c, True) \<longrightarrow>
     (\<exists>k. kf (method_of raw) = Some k \<and> verified (method_of raw) k raw))"

lemma checked_parse:
  assumes "parser_ok method_of verified parse" "checked_claims (parse now raw kf) = Some c"
  shows "\<exists>k. kf (method_of raw) = Some k \<and> verified (method_of raw) k raw"
proof -
  have "parse now raw kf = Some (c, True)"
    using assms(2) by (auto simp: checked_claims_def split: option.splits if_splits)
  then show ?thesis using assms(1) unfolding parser_ok_def by blast
qed

lemma relay_Verify_sound:
  "parser_ok method_of verified parse \<Longrightarrow> relay_Verify parse secret now raw = Some c \<Longrightarrow>
   method_of raw = HMACMethod \<and> verified HMACMethod secret raw"
  unfolding relay_Verify_def by (drule (1) checked_parse) (auto simp: hmac_keyfunc_def split: if_splits)

lemma jwt_Verify_sound:
  "parser_ok method_of verified parse \<Longrightarrow> jwt_Verify parse pub key now raw = Some c \<Longrightarrow>
   method_of raw = RSAMethod \<and> verified RSAMethod (pub key) raw"
  unfolding jwt_Verify_def by (drule (1) checked_parse) (auto simp: rsa_keyfunc_def split: if_splits)

text \<open>The gate of the user API, with this verifier: whoever passes has shown a token with an RSA signature that the service's
  own public key verifies.\<close>

lemma passage_needs_rsa:
  assumes "parser_ok method_of verified parse" "Middleware (jwt_Verify parse pub key) now header s = Pass sess u"
  shows "method_of (extractBearer header) = RSAMethod \<and> verified RSAMethod (pub key) (extractBearer header)"
proof -
  obtain c where "jwt_Verify parse pub key now (extractBearer header) = Some c"
    using assms(2) by (auto simp: Middleware_def ValidateToken_def Let_def split: if_splits sum.splits option.splits)
  then show ?thesis by (rule jwt_Verify_sound [OF assms(1)])
qed

text \<open>The same for the delivery of relayed streams.\<close>

lemma delivery_needs_hmac:
  assumes "parser_ok method_of verified parse"
    and "fst (serveRelayLiveStream (relay_Verify parse secret) now header protocol i mo) \<in> {ServeHLS k, ServeWebRTC k}"
  shows "\<exists>raw. header = ''Bearer '' @ raw \<and> method_of raw = HMACMethod \<and> verified HMACMethod secret raw"
proof -
  have h: "HasPrefix header ''Bearer ''" using assms(2) by (auto simp: serveRelayLiveStream_def split: if_splits)
  let ?raw = "TrimPrefix header ''Bearer ''"
  obtain c where "relay_Verify parse secret now ?raw = Some c"
    using assms(2) h
    by (cases "relay_Verify parse secret now ?raw")
      (auto simp: serveRelayLiveStream_def VerifyAndGetSession_def Let_def split: option.splits)
  from relay_Verify_sound [OF assms(1) this] h show ?thesis
    by (intro exI [of _ ?raw]) (auto simp: TrimPrefix_def prefix_def)
qed

end
