(* ===== verification/Spec2Isabelle.thy ===== *)
theory Spec2Isabelle
  imports Frame_Builders Stream_Engine Protocol_Taxonomy Idempotency Lease Relay_Sessions Auth_Service
    Camera_Service Trace_Context Cluster Live_Sessions Media_Proc Onvif Stream_Api Pion_Bridge Http_Api Startup Tokens
begin

text \<open>
  Verification of \<^verbatim>\<open>go-cam-server\<close>, a camera streaming server written in Go.

  \<^bold>\<open>The program.\<close> A camera publishes to MediaMTX, an external media server, which \<open>cmd/server/main.go\<close> can run as a
  supervised child. A node pulls the camera's stream from it by RTSP (\<open>internal/rtsp\<close>), turns RTP access units into FLV
  packets (\<open>internal/rtsp\<close>, \<open>internal/flv\<close>), and hands them to the stream's pump (\<open>internal/stream\<close>), which passes each
  packet to every subscriber: the file archive, the HLS segmenter, the MinIO recorder, relays to other nodes, websocket
  viewers (\<open>internal/subscriber\<close>). Packets are pooled and reference counted. Nodes find each other's streams through Redis
  (\<open>internal/node\<close>) and pull them from each other by HTTP. The HTTP server (\<open>internal/api\<close>) has the viewers' and the
  operators' calls: live sessions with leases that survive a change of node (\<open>internal/ha\<close>), viewer sessions with relay
  tokens (\<open>internal/relay\<close>), WebRTC offers (\<open>internal/pionbridge\<close>), users and roles (\<open>internal/auth\<close>), the camera registry
  and the ONVIF client (\<open>internal/camera\<close>, \<open>internal/onvif\<close>), listings, files, health and monitoring.

  \<^bold>\<open>The theories\<close>, by layer; each opens with what it holds.

  \<^item> Foundations: \<open>Prelude\<close> (maps, lists, times in nanoseconds, shared collections of lemmas), \<open>Go_Strings\<close>, \<open>Go_Url\<close> and
    \<open>Go_Paths\<close> (what the code uses of Go's \<open>strings\<close>, \<open>net/url\<close> and \<open>path/filepath\<close>).
  \<^item> Media path: \<open>Packet_Pool\<close> (\<open>stream/types.go\<close>), \<open>Flv\<close> (\<open>flv/*.go\<close>), \<open>Frame_Builders\<close> (\<open>rtsp/ingester.go\<close>), \<open>Hls_Sink\<close>,
    \<open>Minio_Sink\<close> and \<open>Subscribers\<close> (\<open>subscriber/*.go\<close>), \<open>Fanout\<close> (\<open>stream/fanout.go\<close>, as operations and as an interleaving
    step relation with all subscribers' goroutines).
  \<^item> Streams and nodes: \<open>Stream_Manager\<close> (\<open>stream/manager.go\<close> with the sessions of \<open>rtsp/ingester.go\<close> and \<open>node/relay.go\<close>),
    \<open>Stream_Engine\<close> (\<open>stream/engine.go\<close>), \<open>Cluster\<close> (\<open>node/registry.go\<close>, \<open>selector.go\<close>), \<open>Media_Proc\<close> (\<open>mediamtxproc/manager.go\<close>).
  \<^item> Sessions and reliability: \<open>Idempotency\<close>, \<open>Lease\<close>, \<open>Lease_Backends\<close>, \<open>Retry_Health\<close> (\<open>ha/*.go\<close>), \<open>Live_Urls\<close>
    (\<open>mediamtx/client.go\<close>, \<open>api/live_urls.go\<close>), \<open>Live_Sessions\<close> (\<open>api/session.go\<close>), \<open>Relay_Sessions\<close> (\<open>relay/*.go\<close>),
    \<open>Pion_Bridge\<close> (\<open>pionbridge/service.go\<close>, \<open>api/pion.go\<close>), \<open>Protocol_Taxonomy\<close> (\<open>protocol/taxonomy.go\<close>), \<open>Trace_Context\<close>
    (\<open>tracectx/tracectx.go\<close>).
  \<^item> Access: \<open>Rbac\<close> (\<open>auth/rbac_*.go\<close>), \<open>Auth_Service\<close> (\<open>auth/*.go\<close>, \<open>api/user_handler.go\<close>), \<open>Tokens\<close> (\<open>auth/jwt.go\<close>, \<open>relay/token.go\<close>).
  \<^item> Cameras: \<open>Camera_Model\<close>, \<open>Camera_Service\<close> (\<open>camera/*.go\<close>), \<open>Onvif\<close> (\<open>onvif/client.go\<close>).
  \<^item> The server: \<open>Stream_Api\<close>, \<open>Http_Api\<close> and \<open>Server\<close> (\<open>api/*.go\<close>), \<open>Logging\<close> (\<open>logging/logging.go\<close>), \<open>Config\<close>
    (\<open>config/config.go\<close>), \<open>Startup\<close> (\<open>cmd/server/main.go\<close>).

  \<^bold>\<open>How the code is modelled.\<close> A struct is a record, an enumeration or a sum of outcomes a datatype, a method a function from
  the state to a result and the state. Objects that are shared by pointer (packets, streams, subscribers, idempotency
  entries, engine entries) live in a list and are named by their index, so that aliasing and stale pointers are in the model.
  Go maps are partial functions; where the code ranges over one, the order is an argument. Bytes and counters whose width
  matters are words; other integers are unbounded, which is exact as long as a configured duration stays under 292 years of
  nanoseconds. Floating-point numbers are rationals with the rounding as a parameter, or an abstract type. Goroutines are
  the steps of inductive relations (\<open>Fanout.step\<close>, \<open>Idempotency.idem_step\<close>, \<open>Media_Proc.proc_step\<close>,
  \<open>Logging.telemetry_step\<close>); a goroutine that only waits is given by the instants at which it acts. Panics and errors are values.

  Libraries, the network, files, clocks and random numbers are arguments: functions, outcomes of the calls in order, or
  instants. What is relied on of a library is a named hypothesis with a witness (\<open>jwt_ok\<close>, \<open>jwt_law\<close>, \<open>bcrypt_law\<close>, \<open>codec_ok\<close>,
  \<open>parser_ok\<close>, \<open>fl_ok\<close>), never a definition. Redis is modelled by the commands the code sends, each of which can fail before or
  after it took effect (\<open>Rbac\<close>), or by its keys with their expiry (\<open>Cluster\<close>, \<open>Lease_Backends\<close>).

  \<^bold>\<open>Interfaces.\<close> What several providers promise to one client is a locale, interpreted on each provider: \<open>io_writer\<close> (a buffer
  and a limited sink), \<open>packet_consumer\<close> (channel subscribers, websocket viewers, any subscriber), \<open>stream_registry\<close> (the
  manager), \<open>role_assignments\<close> and its extension \<open>reliable_assignments\<close> (the memory store and the store as the service
  holds it), \<open>lease_store\<close> (the memory store) and \<open>lease_backend\<close> (the memory and the Redis store).

  \<^bold>\<open>What is shown.\<close> Media: no packet in use is pooled, none twice, and none changes while referred to; every packet goes
  once to every subscriber; tags and frames read back as written; the segmenter's files are exactly the window of its
  specification and the recorder loses nothing that it took. Streams: the live streams are the registered ones;
  ensuring a running stream is idempotent; the selector picks the least loaded candidate, and a node that misses no two
  beats stays selectable; the supervisor never has two children. Sessions: one producer for each idempotency key, leases and tokens
  round-trip, also between nodes, retries are bounded, WebRTC leaks nothing. Access: the cached permissions are
  those of Redis, revocation is final, created users can do what their roles allow, nobody escalates through any sequence of
  requests. Cameras: what is stored is valid; stream addresses come from the profiles. The whole: a node on the default
  configuration, what an error at start and a shutdown leave behind. The properties are the theorems after a text that
  starts with \<open>Property\<close>; the other lemmas serve them or state the behaviour of single operations.

  The development also proves behaviour that the code hardly means, among it: packets dropped at ingest never return to the
  pool; two relay viewers of one stream collide; a relay that ends takes the publisher's entry away; the skew allowance of leases
  never takes effect; an interrupted seeding is never completed; certain camera requests are always refused; a device without named
  profiles panics the ONVIF client; the relay session routes and the camera controls ask for no log-in; any fatal error
  after the start leaves the child process; stopping one node shuts the shared Redis server down.

  \<^bold>\<open>Bounds and fuel.\<close> No definition uses fuel. Loops over data are structural; \<open>enforceMaxKeys\<close>, \<open>hyphenate\<close> and the other loops
  that are not have termination proofs; polling loops recurse over the list of answers they get, and the theorems about
  them hold for every length of it.

  \<^bold>\<open>Not modelled.\<close> The constructor of the Redis client (\<open>internal/redis/client.go\<close>, a ping whose outcome \<open>Startup\<close> takes as an
  argument), the listener and the middlewares of the router library, JSON encoding and log fields, the HTML of the WebRTC
  demo page, and the loops that forward a child's output or drain RTCP: they only pass data through. The protocol buffer file and
  the shell scripts are not Go code, and the tests are not part of the program.
\<close>

end
